(* ===== verification/GoLib.thy ===== *)
theory GoLib
  imports Main "HOL-Library.Word" "HOL-Library.Char_ord" "HOL-Library.List_Lexorder"
    "HOL-Library.Sublist" "HOL-Library.Code_Target_Nat"
begin

unbundle bit_operations_syntax

text \<open>
  The prelude of the development: the types of the Go language and the parts of its
  standard library that every component uses.

  Go's \<^verbatim>\<open>byte\<close> is \<open>8 word\<close>, a \<^verbatim>\<open>[]byte\<close> is a list of them. A Go
  \<^verbatim>\<open>string\<close> is a sequence of bytes, which is what HOL's \<open>string\<close> is. Go's
  \<^verbatim>\<open>int\<close> and \<^verbatim>\<open>int64\<close> are \<open>int\<close> where no operation of the source
  can leave the 64-bit range, and words where it can.

  A Go \<^verbatim>\<open>error\<close> is a value of \<open>go_error\<close>: the constructors keep the format
  string of the source and its arguments unrendered, and the wrapped error apart, so that
  \<^verbatim>\<open>errors.Is\<close> and \<^verbatim>\<open>errors.Join\<close> are the functions of the library. A call
  that returns \<^verbatim>\<open>(value, error)\<close> and whose value is meaningless on error has the
  type \<open>go_error + 'a\<close>.
\<close>

section \<open>Bytes and strings\<close>

type_synonym byte = "8 word"
type_synonym bytes = "byte list"

definition char_of_byte :: "byte \<Rightarrow> char" where
  "char_of_byte b = char_of (unat b)"

definition byte_of_char :: "char \<Rightarrow> byte" where
  "byte_of_char c = word_of_nat (of_char c)"

definition string_of_bytes :: "bytes \<Rightarrow> string" where
  "string_of_bytes bs = map char_of_byte bs"

definition bytes_of_string :: "string \<Rightarrow> bytes" where
  "bytes_of_string s = map byte_of_char s"

lemma unat_byte_less [simp]: "unat (b :: byte) < 256"
  using unsigned_less [of b] by simp

lemma of_char_less [simp]: "(of_char c :: nat) < 256"
  by (metis of_char_mod_256 mod_less_divisor zero_less_numeral)

definition byte_of_nat :: "nat \<Rightarrow> byte" where
  "byte_of_nat n = word_of_nat n"

lemma unat_byte_of_nat [simp]: "n < 256 \<Longrightarrow> unat (byte_of_nat n) = n"
  by (simp add: byte_of_nat_def unat_of_nat)

lemma byte_of_nat_unat [simp]: "byte_of_nat (unat b) = b"
  by (simp add: byte_of_nat_def)

lemma byte_of_char_of_byte [simp]: "byte_of_char (char_of_byte b) = b"
  by (simp add: byte_of_char_def char_of_byte_def)

lemma char_of_byte_of_char [simp]: "char_of_byte (byte_of_char c) = c"
  by (simp add: byte_of_char_def char_of_byte_def unat_of_nat)

lemma bytes_of_string_of_bytes [simp]: "bytes_of_string (string_of_bytes bs) = bs"
  by (induction bs) (simp_all add: bytes_of_string_def string_of_bytes_def)

lemma string_of_bytes_of_string [simp]: "string_of_bytes (bytes_of_string s) = s"
  by (induction s) (simp_all add: bytes_of_string_def string_of_bytes_def)

lemma length_string_of_bytes [simp]: "length (string_of_bytes bs) = length bs"
  by (simp add: string_of_bytes_def)

lemma string_of_bytes_append [simp]:
  "string_of_bytes (xs @ ys) = string_of_bytes xs @ string_of_bytes ys"
  by (simp add: string_of_bytes_def)

lemma string_of_bytes_eq_iff [simp]: "string_of_bytes xs = string_of_bytes ys \<longleftrightarrow> xs = ys"
  by (metis bytes_of_string_of_bytes)

section \<open>Errors\<close>

text \<open>
  \<open>ErrNew s\<close> is \<^verbatim>\<open>errors.New(s)\<close>; \<open>ErrSentinel s\<close> a package-level error
  variable, compared by identity; \<open>Errorf f args\<close> is \<^verbatim>\<open>fmt.Errorf(f, args...)\<close> without
  a \<^verbatim>\<open>%w\<close> verb, \<open>Wrapf f args e\<close> with one that wraps \<open>e\<close>;
  \<open>ErrJoin es\<close> is the non-nil result of \<^verbatim>\<open>errors.Join\<close>.
\<close>

datatype fmt_arg = AInt int | AStr string

datatype go_error =
    ErrNew string
  | ErrSentinel string
  | Errorf string "fmt_arg list"
  | Wrapf string "fmt_arg list" go_error
  | ErrJoin "go_error list"

type_synonym 'a go_result = "go_error + 'a"

definition io_EOF :: go_error where
  "io_EOF = ErrSentinel ''EOF''"

definition io_ErrUnexpectedEOF :: go_error where
  "io_ErrUnexpectedEOF = ErrSentinel ''unexpected EOF''"

text \<open>\<^verbatim>\<open>errors.Is(err, target)\<close> walks the tree of wrapped errors.\<close>

fun errors_Is :: "go_error \<Rightarrow> go_error \<Rightarrow> bool" where
  "errors_Is (Wrapf f a e) t = (Wrapf f a e = t \<or> errors_Is e t)"
| "errors_Is (ErrJoin es) t = (ErrJoin es = t \<or> list_ex (\<lambda>e. errors_Is e t) es)"
| "errors_Is e t = (e = t)"

definition option_list :: "'a option \<Rightarrow> 'a list" where
  "option_list x = (case x of None \<Rightarrow> [] | Some y \<Rightarrow> [y])"

lemma option_list_simps [simp]: "option_list None = []" "option_list (Some y) = [y]"
  by (simp_all add: option_list_def)

text \<open>\<^verbatim>\<open>errors.Join\<close> drops nil errors and is nil when nothing is left.\<close>

definition errors_Join :: "go_error option list \<Rightarrow> go_error option" where
  "errors_Join es = (case concat (map option_list es) of [] \<Rightarrow> None | ys \<Rightarrow> Some (ErrJoin ys))"

abbreviation errors_Join_list :: "go_error list \<Rightarrow> go_error option" where
  "errors_Join_list es \<equiv> errors_Join (map Some es)"

lemma concat_option_list_Some [simp]: "concat (map (option_list \<circ> Some) es) = es"
  by (induction es) simp_all

lemma errors_Join_list_None_iff [simp]: "errors_Join_list es = None \<longleftrightarrow> es = []"
  by (simp add: errors_Join_def split: list.splits)

lemma errors_Join_list_Nil [simp]: "errors_Join [] = None"
  by (simp add: errors_Join_def)

lemma errors_Join_Some_last [simp]: "errors_Join [a, Some e] \<noteq> None"
  by (cases a) (simp_all add: errors_Join_def)

lemma errors_Is_Join2:
  "errors_Is (ErrJoin [a, b]) (ErrSentinel s) \<longleftrightarrow>
     errors_Is a (ErrSentinel s) \<or> errors_Is b (ErrSentinel s)"
  by simp

section \<open>Integers read from bytes\<close>

lemma div_mod_unique_nat: "b < m \<Longrightarrow> (a * m + b) div m = a \<and> (a * m + b) mod m = (b :: nat)"
  by simp

lemma mod_offset: "m dvd k \<Longrightarrow> a < m \<Longrightarrow> (k + a) mod m = (a :: nat)"
  by (elim dvdE) simp

lemma mod_minus_offset: "m dvd k \<Longrightarrow> k \<le> n \<Longrightarrow> n < k + m \<Longrightarrow> n mod m = n - (k :: nat)"
  using mod_offset [of m k "n - k"] by simp

text \<open>
  \<^verbatim>\<open>binary.BigEndian\<close> and \<^verbatim>\<open>binary.LittleEndian\<close> on a slice of exactly the
  width read; every call of the source slices exactly that many bytes.
\<close>

definition be_word :: "bytes \<Rightarrow> 'a::len word" where
  "be_word bs = foldl (\<lambda>acc b. push_bit 8 acc OR ucast b) 0 bs"

definition le_word :: "bytes \<Rightarrow> 'a::len word" where
  "le_word bs = be_word (rev bs)"

text \<open>The number a big-endian byte string denotes, and the byte string of a number.\<close>

definition be_nat :: "bytes \<Rightarrow> nat" where
  "be_nat bs = foldl (\<lambda>acc b. acc * 256 + unat b) 0 bs"

primrec be_bytes :: "nat \<Rightarrow> nat \<Rightarrow> bytes" where
  "be_bytes 0 v = []"
| "be_bytes (Suc n) v = be_bytes n (v div 256) @ [byte_of_nat (v mod 256)]"

lemma be_nat_Nil [simp]: "be_nat [] = 0"
  by (simp add: be_nat_def)

lemma be_nat_snoc [simp]: "be_nat (bs @ [b]) = be_nat bs * 256 + unat b"
  by (simp add: be_nat_def)

lemma be_nat_less: "be_nat bs < 256 ^ length bs"
proof (induction bs rule: rev_induct)
  case Nil
  then show ?case by simp
next
  case (snoc b bs)
  have "unat b < 256" by simp
  with snoc have "be_nat bs * 256 + unat b < (be_nat bs + 1) * 256" by simp
  also have "\<dots> \<le> 256 ^ length bs * 256" using snoc by simp
  finally show ?case by simp
qed

lemma length_be_bytes [simp]: "length (be_bytes n v) = n"
  by (induction n arbitrary: v) simp_all

lemma be_nat_be_bytes: "be_nat (be_bytes n v) = v mod 256 ^ n"
proof (induction n arbitrary: v)
  case 0
  then show ?case by simp
next
  case (Suc n)
  have "be_nat (be_bytes (Suc n) v) = (v div 256 mod 256 ^ n) * 256 + v mod 256"
    by (simp add: Suc unat_of_nat)
  also have "\<dots> = v mod 256 ^ Suc n"
    by (simp add: mod_mult2_eq)
  finally show ?case .
qed

lemma be_nat_be_bytes_id [simp]: "v < 256 ^ n \<Longrightarrow> be_nat (be_bytes n v) = v"
  by (simp add: be_nat_be_bytes)

lemma be_bytes_be_nat: "be_bytes (length bs) (be_nat bs) = bs"
  by (induction bs rule: rev_induct) simp_all

lemma unat_push_bit_or:
  fixes w v :: "'a::len word"
  assumes "unat w * 2 ^ k + unat v < 2 ^ LENGTH('a)" and "unat v < 2 ^ k"
  shows "unat (push_bit k w OR v) = unat w * 2 ^ k + unat v"
proof -
  have p: "unat (push_bit k w) = unat w * 2 ^ k"
    using assms(1) by (simp only: unsigned_push_bit_eq) (simp add: push_bit_eq_mult take_bit_eq_mod)
  have "take_bit k (unat v) = unat v"
    using assms(2) by (simp add: take_bit_nat_eq_self_iff)
  then have "take_bit k v = v"
    by (metis unsigned_take_bit_eq unsigned_word_eqI)
  then have "\<not> bit v n" if "k \<le> n" for n
    using that by (metis bit_take_bit_iff not_less)
  then have "push_bit k w AND v = 0"
    by (intro bit_word_eqI) (auto simp: bit_simps)
  then have "push_bit k w OR v = push_bit k w + v"
    by (simp add: disjunctive_add_eq_or)
  with assms(1) p show ?thesis
    by (simp add: unat_word_ariths)
qed

lemma unat_ucast_byte:
  fixes b :: byte
  assumes "8 \<le> LENGTH('a::len)"
  shows "unat (ucast b :: 'a word) = unat b"
proof -
  have "unat b < 2 ^ 8" using unat_byte_less [of b] by simp
  also have "(2::nat) ^ 8 \<le> 2 ^ LENGTH('a)" using assms by (rule power_increasing) simp
  finally show ?thesis
    by (simp add: unsigned_ucast_eq take_bit_nat_eq_self_iff)
qed

lemma unat_be_word:
  assumes "8 * length bs \<le> LENGTH('a::len)"
  shows "unat (be_word bs :: 'a word) = be_nat bs"
  using assms
proof (induction bs rule: rev_induct)
  case Nil
  then show ?case by (simp add: be_word_def)
next
  case (snoc b bs)
  have IH: "unat (be_word bs :: 'a word) = be_nat bs"
    using snoc by simp
  have "be_nat (bs @ [b]) < 256 ^ length (bs @ [b])"
    by (rule be_nat_less)
  also have "(256::nat) ^ length (bs @ [b]) = 2 ^ (8 * length (bs @ [b]))"
    by (simp add: power_mult power_add)
  also have "\<dots> \<le> 2 ^ LENGTH('a)"
    using snoc.prems by (intro power_increasing) simp_all
  finally have less: "unat (be_word bs :: 'a word) * 256 + unat b < 2 ^ LENGTH('a)"
    by (simp add: IH)
  have "(be_word (bs @ [b]) :: 'a word) = push_bit 8 (be_word bs) OR ucast b"
    by (simp add: be_word_def)
  then show ?case
    using unat_push_bit_or [of "be_word bs :: 'a word" 8 "ucast b"] less snoc.prems IH
    by (simp add: unat_ucast_byte)
qed

text \<open>The bit tests on bytes that the text decoders make, as comparisons.\<close>

lemma unat_and_high:
  fixes b :: byte
  shows "unat (b AND NOT (mask k)) = unat b div 2 ^ k * 2 ^ k"
proof -
  have "b AND NOT (mask k) = push_bit k (drop_bit k b)"
    by (intro bit_word_eqI) (auto simp: bit_simps)
  moreover have "unat b div 2 ^ k * 2 ^ k \<le> unat b"
    by (rule div_times_less_eq_dividend)
  then have "unat b div 2 ^ k * 2 ^ k < 256"
    using unat_byte_less [of b] by (rule order_le_less_trans)
  ultimately show ?thesis
    by (simp only: unsigned_push_bit_eq unsigned_drop_bit_eq)
      (simp add: push_bit_eq_mult drop_bit_eq_div take_bit_eq_mod)
qed

lemma byte_high_mask: "0x80 = NOT (mask 7 :: byte)" "0xC0 = NOT (mask 6 :: byte)"
    "0xE0 = NOT (mask 5 :: byte)" "0xF0 = NOT (mask 4 :: byte)"
  by (simp_all add: mask_eq_exp_minus_1)

lemma byte_mask_tests:
  fixes b :: byte
  shows "b AND 0xE0 = 0xC0 \<longleftrightarrow> 0xC0 \<le> unat b \<and> unat b < 0xE0"
    and "b AND 0xF0 = 0xE0 \<longleftrightarrow> 0xE0 \<le> unat b \<and> unat b < 0xF0"
    and "b AND 0xC0 = 0x80 \<longleftrightarrow> 0x80 \<le> unat b \<and> unat b < 0xC0"
    and "b AND 0x80 = 0 \<longleftrightarrow> unat b < 0x80"
proof -
  have eq: "x = y \<longleftrightarrow> unat x = unat y" for x y :: byte
    by (simp add: word_unat_eq_iff)
  show "b AND 0xE0 = 0xC0 \<longleftrightarrow> 0xC0 \<le> unat b \<and> unat b < 0xE0"
    using unat_and_high [of b 5] by (auto simp: eq simp flip: byte_high_mask)
  show "b AND 0xF0 = 0xE0 \<longleftrightarrow> 0xE0 \<le> unat b \<and> unat b < 0xF0"
    using unat_and_high [of b 4] by (auto simp: eq simp flip: byte_high_mask)
  show "b AND 0xC0 = 0x80 \<longleftrightarrow> 0x80 \<le> unat b \<and> unat b < 0xC0"
    using unat_and_high [of b 6] by (auto simp: eq simp flip: byte_high_mask)
  show "b AND 0x80 = 0 \<longleftrightarrow> unat b < 0x80"
    using unat_and_high [of b 7] by (auto simp: eq simp flip: byte_high_mask)
qed

lemma unat_and_mask:
  fixes b :: byte
  shows "unat (b AND 0x0F) = unat b mod 16" "unat (b AND 0x1F) = unat b mod 32"
    "unat (b AND 0x3F) = unat b mod 64" "unat (b AND 0x7F) = unat b mod 128"
proof -
  have m: "unat (b AND mask n) = unat b mod 2 ^ n" for n
    by (simp only: unsigned_take_bit_eq take_bit_eq_mod [of n "unat b"] flip: take_bit_eq_mask)
  show "unat (b AND 0x0F) = unat b mod 16" using m [of 4] by (simp add: mask_eq_exp_minus_1)
  show "unat (b AND 0x1F) = unat b mod 32" using m [of 5] by (simp add: mask_eq_exp_minus_1)
  show "unat (b AND 0x3F) = unat b mod 64" using m [of 6] by (simp add: mask_eq_exp_minus_1)
  show "unat (b AND 0x7F) = unat b mod 128" using m [of 7] by (simp add: mask_eq_exp_minus_1)
qed

section \<open>Decimal and hexadecimal numerals\<close>

text \<open>\<^verbatim>\<open>strconv.Itoa\<close> and \<^verbatim>\<open>big.Int.Text(base)\<close>, on non-negative numbers first.\<close>

definition digit_char :: "nat \<Rightarrow> char" where
  "digit_char d = (if d < 10 then char_of (48 + d) else char_of (87 + d))"

fun show_base :: "nat \<Rightarrow> nat \<Rightarrow> string" where
  "show_base b n =
     (if b < 2 \<or> n < b then [digit_char n] else show_base b (n div b) @ [digit_char (n mod b)])"

declare show_base.simps [simp del]

definition itoa :: "int \<Rightarrow> string" where
  "itoa i = (if i < 0 then CHR ''-'' # show_base 10 (nat (- i)) else show_base 10 (nat i))"

section \<open>Interfaces shared by the components\<close>

text \<open>
  A content detector decides from the first bytes of a file. The scanner sniffs a prefix
  and rereads the whole file when the detector fires, so what a detector has accepted in a
  prefix it has to accept in every longer file.
\<close>

locale detector =
  fixes detect :: "bytes \<Rightarrow> bool"
  assumes detect_extend: "detect p \<Longrightarrow> detect (p @ s)"
begin

lemma detect_prefix: "prefix p d \<Longrightarrow> detect p \<Longrightarrow> detect d"
  by (auto simp: prefix_def detect_extend)

lemma detect_take: "detect (take n d) \<Longrightarrow> detect d"
  using detect_extend [of "take n d" "drop n d"] by simp

lemma not_detect_take: "\<not> detect d \<Longrightarrow> \<not> detect (take n d)"
  using detect_take by blast

end

end
