(* ===== verification/GoText.thy ===== *)
theory GoText
  imports GoLib
begin

unbundle bit_operations_syntax

text \<open>
  Unicode text: UTF-8 as Go's \<^verbatim>\<open>unicode/utf8\<close> and \<^verbatim>\<open>strings.ToValidUTF8\<close> define
  it, and the surrogate-pair loop that ends both \<^verbatim>\<open>decodeJavaModifiedUTF8\<close> (jks.go) and
  \<^verbatim>\<open>decodeUTF16BE\<close> (pkcs12.go). A \<^verbatim>\<open>rune\<close> is a \<open>nat\<close>, a UTF-16 code unit is
  \<open>16 word\<close>.
\<close>

section \<open>UTF-8\<close>

type_synonym rune = nat

text \<open>\<^verbatim>\<open>utf8.AppendRune\<close>: surrogates and out-of-range values become U+FFFD.\<close>

definition rune_error :: bytes where
  "rune_error = [0xEF, 0xBF, 0xBD]"

definition utf8_encode :: "rune \<Rightarrow> bytes" where
  "utf8_encode r =
     (if r < 0x80 then [byte_of_nat r]
      else if r < 0x800 then [byte_of_nat (0xC0 + r div 64), byte_of_nat (0x80 + r mod 64)]
      else if 0xD800 \<le> r \<and> r \<le> 0xDFFF \<or> 0x10FFFF < r then rune_error
      else if r < 0x10000 then
        [byte_of_nat (0xE0 + r div 4096), byte_of_nat (0x80 + r div 64 mod 64),
         byte_of_nat (0x80 + r mod 64)]
      else
        [byte_of_nat (0xF0 + r div 262144), byte_of_nat (0x80 + r div 4096 mod 64),
         byte_of_nat (0x80 + r div 64 mod 64), byte_of_nat (0x80 + r mod 64)])"

definition utf8_bytes :: "rune list \<Rightarrow> bytes" where
  "utf8_bytes rs = concat (map utf8_encode rs)"

text \<open>The conversion \<^verbatim>\<open>string(runes)\<close>.\<close>

definition string_of_runes :: "rune list \<Rightarrow> string" where
  "string_of_runes rs = string_of_bytes (utf8_bytes rs)"

text \<open>
  The length of the well-formed UTF-8 sequence a byte string starts with, 0 when it starts
  with none: the table of \<^verbatim>\<open>utf8.DecodeRune\<close>, which answers width 1 and U+FFFD there.
\<close>

definition utf8_between :: "nat \<Rightarrow> nat \<Rightarrow> bytes \<Rightarrow> bool" where
  "utf8_between lo hi bs = (case bs of [] \<Rightarrow> False | b # _ \<Rightarrow> lo \<le> unat b \<and> unat b \<le> hi)"

definition utf8_len :: "bytes \<Rightarrow> nat" where
  "utf8_len bs = (case bs of
     [] \<Rightarrow> 0
   | b # r \<Rightarrow>
      (let a = unat b; cont = utf8_between 0x80 0xBF in
       if a < 0x80 then 1
       else if a < 0xC2 then 0
       else if a \<le> 0xDF then (if cont r then 2 else 0)
       else if a \<le> 0xEF then
         (if utf8_between (if a = 0xE0 then 0xA0 else 0x80) (if a = 0xED then 0x9F else 0xBF) r
             \<and> cont (tl r) then 3 else 0)
       else if a \<le> 0xF4 then
         (if utf8_between (if a = 0xF0 then 0x90 else 0x80) (if a = 0xF4 then 0x8F else 0xBF) r
             \<and> cont (tl r) \<and> cont (tl (tl r)) then 4 else 0)
       else 0))"

lemma utf8_len_Nil [simp]: "utf8_len [] = 0"
  by (simp add: utf8_len_def)

lemma utf8_len_le: "utf8_len bs \<le> length bs"
  by (auto simp: utf8_len_def utf8_between_def Let_def split: list.splits)

text \<open>\<^verbatim>\<open>utf8.Valid\<close>.\<close>

function utf8_Valid :: "bytes \<Rightarrow> bool" where
  "utf8_Valid bs =
     (if bs = [] then True
      else if utf8_len bs = 0 then False
      else utf8_Valid (drop (utf8_len bs) bs))"
  by pat_completeness auto
termination
  by (relation "measure length") auto

declare utf8_Valid.simps [simp del]

lemma utf8_Valid_Nil [simp]: "utf8_Valid []"
  by (subst utf8_Valid.simps) simp

lemma utf8_Valid_step:
  "utf8_len bs \<noteq> 0 \<Longrightarrow> utf8_Valid bs = utf8_Valid (drop (utf8_len bs) bs)"
  by (subst utf8_Valid.simps) auto

text \<open>
  \<^verbatim>\<open>strings.ToValidUTF8\<close>: every run of bytes outside well-formed sequences is replaced
  by one copy of the replacement. The flag says that the previous byte was in such a run.
\<close>

function to_valid_utf8 :: "bytes \<Rightarrow> bool \<Rightarrow> bytes \<Rightarrow> bytes" where
  "to_valid_utf8 repl invalid bs =
     (if bs = [] then []
      else if utf8_len bs = 0 then
        (if invalid then [] else repl) @ to_valid_utf8 repl True (tl bs)
      else take (utf8_len bs) bs @ to_valid_utf8 repl False (drop (utf8_len bs) bs))"
  by pat_completeness auto
termination
  by (relation "measure (\<lambda>(repl, invalid, bs). length bs)") auto

declare to_valid_utf8.simps [simp del]

lemma utf8_len_Cons:
  "utf8_len (b # r) =
     (let a = unat b; cont = utf8_between 0x80 0xBF in
       if a < 0x80 then 1
       else if a < 0xC2 then 0
       else if a \<le> 0xDF then (if cont r then 2 else 0)
       else if a \<le> 0xEF then
         (if utf8_between (if a = 0xE0 then 0xA0 else 0x80) (if a = 0xED then 0x9F else 0xBF) r
             \<and> cont (tl r) then 3 else 0)
       else if a \<le> 0xF4 then
         (if utf8_between (if a = 0xF0 then 0x90 else 0x80) (if a = 0xF4 then 0x8F else 0xBF) r
             \<and> cont (tl r) \<and> cont (tl (tl r)) then 4 else 0)
       else 0)"
  by (simp add: utf8_len_def)

lemma utf8_between_simps [simp]:
  "utf8_between lo hi [] = False"
  "utf8_between lo hi (b # r) = (lo \<le> unat b \<and> unat b \<le> hi)"
  by (simp_all add: utf8_between_def)

lemma utf8_len_cases: "utf8_len bs \<in> {0, 1, 2, 3, 4}"
  by (simp add: utf8_len_def Let_def split: list.split)

lemma utf8_len_eq_1: "utf8_len (a # r) = Suc 0 \<longleftrightarrow> unat a < 0x80"
  by (simp add: utf8_len_Cons Let_def)

lemma utf8_len_eq_2:
  "utf8_len (a # r) = 2 \<longleftrightarrow> 0xC2 \<le> unat a \<and> unat a \<le> 0xDF \<and> utf8_between 0x80 0xBF r"
  by (simp add: utf8_len_Cons Let_def)

lemma utf8_len_eq_3:
  "utf8_len (a # r) = 3 \<longleftrightarrow> 0xE0 \<le> unat a \<and> unat a \<le> 0xEF \<and>
     utf8_between (if unat a = 0xE0 then 0xA0 else 0x80) (if unat a = 0xED then 0x9F else 0xBF) r \<and>
     utf8_between 0x80 0xBF (tl r)"
  by (simp add: utf8_len_Cons Let_def)

lemma utf8_len_eq_4:
  "utf8_len (a # r) = 4 \<longleftrightarrow> 0xF0 \<le> unat a \<and> unat a \<le> 0xF4 \<and>
     utf8_between (if unat a = 0xF0 then 0x90 else 0x80) (if unat a = 0xF4 then 0x8F else 0xBF) r \<and>
     utf8_between 0x80 0xBF (tl r) \<and> utf8_between 0x80 0xBF (tl (tl r))"
  by (simp add: utf8_len_Cons Let_def)

lemma utf8_between_ConsE:
  assumes "utf8_between lo hi xs"
  obtains y ys where "xs = y # ys"
  using assms by (cases xs) simp_all

lemma utf8_len_take_append:
  assumes "utf8_len bs \<noteq> 0"
  shows "utf8_len (take (utf8_len bs) bs @ cs) = utf8_len bs"
proof (cases bs)
  case Nil
  with assms show ?thesis by simp
next
  case (Cons a r)
  note bs = this
  consider "utf8_len bs = Suc 0" | "utf8_len bs = 2" | "utf8_len bs = 3" | "utf8_len bs = 4"
    using assms utf8_len_cases [of bs] by auto
  then show ?thesis
  proof cases
    case 1
    then show ?thesis
      unfolding bs using utf8_len_eq_1 [of a r] utf8_len_eq_1 [of a cs] by simp
  next
    case 2
    then obtain b r' where "r = b # r'"
      unfolding bs utf8_len_eq_2 by (blast elim: utf8_between_ConsE)
    with 2 bs have e: "utf8_len (a # b # r') = 2" and bs': "bs = a # b # r'" by simp_all
    show ?thesis
      unfolding bs' e using e [unfolded utf8_len_eq_2] by (simp add: utf8_len_eq_2)
  next
    case 3
    then obtain b c r' where "r = b # c # r'"
      unfolding bs utf8_len_eq_3 by (metis list.sel(3) utf8_between_ConsE)
    with 3 bs have e: "utf8_len (a # b # c # r') = 3" and bs': "bs = a # b # c # r'" by simp_all
    show ?thesis
      unfolding bs' e using e [unfolded utf8_len_eq_3] by (simp add: utf8_len_eq_3)
  next
    case 4
    then obtain b c d r' where "r = b # c # d # r'"
      unfolding bs utf8_len_eq_4 by (metis list.sel(3) utf8_between_ConsE)
    with 4 bs have e: "utf8_len (a # b # c # d # r') = 4" and bs': "bs = a # b # c # d # r'" by simp_all
    show ?thesis
      unfolding bs' e using e [unfolded utf8_len_eq_4] by (simp add: utf8_len_eq_4)
  qed
qed

lemma utf8_Valid_take_append:
  assumes "utf8_len bs \<noteq> 0"
  shows "utf8_Valid (take (utf8_len bs) bs @ cs) = utf8_Valid cs"
proof -
  have "utf8_len (take (utf8_len bs) bs @ cs) = utf8_len bs"
    using assms by (rule utf8_len_take_append)
  moreover have "length (take (utf8_len bs) bs) = utf8_len bs"
    using utf8_len_le [of bs] by simp
  ultimately show ?thesis
    using assms utf8_Valid_step [of "take (utf8_len bs) bs @ cs"] by simp
qed

lemma base64_digits:
  fixes r :: nat
  shows "64 * (r div 64) + r mod 64 = r" "64 * (r div 4096) + r div 64 mod 64 = r div 64"
    "64 * (r div 262144) + r div 4096 mod 64 = r div 4096"
    "r mod 64 < 64" "r div 64 mod 64 < 64" "r div 4096 mod 64 < 64"
  using mult_div_mod_eq [of 64 r] mult_div_mod_eq [of 64 "r div 64"]
    mult_div_mod_eq [of 64 "r div 4096"]
  by (simp_all add: div_mult2_eq [symmetric])

lemma utf8_len_3:
  assumes "a < 16" "b < 64" "c < 64" "a = 0 \<Longrightarrow> 32 \<le> b" "a = 13 \<Longrightarrow> b \<le> 31"
  shows "utf8_len (byte_of_nat (0xE0 + a) # byte_of_nat (0x80 + b) # byte_of_nat (0x80 + c) # cs) = 3"
  using assms unfolding utf8_len_eq_3 by simp

lemma utf8_len_4:
  assumes "a < 5" "b < 64" "c < 64" "d < 64" "a = 0 \<Longrightarrow> 16 \<le> b" "a = 4 \<Longrightarrow> b \<le> 15"
  shows "utf8_len (byte_of_nat (0xF0 + a) # byte_of_nat (0x80 + b) # byte_of_nat (0x80 + c)
    # byte_of_nat (0x80 + d) # cs) = 4"
  using assms unfolding utf8_len_eq_4 by simp

lemma utf8_len_encode_append: "utf8_len (utf8_encode r @ cs) = length (utf8_encode r)"
proof -
  have cont: "128 + x mod 64 < 256" "128 + x mod 64 \<le> 0xBF" for x :: nat
    using mod_less_divisor [of 64 x] by linarith+
  consider "r < 0x80" | "0x80 \<le> r" "r < 0x800"
    | "0xD800 \<le> r \<and> r \<le> 0xDFFF \<or> 0x10FFFF < r"
    | "0x800 \<le> r" "r < 0x10000" "\<not> (0xD800 \<le> r \<and> r \<le> 0xDFFF)"
    | "0x10000 \<le> r" "r \<le> 0x10FFFF"
    by linarith
  then show ?thesis
  proof cases
    case 1
    then show ?thesis
      by (simp add: utf8_encode_def utf8_len_Cons Let_def)
  next
    case 2
    then have "2 \<le> r div 64" "r div 64 < 32" by auto
    with 2 cont [of r] show ?thesis
      by (simp add: utf8_encode_def utf8_len_Cons Let_def)
  next
    case 3
    then have "utf8_encode r = rune_error"
      by (auto simp: utf8_encode_def)
    then show ?thesis
      by (simp add: rune_error_def utf8_len_Cons Let_def)
  next
    case 4
    have d: "r div 4096 < 16" using 4 by auto
    have e0: "r div 4096 = 0 \<Longrightarrow> 32 \<le> r div 64 mod 64" using 4 base64_digits [of r] by linarith
    have ed: "r div 4096 = 13 \<Longrightarrow> r div 64 mod 64 \<le> 31" using 4 base64_digits [of r] by linarith
    have "utf8_encode r =
        [byte_of_nat (0xE0 + r div 4096), byte_of_nat (0x80 + r div 64 mod 64),
         byte_of_nat (0x80 + r mod 64)]"
      using 4 by (auto simp: utf8_encode_def)
    then show ?thesis
      using utf8_len_3 [OF d _ _ e0 ed] by simp
  next
    case 5
    have d: "r div 262144 < 5" using 5 by auto
    have f0: "r div 262144 = 0 \<Longrightarrow> 16 \<le> r div 4096 mod 64" using 5 base64_digits [of r] by linarith
    have f4: "r div 262144 = 4 \<Longrightarrow> r div 4096 mod 64 \<le> 15" using 5 base64_digits [of r] by linarith
    have "utf8_encode r =
        [byte_of_nat (0xF0 + r div 262144), byte_of_nat (0x80 + r div 4096 mod 64),
         byte_of_nat (0x80 + r div 64 mod 64), byte_of_nat (0x80 + r mod 64)]"
      using 5 by (auto simp: utf8_encode_def)
    then show ?thesis
      using utf8_len_4 [OF d _ _ _ f0 f4] by simp
  qed
qed

lemma utf8_Valid_encode_append [simp]: "utf8_Valid (utf8_encode r @ cs) = utf8_Valid cs"
proof -
  have "utf8_encode r \<noteq> []" by (simp add: utf8_encode_def rune_error_def)
  then show ?thesis
    using utf8_Valid_step [of "utf8_encode r @ cs"] by (simp add: utf8_len_encode_append)
qed

lemma utf8_Valid_utf8_bytes [simp]: "utf8_Valid (utf8_bytes rs)"
  by (induction rs) (simp_all add: utf8_bytes_def)

lemma utf8_Valid_to_valid:
  assumes "\<And>cs. utf8_Valid (repl @ cs) = utf8_Valid cs"
  shows "utf8_Valid (to_valid_utf8 repl invalid bs)"
proof (induction "length bs" arbitrary: invalid bs rule: less_induct)
  case less
  show ?case
  proof (cases "bs = []"; cases "utf8_len bs = 0")
    assume "bs \<noteq> []" "utf8_len bs = 0"
    moreover from this have "utf8_Valid (to_valid_utf8 repl True (tl bs))"
      by (intro less) simp
    ultimately show ?thesis
      by (subst to_valid_utf8.simps) (simp add: assms)
  next
    assume "bs \<noteq> []" "utf8_len bs \<noteq> 0"
    note False = this
    then have "utf8_Valid (to_valid_utf8 repl False (drop (utf8_len bs) bs))"
      by (intro less) simp
    with False show ?thesis
      by (subst to_valid_utf8.simps) (simp add: utf8_Valid_take_append)
  qed (subst to_valid_utf8.simps, simp)+
qed

section \<open>Letter case\<close>

definition ascii_lower :: "char \<Rightarrow> char" where
  "ascii_lower c = (if CHR ''A'' \<le> c \<and> c \<le> CHR ''Z'' then char_of ((of_char c :: nat) + 32) else c)"

text \<open>
  \<^verbatim>\<open>strings.EqualFold(s, t)\<close> for a \<open>t\<close> of ASCII characters other than the letters
  \<^verbatim>\<open>k\<close> and \<^verbatim>\<open>s\<close>, the only ones that a non-ASCII rune folds to.
\<close>

definition strings_EqualFold :: "string \<Rightarrow> string \<Rightarrow> bool" where
  "strings_EqualFold s t \<longleftrightarrow> map ascii_lower s = map ascii_lower t"

section \<open>UTF-16\<close>

lemma map_sum_eq_Inr: "map_sum id f x = Inr y \<longleftrightarrow> (\<exists>z. x = Inr z \<and> y = f z)"
  by (cases x) auto

definition utf16_DecodeRune :: "16 word \<Rightarrow> 16 word \<Rightarrow> rune" where
  "utf16_DecodeRune r1 r2 = (unat r1 - 0xD800) * 1024 + (unat r2 - 0xDC00) + 0x10000"

text \<open>
  The loop over code units at the end of both decoders: \<open>index\<close> is the position of the
  first unit of the list, which the errors name.
\<close>

fun decodeCodeUnits :: "nat \<Rightarrow> 16 word list \<Rightarrow> rune list go_result" where
  "decodeCodeUnits index [] = Inr []"
| "decodeCodeUnits index (unit # units) =
     (if 0xD800 \<le> unit \<and> unit \<le> 0xDBFF then
        (case units of
           [] \<Rightarrow> Inl (Errorf ''unpaired high surrogate at code unit %d'' [AInt (int index)])
         | next # rest \<Rightarrow>
             if next < 0xDC00 \<or> 0xDFFF < next
             then Inl (Errorf ''unpaired high surrogate at code unit %d'' [AInt (int index)])
             else map_sum id (\<lambda>rs. utf16_DecodeRune unit next # rs)
                    (decodeCodeUnits (index + 2) rest))
      else if 0xDC00 \<le> unit \<and> unit \<le> 0xDFFF
      then Inl (Errorf ''unpaired low surrogate at code unit %d'' [AInt (int index)])
      else map_sum id (\<lambda>rs. unat unit # rs) (decodeCodeUnits (index + 1) units))"

text \<open>Scalar values, and their UTF-16 code units.\<close>

definition is_scalar :: "rune \<Rightarrow> bool" where
  "is_scalar r \<longleftrightarrow> r < 0xD800 \<or> 0xDFFF < r \<and> r \<le> 0x10FFFF"

definition unit_of_nat :: "nat \<Rightarrow> 16 word" where
  "unit_of_nat n = word_of_nat n"

definition utf16_units :: "rune \<Rightarrow> 16 word list" where
  "utf16_units r =
     (if r < 0x10000 then [unit_of_nat r]
      else [unit_of_nat (0xD800 + (r - 0x10000) div 1024),
            unit_of_nat (0xDC00 + (r - 0x10000) mod 1024)])"

definition utf16_encode :: "rune list \<Rightarrow> 16 word list" where
  "utf16_encode rs = concat (map utf16_units rs)"

lemma unat_unit_of_nat [simp]: "n < 65536 \<Longrightarrow> unat (unit_of_nat n) = n"
  by (simp add: unit_of_nat_def unat_of_nat)

lemma unit_of_nat_unat [simp]: "unit_of_nat (unat u) = u"
  by (simp add: unit_of_nat_def)

lemma unat_unit_less [simp]: "unat (u :: 16 word) < 65536"
  using unsigned_less [of u] by simp

lemma utf16_encode_simps [simp]:
  "utf16_encode [] = []" "utf16_encode (r # rs) = utf16_units r @ utf16_encode rs"
  by (simp_all add: utf16_encode_def)

lemma utf16_surrogates:
  assumes "0x10000 \<le> r" "r \<le> 0x10FFFF"
  shows "utf16_DecodeRune (unit_of_nat (0xD800 + (r - 0x10000) div 1024))
           (unit_of_nat (0xDC00 + (r - 0x10000) mod 1024)) = r"
    and "(r - 0x10000) div 1024 < 1024"
proof -
  show "(r - 0x10000) div 1024 < 1024" using assms by auto
  then show "utf16_DecodeRune (unit_of_nat (0xD800 + (r - 0x10000) div 1024))
      (unit_of_nat (0xDC00 + (r - 0x10000) mod 1024)) = r"
    using assms mod_less_divisor [of 1024 "r - 0x10000"]
    by (simp add: utf16_DecodeRune_def)
qed

lemma decode_utf16_units_append:
  assumes "is_scalar r"
  shows "decodeCodeUnits i (utf16_units r @ us) =
           map_sum id ((#) r) (decodeCodeUnits (i + length (utf16_units r)) us)"
proof (cases "r < 0x10000")
  case True
  with assms show ?thesis
    by (auto simp: utf16_units_def is_scalar_def word_le_nat_alt)
next
  case False
  with assms have r: "0x10000 \<le> r" "r \<le> 0x10FFFF"
    by (auto simp: is_scalar_def)
  have "(r - 0x10000) mod 1024 \<le> 1023"
    using mod_less_divisor [of 1024 "r - 0x10000"] by linarith
  with False show ?thesis
    using utf16_surrogates [OF r]
    by (simp add: utf16_units_def word_le_nat_alt word_less_nat_alt)
qed

theorem decodeCodeUnits_encode:
  "list_all is_scalar rs \<Longrightarrow> decodeCodeUnits i (utf16_encode rs) = Inr rs"
  by (induction rs arbitrary: i) (simp_all add: decode_utf16_units_append)

text \<open>The decoder accepts nothing but well-formed UTF-16, and yields scalar values only.\<close>

lemma utf16_units_DecodeRune:
  assumes "0xD800 \<le> u" "u \<le> 0xDBFF" "0xDC00 \<le> v" "v \<le> 0xDFFF"
  shows "utf16_units (utf16_DecodeRune u v) = [u, v]" and "is_scalar (utf16_DecodeRune u v)"
proof -
  define a where "a = unat u - 0xD800"
  define b where "b = unat v - 0xDC00"
  have ab: "a < 1024" "b < 1024" and uv: "unat u = 0xD800 + a" "unat v = 0xDC00 + b"
    using assms by (simp_all add: a_def b_def word_le_nat_alt)
  have d: "utf16_DecodeRune u v = a * 1024 + b + 0x10000"
    by (simp add: utf16_DecodeRune_def a_def b_def)
  have "[unit_of_nat (0xD800 + a), unit_of_nat (0xDC00 + b)] = [u, v]"
    by (simp add: uv [symmetric])
  with ab show "utf16_units (utf16_DecodeRune u v) = [u, v]"
    by (simp add: d utf16_units_def)
  show "is_scalar (utf16_DecodeRune u v)"
    using ab by (simp add: d is_scalar_def)
qed

theorem decodeCodeUnits_sound:
  "decodeCodeUnits i us = Inr rs \<Longrightarrow> us = utf16_encode rs \<and> list_all is_scalar rs"
proof (induction i us arbitrary: rs rule: decodeCodeUnits.induct)
  case (1 index)
  then show ?case by simp
next
  case (2 index unit units)
  consider (high) "0xD800 \<le> unit \<and> unit \<le> 0xDBFF"
    | (low) "\<not> (0xD800 \<le> unit \<and> unit \<le> 0xDBFF)" "0xDC00 \<le> unit \<and> unit \<le> 0xDFFF"
    | (bmp) "\<not> (0xD800 \<le> unit \<and> unit \<le> 0xDBFF)" "\<not> (0xDC00 \<le> unit \<and> unit \<le> 0xDFFF)"
    by blast
  then show ?case
  proof cases
    case high
    with "2.prems" obtain next' rest rs' where *: "units = next' # rest"
        "\<not> (next' < 0xDC00 \<or> 0xDFFF < next')" "decodeCodeUnits (index + 2) rest = Inr rs'"
        "rs = utf16_DecodeRune unit next' # rs'"
      by (cases units) (auto split: if_splits sum.splits simp: map_sum_eq_Inr)
    with high have "rest = utf16_encode rs' \<and> list_all is_scalar rs'"
      using "2.IH"(1) by blast
    with high * show ?thesis
      by (simp add: utf16_units_DecodeRune not_less)
  next
    case low
    with "2.prems" show ?thesis by simp
  next
    case bmp
    with "2.prems" obtain rs' where *: "decodeCodeUnits (index + 1) units = Inr rs'"
        "rs = unat unit # rs'"
      by (auto simp: map_sum_eq_Inr)
    with bmp have "units = utf16_encode rs' \<and> list_all is_scalar rs'"
      using "2.IH"(2) by blast
    moreover have "is_scalar (unat unit)" "utf16_units (unat unit) = [unit]"
      using bmp unat_unit_less [of unit]
      by (auto simp: utf16_units_def is_scalar_def word_le_nat_alt simp del: unat_unit_less)
    ultimately show ?thesis
      using * by simp
  qed
qed

end
