(* ===== verification/Types.thy ===== *)
theory Types
  imports GoText
begin

unbundle bit_operations_syntax

text \<open>
  The data types of the scanner package (scanner.go, verify.go) and of the parts of
  \<^verbatim>\<open>crypto/x509\<close> it reads. An X.509 certificate is the record of the fields the source
  reads from Go's \<^verbatim>\<open>x509.Certificate\<close>. What the standard library computes by parsing or
  by cryptography is collected in the record \<open>x509_lib\<close>, an argument of the definitions
  that call it. A \<^verbatim>\<open>time.Time\<close> is an \<open>int\<close>, nanoseconds on one time line.
\<close>

section \<open>crypto/x509\<close>

type_synonym oid = "nat list"
type_synonym go_time = int

datatype public_key = RSAKey "nat option" | ECDSAKey "string option" | OtherKey

datatype ext_key_usage =
    ExtKeyUsageAny | ExtKeyUsageServerAuth | ExtKeyUsageClientAuth | ExtKeyUsageCodeSigning
  | ExtKeyUsageEmailProtection | ExtKeyUsageIPSECEndSystem | ExtKeyUsageIPSECTunnel
  | ExtKeyUsageIPSECUser | ExtKeyUsageTimeStamping | ExtKeyUsageOCSPSigning
  | ExtKeyUsageMicrosoftServerGatedCrypto | ExtKeyUsageNetscapeServerGatedCrypto
  | ExtKeyUsageMicrosoftCommercialCodeSigning | ExtKeyUsageMicrosoftKernelCodeSigning
  | ExtKeyUsageOther int

text \<open>
  \<open>RSAKey None\<close> is a nil RSA key or modulus, \<open>ECDSAKey None\<close> an ECDSA key without
  curve parameters. Names, URIs and algorithm names are kept as the strings their
  \<^verbatim>\<open>String\<close> methods return; the unknown algorithms are \<open>None\<close>.
\<close>

record x509_cert =
  x_Raw :: bytes
  x_RawSubjectPublicKeyInfo :: bytes
  x_RawSubject :: bytes
  x_RawIssuer :: bytes
  x_Subject :: string
  x_Issuer :: string
  x_SerialNumber :: "int option"
  x_IsCA :: bool
  x_KeyUsage :: "64 word"
  x_ExtKeyUsage :: "ext_key_usage list"
  x_UnknownExtKeyUsage :: "oid list"
  x_Extensions :: "oid list"
  x_DNSNames :: "string list"
  x_IPAddresses :: "bytes list"
  x_EmailAddresses :: "string list"
  x_URIs :: "string list"
  x_PublicKeyAlgorithm :: "string option"
  x_PublicKey :: public_key
  x_SignatureAlgorithm :: "string option"
  x_NotBefore :: go_time
  x_NotAfter :: go_time

record pem_block =
  pem_Type :: string
  pem_Bytes :: bytes

record x509_lib =
  ParseCertificate :: "bytes \<Rightarrow> x509_cert go_result"
  ParseCertificates :: "bytes \<Rightarrow> x509_cert list go_result"
  pem_Decode :: "bytes \<Rightarrow> (pem_block \<times> bytes) option"
  sha1_Sum :: "bytes \<Rightarrow> bytes"
  sha256_Sum :: "bytes \<Rightarrow> bytes"
  CheckSignature :: "x509_cert \<Rightarrow> go_error option"
  IP_String :: "bytes \<Rightarrow> string"

section \<open>scanner.go: findings\<close>

text \<open>Go's struct \<^verbatim>\<open>KeystoreInfo\<close>.\<close>

record keystore_info =
  ks_Format :: string
  ks_Alias :: string
  ks_FriendlyName :: string
  ks_EntryType :: string
  ks_ChainIndex :: int
  ks_Truststore :: bool

record verification_chain_certificate =
  vc_Subject :: string
  vc_Issuer :: string
  vc_SHA256Fingerprint :: string
  vc_TrustAnchor :: bool

record verification_result =
  vr_Status :: string
  vr_Error :: string
  vr_Chains :: "verification_chain_certificate list list"

record certificate =
  cert_Path :: string
  cert_Index :: int
  cert_Subject :: string
  cert_Issuer :: string
  cert_SerialNumber :: string
  cert_IsCA :: bool
  cert_SelfSigned :: bool
  cert_SANs :: "string list"
  cert_KeyUsage :: "string list"
  cert_ExtendedKeyUsage :: "string list"
  cert_ExtendedKeyUsageUnrestricted :: bool
  cert_PublicKeyAlgorithm :: string
  cert_PublicKeyBits :: int
  cert_PublicKeyCurve :: string
  cert_SignatureAlgorithm :: string
  cert_SHA1Fingerprint :: string
  cert_SHA256Fingerprint :: string
  cert_SPKISHA256Fingerprint :: string
  cert_NotBefore :: go_time
  cert_NotAfter :: go_time
  cert_Keystore :: "keystore_info option"
  cert_Verification :: "verification_result option"
  cert_ArchiveEntries :: "string list"
  cert_dnsNames :: "string list"
  cert_ipAddresses :: "bytes list"
  cert_parsed :: "x509_cert option"

record pkcs12_encrypted_content =
  enc_Path :: string
  enc_ArchiveEntries :: "string list"
  enc_ContentIndex :: int
  enc_Algorithm :: string
  enc_AlgorithmOID :: string
  enc_BagCount :: "int option"

record file_error =
  fe_Path :: string
  fe_Err :: go_error

record outcome =
  oc_certificates :: "certificate list"
  oc_pkcs12Encrypted :: "pkcs12_encrypted_content list"
  oc_err :: "file_error option"
  oc_scanned :: bool
  oc_capped :: bool

text \<open>The zero value \<^verbatim>\<open>outcome{}\<close>.\<close>

definition empty_outcome :: outcome where
  "empty_outcome = \<lparr>oc_certificates = [], oc_pkcs12Encrypted = [], oc_err = None,
     oc_scanned = False, oc_capped = False\<rparr>"

text \<open>Go's constructor \<^verbatim>\<open>scanOutcome\<close>; the path of the error is filled in by the worker.\<close>

definition scanOutcome ::
  "certificate list \<Rightarrow> pkcs12_encrypted_content list \<Rightarrow> bool \<Rightarrow> go_error option \<Rightarrow> outcome" where
  "scanOutcome certificates pkcs12Encrypted capped err =
     \<lparr>oc_certificates = certificates, oc_pkcs12Encrypted = pkcs12Encrypted,
      oc_err = map_option (\<lambda>e. \<lparr>fe_Path = [], fe_Err = e\<rparr>) err,
      oc_scanned = False, oc_capped = capped\<rparr>"

lemma scanOutcome_simps [simp]:
  "oc_certificates (scanOutcome c p b e) = c"
  "oc_pkcs12Encrypted (scanOutcome c p b e) = p"
  "oc_capped (scanOutcome c p b e) = b"
  "oc_scanned (scanOutcome c p b e) = False"
  "oc_err (scanOutcome c p b e) = map_option (\<lambda>e. \<lparr>fe_Path = [], fe_Err = e\<rparr>) e"
  by (simp_all add: scanOutcome_def)

lemma empty_outcome_simps [simp]:
  "oc_certificates empty_outcome = []"
  "oc_pkcs12Encrypted empty_outcome = []"
  "oc_capped empty_outcome = False"
  "oc_scanned empty_outcome = False"
  "oc_err empty_outcome = None"
  by (simp_all add: empty_outcome_def)

section \<open>scanner.go: options\<close>

text \<open>
  Go's struct \<^verbatim>\<open>Options\<close> without its callbacks: a callback only observes the scan. \<open>int64\<close>
  and \<open>int\<close> fields are integers; the operations on them stay within 64 bits, which is
  shown where they are used.
\<close>

record options =
  opt_MaxBytes :: int
  opt_Workers :: int
  opt_Exclude :: "string list"
  opt_Extensions :: "string list"
  opt_OneFileSystem :: bool
  opt_FollowSymlinks :: bool
  opt_ScanArchives :: bool
  opt_ArchiveMaxBytes :: int
  opt_ArchiveMaxEntries :: int
  opt_ArchiveMaxDepth :: int
  opt_DiscardCertificates :: bool
  opt_DiscardPKCS12Encrypted :: bool

definition DefaultMaxBytes :: int where
  "DefaultMaxBytes = 65536"

definition DefaultArchiveMaxBytes :: int where
  "DefaultArchiveMaxBytes = 67108864"

definition DefaultArchiveMaxEntries :: int where
  "DefaultArchiveMaxEntries = 10000"

definition DefaultArchiveMaxDepth :: int where
  "DefaultArchiveMaxDepth = 3"

section \<open>Validity\<close>

text \<open>\<^verbatim>\<open>Certificate.ValidityStatus\<close> (scanner.go).\<close>

definition ValidityStatus :: "certificate \<Rightarrow> go_time \<Rightarrow> string" where
  "ValidityStatus c at =
     (if at < cert_NotBefore c then ''not-yet-valid''
      else if cert_NotAfter c < at then ''expired''
      else ''valid'')"

end
