(* ===== verification/Mutf8.thy ===== *)
theory Mutf8
  imports GoText
begin

unbundle bit_operations_syntax

text \<open>
  The modified UTF-8 decoder of the Java keystore parser (\<^verbatim>\<open>decodeJavaModifiedUTF8\<close>,
  jks.go), and its specification: it accepts exactly Java's encoding of a sequence of Unicode
  scalar values, and returns these values as a Go string.
\<close>

section \<open>Modified UTF-8\<close>

text \<open>
  The first loop of \<^verbatim>\<open>decodeJavaModifiedUTF8\<close>: the code units of the encoded bytes, or the
  first error. \<open>offset\<close> is the position of the first byte of the list.
\<close>

fun mutf8_units :: "nat \<Rightarrow> bytes \<Rightarrow> 16 word list go_result" where
  "mutf8_units offset [] = Inr []"
| "mutf8_units offset (first # rest) =
     (if 0x01 \<le> first \<and> first \<le> 0x7f then
        map_sum id ((#) (ucast first)) (mutf8_units (offset + 1) rest)
      else if first AND 0xe0 = 0xc0 then
        (case rest of
           b1 # rest' \<Rightarrow>
             if b1 AND 0xc0 \<noteq> 0x80
             then Inl (Errorf ''invalid two-byte sequence at offset %d'' [AInt (int offset)])
             else
               let value = push_bit 6 (ucast (first AND 0x1f)) OR ucast (b1 AND 0x3f) in
               if value \<noteq> 0 \<and> value < 0x80
               then Inl (Errorf ''overlong two-byte sequence at offset %d'' [AInt (int offset)])
               else if value = 0 \<and> (first \<noteq> 0xc0 \<or> b1 \<noteq> 0x80)
               then Inl (Errorf ''invalid NUL sequence at offset %d'' [AInt (int offset)])
               else map_sum id ((#) value) (mutf8_units (offset + 2) rest')
         | [] \<Rightarrow> Inl (Errorf ''invalid two-byte sequence at offset %d'' [AInt (int offset)]))
      else if first AND 0xf0 = 0xe0 then
        (case rest of
           b1 # b2 # rest' \<Rightarrow>
             if b1 AND 0xc0 \<noteq> 0x80 \<or> b2 AND 0xc0 \<noteq> 0x80
             then Inl (Errorf ''invalid three-byte sequence at offset %d'' [AInt (int offset)])
             else
               let value = push_bit 12 (ucast (first AND 0x0f)) OR push_bit 6 (ucast (b1 AND 0x3f))
                     OR ucast (b2 AND 0x3f) in
               if value < 0x800
               then Inl (Errorf ''overlong three-byte sequence at offset %d'' [AInt (int offset)])
               else map_sum id ((#) value) (mutf8_units (offset + 3) rest')
         | _ \<Rightarrow> Inl (Errorf ''invalid three-byte sequence at offset %d'' [AInt (int offset)]))
      else Inl (Errorf ''invalid leading byte 0x%02x at offset %d''
                  [AInt (uint first), AInt (int offset)]))"

definition decodeJavaModifiedUTF8 :: "bytes \<Rightarrow> string go_result" where
  "decodeJavaModifiedUTF8 encoded =
     (case mutf8_units 0 encoded of
        Inl e \<Rightarrow> Inl e
      | Inr codeUnits \<Rightarrow> map_sum id string_of_runes (decodeCodeUnits 0 codeUnits))"

section \<open>Modified UTF-8: what the decoder accepts\<close>

text \<open>Java's encoding of code units, the specification of the decoder.\<close>

definition mutf8_unit :: "16 word \<Rightarrow> bytes" where
  "mutf8_unit u =
     (let n = unat u in
      if 1 \<le> n \<and> n < 0x80 then [byte_of_nat n]
      else if n < 0x800 then [byte_of_nat (0xC0 + n div 64), byte_of_nat (0x80 + n mod 64)]
      else [byte_of_nat (0xE0 + n div 4096), byte_of_nat (0x80 + n div 64 mod 64),
            byte_of_nat (0x80 + n mod 64)])"

definition java_encode :: "rune list \<Rightarrow> bytes" where
  "java_encode rs = concat (map mutf8_unit (utf16_encode rs))"

lemma unat_two_byte:
  fixes b0 b1 :: byte
  shows "unat (push_bit 6 (ucast (b0 AND 0x1f)) OR ucast (b1 AND 0x3f) :: 16 word) =
           (unat b0 mod 32) * 64 + unat b1 mod 64"
proof -
  have "unat b0 mod 32 < 32" "unat b1 mod 64 < 64" by simp_all
  then show ?thesis
    by (subst unat_push_bit_or) (simp_all add: unat_ucast_byte unat_and_mask)
qed

lemma unat_three_byte:
  fixes b0 b1 b2 :: byte
  shows "unat (push_bit 12 (ucast (b0 AND 0x0f)) OR push_bit 6 (ucast (b1 AND 0x3f))
             OR ucast (b2 AND 0x3f) :: 16 word) =
           (unat b0 mod 16) * 4096 + (unat b1 mod 64) * 64 + unat b2 mod 64"
proof -
  have m: "unat b0 mod 16 < 16" "unat b1 mod 64 < 64" "unat b2 mod 64 < 64" by simp_all
  let ?hi = "push_bit 6 (ucast (b0 AND 0x0f)) OR ucast (b1 AND 0x3f) :: 16 word"
  have hi: "unat ?hi = (unat b0 mod 16) * 64 + unat b1 mod 64"
    using m by (subst unat_push_bit_or) (simp_all add: unat_ucast_byte unat_and_mask)
  have "push_bit 12 (ucast (b0 AND 0x0f)) OR push_bit 6 (ucast (b1 AND 0x3f)) OR ucast (b2 AND 0x3f)
      = (push_bit 6 ?hi OR ucast (b2 AND 0x3f) :: 16 word)"
    by (simp add: push_bit_or or.assoc)
  also have "unat \<dots> = unat ?hi * 64 + unat b2 mod 64"
    using m hi by (subst unat_push_bit_or) (simp_all add: unat_ucast_byte unat_and_mask)
  finally show ?thesis using hi by simp
qed

text \<open>The NUL test of the two-byte branch can never fire: the value is 0 for C0 80 only.\<close>

lemma two_byte_NUL:
  fixes first b1 :: byte
  assumes "first AND 0xe0 = 0xc0" and "b1 AND 0xc0 = 0x80"
    and "push_bit 6 (ucast (first AND 0x1f)) OR ucast (b1 AND 0x3f) = (0 :: 16 word)"
  shows "first = 0xc0" and "b1 = 0x80"
proof -
  have z: "(unat first mod 32) * 64 + unat b1 mod 64 = 0"
    using unat_two_byte [of first b1, unfolded assms(3)] by simp
  then have "unat first mod 32 = 0" "unat b1 mod 64 = 0" by simp_all
  moreover have "0xC0 \<le> unat first" "unat first < 0xE0" "0x80 \<le> unat b1" "unat b1 < 0xC0"
    using assms(1,2) by (simp_all only: byte_mask_tests)
  ultimately have "unat first = 0xC0" "unat b1 = 0x80"
    using mod_minus_offset [of 32 192 "unat first"] mod_minus_offset [of 64 128 "unat b1"] by simp_all
  then show "first = 0xc0" "b1 = 0x80" by (simp_all add: word_unat_eq_iff)
qed

lemma mutf8_unit_cases:
  obtains (one) "mutf8_unit u = [byte_of_nat (unat u)]" "1 \<le> unat u" "unat u < 0x80"
    | (two) "mutf8_unit u = [byte_of_nat (0xC0 + unat u div 64), byte_of_nat (0x80 + unat u mod 64)]"
      "unat u = 0 \<or> 0x80 \<le> unat u" "unat u < 0x800" "unat u div 64 < 32"
    | (three) "mutf8_unit u = [byte_of_nat (0xE0 + unat u div 4096),
        byte_of_nat (0x80 + unat u div 64 mod 64), byte_of_nat (0x80 + unat u mod 64)]"
      "0x800 \<le> unat u" "unat u div 4096 < 16"
proof -
  consider "1 \<le> unat u \<and> unat u < 0x80" | "\<not> (1 \<le> unat u \<and> unat u < 0x80)" "unat u < 0x800"
    | "0x800 \<le> unat u" by linarith
  then show thesis
  proof cases
    case 1
    then show ?thesis by (intro one) (auto simp: mutf8_unit_def Let_def)
  next
    case 2
    then show ?thesis by (intro two) (auto simp: mutf8_unit_def Let_def)
  next
    case 3
    moreover have "unat u div 4096 < 16"
      by (rule less_mult_imp_div_less) simp
    ultimately show ?thesis by (intro three) (auto simp: mutf8_unit_def Let_def)
  qed
qed

lemma mutf8_units_two_bytes:
  assumes range: "unat u = 0 \<or> 128 \<le> unat u" "unat u < 2048"
  shows "mutf8_units i (byte_of_nat (0xC0 + unat u div 64) # byte_of_nat (0x80 + unat u mod 64) # bs) =
    map_sum id ((#) u) (mutf8_units (i + 2) bs)"
proof -
  have "unat u mod 64 < 64" by simp
  define b0 b1 where b: "b0 = byte_of_nat (0xC0 + unat u div 64)" "b1 = byte_of_nat (0x80 + unat u mod 64)"
  have n: "unat b0 = 0xC0 + unat u div 64" "unat b1 = 0x80 + unat u mod 64"
    using range \<open>unat u mod 64 < 64\<close> by (simp_all add: b)
  have v: "push_bit 6 (ucast (b0 AND 0x1f)) OR ucast (b1 AND 0x3f) = u"
    by (rule word_unat_eq_iff [THEN iffD2], simp only: unat_two_byte n)
      (use range in \<open>simp add: mod_add_eq [symmetric]\<close>)
  have t: "b0 AND 0xE0 = 0xC0" "b1 AND 0xC0 = 0x80"
    unfolding byte_mask_tests n using range \<open>unat u mod 64 < 64\<close> by auto
  have nb: "\<not> (1 \<le> b0 \<and> b0 \<le> 0x7f)" by (simp add: word_le_nat_alt n)
  have "\<not> (u = 0 \<and> (b0 \<noteq> 0xC0 \<or> b1 \<noteq> 0x80))"
    using two_byte_NUL [OF t] v by blast
  moreover have "\<not> (u \<noteq> 0 \<and> u < 0x80)"
    using range by (auto simp: word_less_nat_alt word_unat_eq_iff)
  ultimately have "mutf8_units i (b0 # b1 # bs) = map_sum id ((#) u) (mutf8_units (i + 2) bs)"
    by (subst mutf8_units.simps(2))
      (simp only: nb t v list.case Let_def if_True if_False not_True_eq_False simp_thms)
  then show ?thesis by (simp add: b)
qed

lemma mutf8_units_three_bytes:
  assumes range: "2048 \<le> unat u" "unat u div 4096 < 16"
  shows "mutf8_units i (byte_of_nat (0xE0 + unat u div 4096) # byte_of_nat (0x80 + unat u div 64 mod 64) #
      byte_of_nat (0x80 + unat u mod 64) # bs) =
    map_sum id ((#) u) (mutf8_units (i + 3) bs)"
proof -
  have m: "unat u mod 64 < 64" "unat u div 64 mod 64 < 64" by simp_all
  define b0 b1 b2 where b: "b0 = byte_of_nat (0xE0 + unat u div 4096)"
    "b1 = byte_of_nat (0x80 + unat u div 64 mod 64)" "b2 = byte_of_nat (0x80 + unat u mod 64)"
  have n: "unat b0 = 0xE0 + unat u div 4096" "unat b1 = 0x80 + unat u div 64 mod 64"
    "unat b2 = 0x80 + unat u mod 64"
    using range m by (simp_all add: b)
  have "unat b0 mod 16 = unat u div 4096" "unat b1 mod 64 = unat u div 64 mod 64"
    "unat b2 mod 64 = unat u mod 64"
    using range m by (simp_all add: n mod_offset [of 16 224] mod_offset [of 64 128])
  then have v: "push_bit 12 (ucast (b0 AND 0x0f)) OR push_bit 6 (ucast (b1 AND 0x3f))
      OR ucast (b2 AND 0x3f) = u"
    by (intro word_unat_eq_iff [THEN iffD2], simp only: unat_three_byte)
      (use base64_digits [of "unat u"] in linarith)
  have t: "b0 AND 0xF0 = 0xE0" "b0 AND 0xE0 \<noteq> 0xC0" "b1 AND 0xC0 = 0x80" "b2 AND 0xC0 = 0x80"
    unfolding byte_mask_tests n using range m by auto
  have nb: "\<not> (1 \<le> b0 \<and> b0 \<le> 0x7f)" by (simp add: word_le_nat_alt n)
  have "\<not> u < 0x800" using range by (simp add: word_less_nat_alt)
  then have "mutf8_units i (b0 # b1 # b2 # bs) = map_sum id ((#) u) (mutf8_units (i + 3) bs)"
    by (subst mutf8_units.simps(2))
      (simp only: nb t v list.case Let_def if_True if_False not_True_eq_False simp_thms)
  then show ?thesis by (simp add: b)
qed

lemma mutf8_units_append:
  "mutf8_units i (mutf8_unit u @ bs) = map_sum id ((#) u) (mutf8_units (i + length (mutf8_unit u)) bs)"
proof (cases u rule: mutf8_unit_cases)
  case one
  have "ucast (byte_of_nat (unat u)) = u"
    using one by (simp add: word_unat_eq_iff unat_ucast_byte)
  with one show ?thesis by (simp add: word_le_nat_alt)
next
  case two
  with mutf8_units_two_bytes [of u i bs] show ?thesis by auto
next
  case three
  with mutf8_units_three_bytes [of u i bs] show ?thesis by (simp add: numeral_3_eq_3)
qed

lemma mutf8_units_encode: "mutf8_units i (concat (map mutf8_unit us)) = Inr us"
  by (induction us arbitrary: i) (simp_all add: mutf8_units_append)


text \<open>Conversely, whatever it accepts is the encoding of its result.\<close>

lemma mutf8_two_byte_value:
  assumes "first AND 0xe0 = 0xc0" and "b1 AND 0xc0 = 0x80"
    and v: "value = push_bit 6 (ucast (first AND 0x1f)) OR ucast (b1 AND 0x3f)"
    and "\<not> (value \<noteq> 0 \<and> value < 0x80)"
  shows "mutf8_unit value = [first, b1]"
proof -
  have r: "0xC0 \<le> unat first" "unat first < 0xE0" "0x80 \<le> unat b1" "unat b1 < 0xC0"
    using assms(1,2) by (simp_all only: byte_mask_tests)
  have n: "unat value = (unat first mod 32) * 64 + unat b1 mod 64"
    unfolding v by (rule unat_two_byte)
  have m: "unat first mod 32 = unat first - 0xC0" "unat b1 mod 64 = unat b1 - 0x80"
    using r by (simp_all add: mod_minus_offset [of 32 192] mod_minus_offset [of 64 128])
  have "unat value = 0 \<or> 0x80 \<le> unat value"
    using assms(4) by (auto simp: word_less_nat_alt word_unat_eq_iff)
  moreover have "unat value < 0x800" using n m r by simp
  moreover have "unat b1 - 0x80 < 64" using r by simp
  then have "unat value div 64 = unat first - 0xC0" "unat value mod 64 = unat b1 - 0x80"
    unfolding n m by (simp_all only: div_mod_unique_nat)
  ultimately show ?thesis
    using r by (auto simp: mutf8_unit_def Let_def)
qed

lemma mutf8_three_byte_value:
  assumes "first AND 0xf0 = 0xe0" and "b1 AND 0xc0 = 0x80" and "b2 AND 0xc0 = 0x80"
    and v: "value = push_bit 12 (ucast (first AND 0x0f)) OR push_bit 6 (ucast (b1 AND 0x3f))
      OR ucast (b2 AND 0x3f)"
    and "\<not> value < 0x800"
  shows "mutf8_unit value = [first, b1, b2]"
proof -
  have r: "0xE0 \<le> unat first" "unat first < 0xF0" "0x80 \<le> unat b1" "unat b1 < 0xC0"
    "0x80 \<le> unat b2" "unat b2 < 0xC0"
    using assms(1-3) by (simp_all only: byte_mask_tests)
  have n: "unat value = (unat first mod 16) * 4096 + (unat b1 mod 64) * 64 + unat b2 mod 64"
    unfolding v by (rule unat_three_byte)
  have m: "unat first mod 16 = unat first - 0xE0" "unat b1 mod 64 = unat b1 - 0x80"
    "unat b2 mod 64 = unat b2 - 0x80"
    using r by (simp_all add: mod_minus_offset [of 16 224] mod_minus_offset [of 64 128])
  have big: "0x800 \<le> unat value" using assms(5) by (simp add: word_less_nat_alt)
  have v64: "unat value = ((unat first - 0xE0) * 64 + (unat b1 - 0x80)) * 64 + (unat b2 - 0x80)"
    using n m by simp
  have "unat b2 - 0x80 < 64" "unat b1 - 0x80 < 64" using r by simp_all
  then have d: "unat value div 64 = (unat first - 0xE0) * 64 + (unat b1 - 0x80)"
    "unat value mod 64 = unat b2 - 0x80"
    unfolding v64 by (simp_all only: div_mod_unique_nat)
  have "unat value div 4096 = unat value div 64 div 64"
    by (simp add: div_mult2_eq [symmetric])
  also have "\<dots> = unat first - 0xE0" using d \<open>unat b1 - 0x80 < 64\<close> by simp
  finally have "unat value div 4096 = unat first - 0xE0" .
  moreover have "unat value div 64 mod 64 = unat b1 - 0x80"
    using d \<open>unat b1 - 0x80 < 64\<close> by simp
  ultimately show ?thesis
    using r d big by (simp add: mutf8_unit_def Let_def)
qed

lemma mutf8_one_byte_value:
  assumes "0x01 \<le> first" "first \<le> (0x7f :: byte)"
  shows "mutf8_unit (ucast first) = [first]"
  using assms by (simp add: mutf8_unit_def Let_def unat_ucast_byte word_le_nat_alt)

text \<open>What an accepted string with a two-byte or three-byte lead looks like.\<close>

lemma mutf8_units_two_inv:
  assumes lead: "\<not> (0x01 \<le> first \<and> first \<le> 0x7f)" "first AND 0xe0 = 0xc0"
    and units: "mutf8_units i (first # rest) = Inr us"
    and w: "w = (\<lambda>b1. push_bit 6 (ucast (first AND 0x1f)) OR ucast (b1 AND 0x3f))"
  obtains b1 rest' us' where "rest = b1 # rest'" "b1 AND 0xc0 = 0x80" "\<not> (w b1 \<noteq> 0 \<and> w b1 < 0x80)"
    "\<not> (w b1 = 0 \<and> (first \<noteq> 0xc0 \<or> b1 \<noteq> 0x80))" "mutf8_units (i + 2) rest' = Inr us'" "us = w b1 # us'"
  using lead units unfolding w
  by (cases rest) (simp_all only: mutf8_units.simps list.case Let_def if_False if_True
      sum.distinct map_sum_eq_Inr simp_thms split: if_splits, blast)

lemma mutf8_units_three_inv:
  assumes lead: "\<not> (0x01 \<le> first \<and> first \<le> 0x7f)" "first AND 0xe0 \<noteq> 0xc0" "first AND 0xf0 = 0xe0"
    and units: "mutf8_units i (first # rest) = Inr us"
    and w: "w = (\<lambda>b1 b2. push_bit 12 (ucast (first AND 0x0f)) OR push_bit 6 (ucast (b1 AND 0x3f))
      OR ucast (b2 AND 0x3f))"
  obtains b1 b2 rest' us' where "rest = b1 # b2 # rest'" "b1 AND 0xc0 = 0x80" "b2 AND 0xc0 = 0x80"
    "\<not> w b1 b2 < 0x800" "mutf8_units (i + 3) rest' = Inr us'" "us = w b1 b2 # us'"
  using lead units unfolding w
  by (cases rest; cases "tl rest") (simp_all only: mutf8_units.simps list.case list.sel Let_def
      if_False if_True sum.distinct map_sum_eq_Inr simp_thms de_Morgan_disj not_not
      split: if_splits, blast)

lemma mutf8_units_sound: "mutf8_units i bs = Inr us \<Longrightarrow> bs = concat (map mutf8_unit us)"
proof (induction i bs arbitrary: us rule: mutf8_units.induct)
  case (1 i)
  then show ?case by simp
next
  case (2 i first rest)
  consider (one) "0x01 \<le> first \<and> first \<le> 0x7f"
    | (two) "\<not> (0x01 \<le> first \<and> first \<le> 0x7f)" "first AND 0xe0 = 0xc0"
    | (three) "\<not> (0x01 \<le> first \<and> first \<le> 0x7f)" "first AND 0xe0 \<noteq> 0xc0" "first AND 0xf0 = 0xe0"
    | (bad) "\<not> (0x01 \<le> first \<and> first \<le> 0x7f)" "first AND 0xe0 \<noteq> 0xc0" "first AND 0xf0 \<noteq> 0xe0"
    by blast
  then show ?case
  proof cases
    case one
    with "2.prems" obtain us' where "mutf8_units (i + 1) rest = Inr us'" "us = ucast first # us'"
      by (auto simp: map_sum_eq_Inr)
    with "2.IH"(1) one show ?thesis by (simp add: mutf8_one_byte_value)
  next
    case two
    define w :: "byte \<Rightarrow> 16 word" where
      "w = (\<lambda>b1. push_bit 6 (ucast (first AND 0x1f)) OR ucast (b1 AND 0x3f))"
    from mutf8_units_two_inv [OF two "2.prems" w_def] obtain b1 rest' us' where
      *: "rest = b1 # rest'" "b1 AND 0xc0 = 0x80" "\<not> (w b1 \<noteq> 0 \<and> w b1 < 0x80)"
      "\<not> (w b1 = 0 \<and> (first \<noteq> 0xc0 \<or> b1 \<noteq> 0x80))" "mutf8_units (i + 2) rest' = Inr us'" "us = w b1 # us'" .
    then have "rest' = concat (map mutf8_unit us')"
      using "2.IH"(2) two by (simp add: w_def)
    with * two show ?thesis
      by (simp add: mutf8_two_byte_value [OF _ _ fun_cong [OF w_def]])
  next
    case three
    define w :: "byte \<Rightarrow> byte \<Rightarrow> 16 word" where
      "w = (\<lambda>b1 b2. push_bit 12 (ucast (first AND 0x0f)) OR push_bit 6 (ucast (b1 AND 0x3f))
          OR ucast (b2 AND 0x3f))"
    from mutf8_units_three_inv [OF three "2.prems" w_def] obtain b1 b2 rest' us' where
      *: "rest = b1 # b2 # rest'" "b1 AND 0xc0 = 0x80" "b2 AND 0xc0 = 0x80" "\<not> w b1 b2 < 0x800"
      "mutf8_units (i + 3) rest' = Inr us'" "us = w b1 b2 # us'" .
    then have "rest' = concat (map mutf8_unit us')"
      using "2.IH"(3) three by (simp add: w_def)
    with * three show ?thesis
      by (simp add: mutf8_three_byte_value [OF _ _ _ fun_cong [OF fun_cong [OF w_def]]])
  next
    case bad
    with "2.prems" show ?thesis by simp
  qed
qed

text \<open>
  C18: the modified UTF-8 decoder accepts exactly Java's encoding of a sequence of Unicode scalar
  values, and returns that sequence as a Go string: overlong forms, stray or truncated
  sequences and unpaired surrogates are all rejected, and nothing else is.
\<close>

theorem decodeJavaModifiedUTF8_iff:
  "decodeJavaModifiedUTF8 bs = Inr s \<longleftrightarrow>
     (\<exists>rs. list_all is_scalar rs \<and> bs = java_encode rs \<and> s = string_of_runes rs)"
proof
  assume "decodeJavaModifiedUTF8 bs = Inr s"
  then obtain us rs where "mutf8_units 0 bs = Inr us" "decodeCodeUnits 0 us = Inr rs"
      "s = string_of_runes rs"
    by (auto simp: decodeJavaModifiedUTF8_def map_sum_eq_Inr split: sum.splits)
  then show "\<exists>rs. list_all is_scalar rs \<and> bs = java_encode rs \<and> s = string_of_runes rs"
    using mutf8_units_sound [of 0 bs us] decodeCodeUnits_sound [of 0 us rs]
    by (intro exI [of _ rs]) (simp add: java_encode_def)
next
  assume "\<exists>rs. list_all is_scalar rs \<and> bs = java_encode rs \<and> s = string_of_runes rs"
  then show "decodeJavaModifiedUTF8 bs = Inr s"
    by (auto simp: decodeJavaModifiedUTF8_def java_encode_def mutf8_units_encode
        decodeCodeUnits_encode)
qed

lemma decodeJavaModifiedUTF8_encode:
  "list_all is_scalar rs \<Longrightarrow> decodeJavaModifiedUTF8 (java_encode rs) = Inr (string_of_runes rs)"
  by (simp add: decodeJavaModifiedUTF8_def java_encode_def mutf8_units_encode decodeCodeUnits_encode)

lemma decodeJavaModifiedUTF8_valid:
  "decodeJavaModifiedUTF8 bs = Inr s \<Longrightarrow> utf8_Valid (bytes_of_string s)"
  by (auto simp: decodeJavaModifiedUTF8_def map_sum_eq_Inr string_of_runes_def split: sum.splits)

end
