(* ===== verification/Samples.thy ===== *)
theory Samples
  imports Types
begin

text \<open>
  One concrete instance of the parameters, on which the witnesses evaluate the properties: a
  library that takes any non-empty byte string for a certificate.
\<close>

definition sample_cert :: "bytes \<Rightarrow> x509_cert" where
  "sample_cert der = \<lparr>x_Raw = der, x_RawSubjectPublicKeyInfo = der, x_RawSubject = der,
     x_RawIssuer = der, x_Subject = ''CN=a'', x_Issuer = ''CN=a'', x_SerialNumber = Some 1,
     x_IsCA = False, x_KeyUsage = 1, x_ExtKeyUsage = [ExtKeyUsageServerAuth],
     x_UnknownExtKeyUsage = [], x_Extensions = [], x_DNSNames = [''a.example''],
     x_IPAddresses = [], x_EmailAddresses = [], x_URIs = [], x_PublicKeyAlgorithm = Some ''RSA'',
     x_PublicKey = RSAKey (Some 2048), x_SignatureAlgorithm = Some ''SHA256-RSA'',
     x_NotBefore = 0, x_NotAfter = 1000\<rparr>"

definition sample_ParseCertificate :: "bytes \<Rightarrow> x509_cert go_result" where
  "sample_ParseCertificate der =
     (if der = [] then Inl (ErrNew ''x509: malformed certificate'') else Inr (sample_cert der))"

definition sample_lib :: x509_lib where
  "sample_lib = \<lparr>ParseCertificate = sample_ParseCertificate,
     ParseCertificates = (\<lambda>der. map_sum id (\<lambda>c. [c]) (sample_ParseCertificate der)),
     pem_Decode = (\<lambda>_. None), sha1_Sum = take 20, sha256_Sum = take 32,
     CheckSignature = (\<lambda>_. None), IP_String = string_of_bytes\<rparr>"

lemma sample_lib_simps [simp]:
  "ParseCertificate sample_lib = sample_ParseCertificate"
  "pem_Decode sample_lib = (\<lambda>_. None)"
  by (simp_all add: sample_lib_def)

text \<open>A decoder of blocks that end at a newline: the bytes behind the 27 of the begin marker.\<close>

definition sample_pem_Decode :: "bytes \<Rightarrow> (pem_block \<times> bytes) option" where
  "sample_pem_Decode data =
     (if length data \<le> 27 then None
      else Some (\<lparr>pem_Type = ''CERTIFICATE'', pem_Bytes = takeWhile (\<lambda>b. b \<noteq> 10) (drop 27 data)\<rparr>,
                 tl (dropWhile (\<lambda>b. b \<noteq> 10) (drop 27 data))))"

definition sample_pem_lib :: x509_lib where
  "sample_pem_lib = sample_lib\<lparr>pem_Decode := sample_pem_Decode\<rparr>"

end
