(* ===== verification/Jks.thy ===== *)
theory Jks
  imports Types Mutf8 Samples
begin

unbundle bit_operations_syntax

text \<open>
  Java keystores (jks.go): the bounded reader and the parser of JKS and JCEKS stores. A method of \<^verbatim>\<open>javaKeystoreReader\<close> is a function from the reader
  to its results and the reader it leaves.
\<close>

section \<open>Constants\<close>

definition jksMagic :: "32 word" where "jksMagic = 0xfeedfeed"
definition jceksMagic :: "32 word" where "jceksMagic = 0xcececece"
definition javaKeystoreMACSize :: nat where "javaKeystoreMACSize = 20"
definition keystoreTagPrivateKey :: "32 word" where "keystoreTagPrivateKey = 1"
definition keystoreTagTrusted :: "32 word" where "keystoreTagTrusted = 2"
definition keystoreTagSecretKey :: "32 word" where "keystoreTagSecretKey = 3"
definition javaKeystoreCertificateType :: string where "javaKeystoreCertificateType = ''X.509''"
definition minimumJavaKeystoreFileBytes :: nat where
  "minimumJavaKeystoreFileBytes = 12 + javaKeystoreMACSize"

section \<open>Detection\<close>

text \<open>\<^verbatim>\<open>detectJavaKeystore\<close>: \<open>None\<close> is the result \<^verbatim>\<open>("", false)\<close>.\<close>

definition detectJavaKeystore :: "bytes \<Rightarrow> string option" where
  "detectJavaKeystore data =
     (if length data < 4 then None
      else let magic = be_word (take 4 data) in
        if magic = jksMagic then Some ''JKS''
        else if magic = jceksMagic then Some ''JCEKS''
        else None)"

section \<open>The reader\<close>

record jreader =
  jr_data :: bytes
  jr_offset :: nat

definition reader_remaining :: "jreader \<Rightarrow> int" where
  "reader_remaining r = int (length (jr_data r)) - int (jr_offset r)"

definition reader_take :: "int \<Rightarrow> jreader \<Rightarrow> bytes go_result \<times> jreader" where
  "reader_take n r =
     (if n < 0 \<or> reader_remaining r < n then (Inl io_ErrUnexpectedEOF, r)
      else (Inr (take (nat n) (drop (jr_offset r) (jr_data r))),
            r\<lparr>jr_offset := jr_offset r + nat n\<rparr>))"

text \<open>
  The idiom \<^verbatim>\<open>x, err := op(); if err != nil { return ..., err }\<close>: the next step runs on
  the value and the reader, an error ends the function there.
\<close>

definition rd_bind ::
  "('r \<Rightarrow> 'a go_result \<times> 'r) \<Rightarrow> ('a \<Rightarrow> 'r \<Rightarrow> 'b go_result \<times> 'r) \<Rightarrow> 'r \<Rightarrow> 'b go_result \<times> 'r" where
  "rd_bind m f r = (case m r of (Inl e, r') \<Rightarrow> (Inl e, r') | (Inr x, r') \<Rightarrow> f x r')"

definition reader_uint32 :: "jreader \<Rightarrow> 32 word go_result \<times> jreader" where
  "reader_uint32 = rd_bind (reader_take 4) (\<lambda>data r. (Inr (be_word data), r))"

definition reader_lengthPrefixedUint16 :: "jreader \<Rightarrow> bytes go_result \<times> jreader" where
  "reader_lengthPrefixedUint16 =
     rd_bind (reader_take 2)
       (\<lambda>lengthData. reader_take (int (unat (be_word lengthData :: 16 word))))"

definition reader_takeUint32 :: "32 word \<Rightarrow> jreader \<Rightarrow> bytes go_result \<times> jreader" where
  "reader_takeUint32 n r =
     (if reader_remaining r < uint n then (Inl io_ErrUnexpectedEOF, r)
      else reader_take (uint n) r)"

definition reader_skipUint32 :: "32 word \<Rightarrow> jreader \<Rightarrow> unit go_result \<times> jreader" where
  "reader_skipUint32 n = rd_bind (reader_takeUint32 n) (\<lambda>_ r. (Inr (), r))"

definition reader_skip :: "int \<Rightarrow> jreader \<Rightarrow> unit go_result \<times> jreader" where
  "reader_skip n = rd_bind (reader_take n) (\<lambda>_ r. (Inr (), r))"

section \<open>Certificates of a store\<close>

record java_keystore_certificate =
  jc_certificate :: "x509_cert option"
  jc_keystore :: keystore_info

text \<open>
  \<^verbatim>\<open>reader.certificate\<close> returns a pointer and an error. A nil pointer (the reader is lost
  in the structure) is \<open>None\<close>; a certificate that was read but not parsed is \<open>Some\<close> of
  an entry without certificate, together with an error.
\<close>

definition reader_certificateType :: "32 word \<Rightarrow> jreader \<Rightarrow> string go_result \<times> jreader" where
  "reader_certificateType version r =
     (if version = 2 then
        (case reader_lengthPrefixedUint16 r of
           (Inl e, r1) \<Rightarrow> (Inl (Wrapf ''certificate type: %w'' [] e), r1)
         | (Inr encodedType, r1) \<Rightarrow>
             (map_sum (Wrapf ''certificate type: %w'' []) id (decodeJavaModifiedUTF8 encodedType), r1))
      else (Inr javaKeystoreCertificateType, r))"

definition reader_certificate ::
  "x509_lib \<Rightarrow> 32 word \<Rightarrow> keystore_info \<Rightarrow> jreader \<Rightarrow>
     (java_keystore_certificate option \<times> go_error option) \<times> jreader" where
  "reader_certificate lib version keystore r =
     (case reader_certificateType version r of
        (Inl e, r1) \<Rightarrow> ((None, Some e), r1)
      | (Inr certificateType, r1) \<Rightarrow>
         (case reader_uint32 r1 of
            (Inl e, r2) \<Rightarrow> ((None, Some (Wrapf ''DER length: %w'' [] e)), r2)
          | (Inr derLength, r2) \<Rightarrow>
             (case reader_takeUint32 derLength r2 of
                (Inl e, r3) \<Rightarrow> ((None, Some (Wrapf ''DER: %w'' [] e)), r3)
              | (Inr der, r3) \<Rightarrow>
                 let unparsed = \<lparr>jc_certificate = None, jc_keystore = keystore\<rparr> in
                 if \<not> strings_EqualFold certificateType javaKeystoreCertificateType then
                   ((Some unparsed,
                     Some (Errorf ''unsupported certificate type %q'' [AStr certificateType])), r3)
                 else
                   (case ParseCertificate lib der of
                      Inl e \<Rightarrow> ((Some unparsed, Some (Wrapf ''parse X.509 DER: %w'' [] e)), r3)
                    | Inr parsed \<Rightarrow>
                        ((Some \<lparr>jc_certificate = Some parsed, jc_keystore = keystore\<rparr>, None), r3)))))"

section \<open>The parser\<close>

text \<open>
  What the loops of \<^verbatim>\<open>parseJavaKeystore\<close> accumulate, beside the reader. The result of a
  loop is \<open>Some e\<close> when it leaves the function early with the error \<open>e\<close> joined to
  the errors collected so far.
\<close>

record jks_state =
  js_certificates :: "java_keystore_certificate list"
  js_parseErrors :: "go_error list"
  js_privateKeyEntries :: nat
  js_trustedEntries :: nat

type_synonym jks_step = "(go_error option \<times> jks_state) \<times> jreader"

text \<open>What the code does with the two results of \<^verbatim>\<open>reader.certificate\<close>.\<close>

definition jks_addCertificate ::
  "(go_error \<Rightarrow> go_error) \<Rightarrow> (java_keystore_certificate option \<times> go_error option) \<Rightarrow>
     jks_state \<Rightarrow> go_error option \<times> jks_state" where
  "jks_addCertificate wrap result st =
     (let (certificate, certificateErr) = result;
          st1 = (case certificateErr of None \<Rightarrow> st
                 | Some e \<Rightarrow> st\<lparr>js_parseErrors := js_parseErrors st @ [wrap e]\<rparr>)
      in case (certificate, certificateErr) of
           (None, Some e) \<Rightarrow> (Some (wrap e), st)
         | (None, None) \<Rightarrow> (None, st1)
         | (Some c, _) \<Rightarrow>
             (None, if jc_certificate c \<noteq> None
                    then st1\<lparr>js_certificates := js_certificates st1 @ [c]\<rparr> else st1))"

text \<open>The loop over the certificate chain of a private-key entry.\<close>

fun jks_chain ::
  "x509_lib \<Rightarrow> 32 word \<Rightarrow> string \<Rightarrow> string \<Rightarrow> nat \<Rightarrow> nat \<Rightarrow> nat \<Rightarrow> jks_state \<Rightarrow> jreader \<Rightarrow> jks_step" where
  "jks_chain lib version format alias entryIndex chainIndex 0 st r = ((None, st), r)"
| "jks_chain lib version format alias entryIndex chainIndex (Suc n) st r =
     (case reader_certificate lib version
             \<lparr>ks_Format = format, ks_Alias = alias, ks_FriendlyName = [],
              ks_EntryType = ''PrivateKeyEntry'', ks_ChainIndex = int chainIndex,
              ks_Truststore = False\<rparr> r of
        (result, r') \<Rightarrow>
         (case jks_addCertificate
                 (Wrapf ''entry %d chain certificate %d: %w'' [AInt (int entryIndex), AInt (int chainIndex)])
                 result st of
            (Some e, st') \<Rightarrow> ((Some e, st'), r')
          | (None, st') \<Rightarrow> jks_chain lib version format alias entryIndex (chainIndex + 1) n st' r'))"

text \<open>
  The body of the loop over the entries: the fields every entry has (\<open>jks_entryHeader\<close>),
  then the fields of its kind.
\<close>

definition replacement_character :: bytes where
  "replacement_character = rune_error"

definition jks_entryHeader ::
  "nat \<Rightarrow> jreader \<Rightarrow> (32 word \<times> bytes) go_result \<times> jreader" where
  "jks_entryHeader entryIndex r =
     (case reader_uint32 r of
        (Inl e, r1) \<Rightarrow> (Inl (Wrapf ''entry %d tag: %w'' [AInt (int entryIndex)] e), r1)
      | (Inr tag, r1) \<Rightarrow>
         (case reader_lengthPrefixedUint16 r1 of
            (Inl e, r2) \<Rightarrow> (Inl (Wrapf ''entry %d alias: %w'' [AInt (int entryIndex)] e), r2)
          | (Inr aliasBytes, r2) \<Rightarrow> (Inr (tag, aliasBytes), r2)))"

definition jks_alias :: "nat \<Rightarrow> bytes \<Rightarrow> jks_state \<Rightarrow> string \<times> jks_state" where
  "jks_alias entryIndex aliasBytes st =
     (case decodeJavaModifiedUTF8 aliasBytes of
        Inr alias \<Rightarrow> (alias, st)
      | Inl e \<Rightarrow>
         (string_of_bytes (to_valid_utf8 replacement_character False aliasBytes),
          st\<lparr>js_parseErrors := js_parseErrors st @
               [Wrapf ''entry %d alias: %w'' [AInt (int entryIndex)] e]\<rparr>))"

definition jks_privateKeyEntry ::
  "x509_lib \<Rightarrow> 32 word \<Rightarrow> string \<Rightarrow> string \<Rightarrow> nat \<Rightarrow> jks_state \<Rightarrow> jreader \<Rightarrow> jks_step" where
  "jks_privateKeyEntry lib version format alias entryIndex st r =
     (let st = st\<lparr>js_privateKeyEntries := js_privateKeyEntries st + 1\<rparr> in
      case reader_uint32 r of
        (Inl e, r1) \<Rightarrow>
          ((Some (Wrapf ''entry %d private-key length: %w'' [AInt (int entryIndex)] e), st), r1)
      | (Inr keyLength, r1) \<Rightarrow>
         (case reader_skipUint32 keyLength r1 of
            (Inl e, r2) \<Rightarrow>
              ((Some (Wrapf ''entry %d private-key blob: %w'' [AInt (int entryIndex)] e), st), r2)
          | (Inr _, r2) \<Rightarrow>
             (case reader_uint32 r2 of
                (Inl e, r3) \<Rightarrow>
                  ((Some (Wrapf ''entry %d chain length: %w'' [AInt (int entryIndex)] e), st), r3)
              | (Inr chainLength, r3) \<Rightarrow>
                  jks_chain lib version format alias entryIndex 0 (unat chainLength) st r3)))"

definition jks_trustedEntry ::
  "x509_lib \<Rightarrow> 32 word \<Rightarrow> string \<Rightarrow> string \<Rightarrow> nat \<Rightarrow> jks_state \<Rightarrow> jreader \<Rightarrow> jks_step" where
  "jks_trustedEntry lib version format alias entryIndex st r =
     (let st = st\<lparr>js_trustedEntries := js_trustedEntries st + 1\<rparr> in
      case reader_certificate lib version
             \<lparr>ks_Format = format, ks_Alias = alias, ks_FriendlyName = [],
              ks_EntryType = ''trustedCertEntry'', ks_ChainIndex = 0, ks_Truststore = False\<rparr> r of
        (result, r') \<Rightarrow>
          (jks_addCertificate
             (Wrapf ''entry %d trusted certificate: %w'' [AInt (int entryIndex)]) result st, r'))"

definition jks_entry ::
  "x509_lib \<Rightarrow> 32 word \<Rightarrow> string \<Rightarrow> nat \<Rightarrow> jks_state \<Rightarrow> jreader \<Rightarrow> jks_step" where
  "jks_entry lib version format entryIndex st r =
     (case jks_entryHeader entryIndex r of
        (Inl e, r1) \<Rightarrow> ((Some e, st), r1)
      | (Inr (tag, aliasBytes), r1) \<Rightarrow>
         (case jks_alias entryIndex aliasBytes st of
            (alias, st1) \<Rightarrow>
             (case reader_skip 8 r1 of
                (Inl e, r2) \<Rightarrow>
                  ((Some (Wrapf ''entry %d creation date: %w'' [AInt (int entryIndex)] e), st1), r2)
              | (Inr _, r2) \<Rightarrow>
                  if tag = keystoreTagPrivateKey then
                    jks_privateKeyEntry lib version format alias entryIndex st1 r2
                  else if tag = keystoreTagTrusted then
                    jks_trustedEntry lib version format alias entryIndex st1 r2
                  else if tag = keystoreTagSecretKey then
                    ((Some (Errorf ''entry %d is an unsupported JCEKS secret-key entry''
                        [AInt (int entryIndex)]), st1), r2)
                  else
                    ((Some (Errorf ''entry %d has unsupported tag %d''
                        [AInt (int entryIndex), AInt (uint tag)]), st1), r2))))"

fun jks_entries ::
  "x509_lib \<Rightarrow> 32 word \<Rightarrow> string \<Rightarrow> nat \<Rightarrow> nat \<Rightarrow> jks_state \<Rightarrow> jreader \<Rightarrow> jks_step" where
  "jks_entries lib version format entryIndex 0 st r = ((None, st), r)"
| "jks_entries lib version format entryIndex (Suc n) st r =
     (case jks_entry lib version format entryIndex st r of
        ((Some e, st'), r') \<Rightarrow> ((Some e, st'), r')
      | ((None, st'), r') \<Rightarrow> jks_entries lib version format (entryIndex + 1) n st' r')"

text \<open>The header after the magic number: the version and the number of entries.\<close>

definition jks_header :: "string \<Rightarrow> jreader \<Rightarrow> (32 word \<times> 32 word) go_result \<times> jreader" where
  "jks_header format r =
     (case reader_uint32 r of
        (Inl e, r1) \<Rightarrow> (Inl (Wrapf ''read %s magic: %w'' [AStr format] e), r1)
      | (Inr _, r1) \<Rightarrow>
         (case reader_uint32 r1 of
            (Inl e, r2) \<Rightarrow> (Inl (Wrapf ''read %s version: %w'' [AStr format] e), r2)
          | (Inr version, r2) \<Rightarrow>
             if version \<noteq> 1 \<and> version \<noteq> 2
             then (Inl (Errorf ''unsupported %s version %d'' [AStr format, AInt (uint version)]), r2)
             else
               (case reader_uint32 r2 of
                  (Inl e, r3) \<Rightarrow> (Inl (Wrapf ''read %s entry count: %w'' [AStr format] e), r3)
                | (Inr entryCount, r3) \<Rightarrow>
                    if entryCount = 0
                    then (Inl (Errorf ''%s contains zero entries'' [AStr format]), r3)
                    else (Inr (version, entryCount), r3))))"

definition jks_initial :: jks_state where
  "jks_initial = \<lparr>js_certificates = [], js_parseErrors = [],
     js_privateKeyEntries = 0, js_trustedEntries = 0\<rparr>"

definition jks_setTruststore ::
  "bool \<Rightarrow> java_keystore_certificate \<Rightarrow> java_keystore_certificate" where
  "jks_setTruststore t c = c\<lparr>jc_keystore := (jc_keystore c)\<lparr>ks_Truststore := t\<rparr>\<rparr>"

definition jks_finish :: "string \<Rightarrow> jks_state \<Rightarrow> java_keystore_certificate list \<times> go_error option" where
  "jks_finish format st =
     (let errs = (if js_certificates st = []
            then js_parseErrors st @ [Errorf ''%s contains no X.509 certificates'' [AStr format]]
            else js_parseErrors st);
          truststore = (js_privateKeyEntries st = 0 \<and> js_trustedEntries st > 0)
      in (map (jks_setTruststore truststore) (js_certificates st), errors_Join_list errs))"

definition parseJavaKeystore ::
  "x509_lib \<Rightarrow> bytes \<Rightarrow> java_keystore_certificate list \<times> go_error option" where
  "parseJavaKeystore lib data =
     (case detectJavaKeystore data of
        None \<Rightarrow> ([], Some (ErrNew ''unrecognized Java keystore magic''))
      | Some format \<Rightarrow>
         if length data < minimumJavaKeystoreFileBytes
         then ([], Some (Errorf ''truncated %s header or integrity MAC'' [AStr format]))
         else
           (case jks_header format
                   \<lparr>jr_data = take (length data - javaKeystoreMACSize) data, jr_offset = 0\<rparr> of
              (Inl e, _) \<Rightarrow> ([], Some e)
            | (Inr (version, entryCount), r) \<Rightarrow>
               (case jks_entries lib version format 0 (unat entryCount) jks_initial r of
                  ((Some e, st), _) \<Rightarrow>
                    (js_certificates st, errors_Join [errors_Join_list (js_parseErrors st), Some e])
                | ((None, st), r') \<Rightarrow>
                    if reader_remaining r' \<noteq> 0
                    then (js_certificates st,
                          errors_Join [errors_Join_list (js_parseErrors st),
                            Some (Errorf ''%s has %d unexpected bytes before the integrity MAC''
                              [AStr format, AInt (reader_remaining r')])])
                    else jks_finish format st)))"

section \<open>The reader's contract\<close>

text \<open>
  \<open>rd_at p q\<close> is the reader that has consumed \<open>p\<close> and has \<open>q\<close> in front of it.
  Every operation of the parser moves such a reader forward inside its data (\<open>step\<close>), and
  what a successful operation returns depends on the bytes it consumed alone (\<open>local\<close>).
\<close>

definition rd_at :: "bytes \<Rightarrow> bytes \<Rightarrow> jreader" where
  "rd_at p q = \<lparr>jr_data = p @ q, jr_offset = length p\<rparr>"

lemma rd_at_eq_iff: "rd_at p q = rd_at p' q' \<longleftrightarrow> p = p' \<and> q = q'"
  by (auto simp: rd_at_def append_eq_append_conv)

lemma remaining_at [simp]: "reader_remaining (rd_at p q) = int (length q)"
  by (simp add: reader_remaining_def rd_at_def)

locale cursor =
  fixes op :: "jreader \<Rightarrow> 'b \<times> jreader" and ok :: "'b \<Rightarrow> bool"
  assumes step: "\<exists>a b. q = a @ b \<and> snd (op (rd_at p q)) = rd_at (p @ a) b"
    and local: "op (rd_at p (a @ b)) = (x, rd_at (p @ a) b) \<Longrightarrow> ok x \<Longrightarrow>
      op (rd_at p' (a @ b')) = (x, rd_at (p' @ a) b')"
begin

lemma stepE:
  assumes "op (rd_at p q) = (x, r')"
  obtains a b where "q = a @ b" "r' = rd_at (p @ a) b"
  using step [of q p] assms by auto

text \<open>Bytes after the ones an operation needs do not change its result.\<close>

lemma extend:
  assumes "op (rd_at p q) = (x, rd_at p' q')" and "ok x"
  shows "op (rd_at p (q @ s)) = (x, rd_at p' (q' @ s))"
proof -
  from assms(1) obtain a b where "q = a @ b" "rd_at p' q' = rd_at (p @ a) b"
    by (rule stepE)
  moreover from this have "p' = p @ a" "q' = b" by (simp_all add: rd_at_eq_iff)
  ultimately show ?thesis
    using local [of p a b x p "b @ s"] assms by simp
qed

lemma forward:
  assumes "op (rd_at p q) = (x, r')"
  shows "jr_data r' = p @ q \<and> length p \<le> jr_offset r' \<and> jr_offset r' \<le> length (p @ q)"
proof -
  from assms obtain a b where "q = a @ b" "r' = rd_at (p @ a) b" by (rule stepE)
  then show ?thesis by (simp add: rd_at_def)
qed

end

abbreviation is_Inr :: "'a + 'b \<Rightarrow> bool" where
  "is_Inr x \<equiv> \<not> isl x"

lemma reader_take_at [simp]:
  "reader_take (int (length a)) (rd_at p (a @ b)) = (Inr a, rd_at (p @ a) b)"
  by (simp add: reader_take_def) (simp add: rd_at_def)

lemma reader_take_cases:
  obtains (eof) e where "reader_take n (rd_at p q) = (Inl e, rd_at p q)"
      "e = io_ErrUnexpectedEOF" "n < 0 \<or> int (length q) < n"
    | (got) a b where "q = a @ b" "n = int (length a)"
      "reader_take n (rd_at p q) = (Inr a, rd_at (p @ a) b)"
proof (cases "n < 0 \<or> int (length q) < n")
  case True
  then show ?thesis by (intro eof) (auto simp: reader_take_def)
next
  case False
  define a where "a = take (nat n) q"
  define b where "b = drop (nat n) q"
  from False have "q = a @ b" "n = int (length a)" by (auto simp: a_def b_def)
  with got show ?thesis by simp
qed

interpretation take_c: cursor "reader_take n" is_Inr
proof
  fix p q
  show "\<exists>a b. q = a @ b \<and> snd (reader_take n (rd_at p q)) = rd_at (p @ a) b"
    by (rule reader_take_cases [of n p q]) (auto intro: exI [of _ "[]"])
next
  fix p a b x p' b'
  assume "reader_take n (rd_at p (a @ b)) = (x, rd_at (p @ a) b)" "is_Inr x"
  then have "n = int (length a) \<and> x = Inr a"
    by (cases rule: reader_take_cases [of n p "a @ b"]) (auto simp: rd_at_eq_iff)
  then show "reader_take n (rd_at p' (a @ b')) = (x, rd_at (p' @ a) b')" by simp
qed

text \<open>Sequencing keeps the contract, so the composite operations inherit it.\<close>

lemma cursor_return: "cursor (\<lambda>r. (x, r)) ok"
  by unfold_locales (auto simp: rd_at_eq_iff)

lemma cursor_seq:
  assumes m: "cursor m ok1"
    and k: "\<And>x. ok1 x \<Longrightarrow> cursor (k x) ok2"
    and stop: "\<And>x. \<not> ok1 x \<Longrightarrow> \<exists>y. \<not> ok2 y \<and> k x = (\<lambda>r. (y, r))"
  shows "cursor (\<lambda>r. case_prod k (m r)) ok2"
proof
  fix p q
  obtain x r1 where x: "m (rd_at p q) = (x, r1)" by (cases "m (rd_at p q)")
  obtain a1 c where a1: "q = a1 @ c" "r1 = rd_at (p @ a1) c"
    using cursor.stepE [OF m x] by blast
  show "\<exists>a b. q = a @ b \<and> snd (case_prod k (m (rd_at p q))) = rd_at (p @ a) b"
  proof (cases "ok1 x")
    case True
    from cursor.step [OF k [OF True], of c "p @ a1"] obtain a2 b where
      "c = a2 @ b" "snd (k x (rd_at (p @ a1) c)) = rd_at ((p @ a1) @ a2) b" by blast
    with a1 x have "q = (a1 @ a2) @ b \<and> snd (case_prod k (m (rd_at p q))) = rd_at (p @ (a1 @ a2)) b"
      by simp
    then show ?thesis by blast
  next
    case False
    with stop [of x] x a1 have "q = a1 @ c \<and> snd (case_prod k (m (rd_at p q))) = rd_at (p @ a1) c"
      by auto
    then show ?thesis by blast
  qed
next
  fix p a b y p' b'
  assume comp: "case_prod k (m (rd_at p (a @ b))) = (y, rd_at (p @ a) b)" and ok: "ok2 y"
  obtain x r1 where x: "m (rd_at p (a @ b)) = (x, r1)" by (cases "m (rd_at p (a @ b))")
  then obtain a1 c where a1: "a @ b = a1 @ c" "r1 = rd_at (p @ a1) c"
    using cursor.stepE [OF m x] by blast
  have okx: "ok1 x"
    by (rule ccontr) (use stop [of x] comp ok x in auto)
  have kx: "k x (rd_at (p @ a1) c) = (y, rd_at (p @ a) b)" using comp x a1 by simp
  then obtain a2 where a2: "c = a2 @ b" "a = a1 @ a2"
    using cursor.stepE [OF k [OF okx] kx] by (auto simp: rd_at_eq_iff)
  have "m (rd_at p' (a1 @ a2 @ b')) = (x, rd_at (p' @ a1) (a2 @ b'))"
    using cursor.local [OF m _ okx] x a1 a2 by simp
  moreover have "k x (rd_at (p' @ a1) (a2 @ b')) = (y, rd_at ((p' @ a1) @ a2) b')"
    by (rule cursor.local [OF k [OF okx] _ ok, of "p @ a1" a2 b]) (use kx a2 in simp)
  ultimately show "case_prod k (m (rd_at p' (a @ b'))) = (y, rd_at (p' @ a) b')"
    using a2 by simp
qed

lemma cursor_case:
  assumes "cursor m is_Inr" and "\<And>x. cursor (g x) ok" and "\<And>e. \<not> ok (h e)"
  shows "cursor (\<lambda>r. case m r of (Inl e, r') \<Rightarrow> (h e, r') | (Inr x, r') \<Rightarrow> g x r') ok"
proof (rule cursor_seq [OF assms(1)], goal_cases)
  case (1 x)
  then show ?case using assms(2) by (cases x) simp_all
next
  case (2 x)
  then show ?case using assms(3) by (cases x) auto
qed

lemma cursor_bind:
  "cursor m is_Inr \<Longrightarrow> (\<And>x. cursor (f x) is_Inr) \<Longrightarrow> cursor (rd_bind m f) is_Inr"
  using cursor_case [of m f is_Inr Inl] by (simp add: rd_bind_def [abs_def])

interpretation uint32_c: cursor reader_uint32 is_Inr
  unfolding reader_uint32_def by (intro cursor_bind take_c.cursor_axioms cursor_return)

interpretation lengthPrefixed_c: cursor reader_lengthPrefixedUint16 is_Inr
  unfolding reader_lengthPrefixedUint16_def by (intro cursor_bind take_c.cursor_axioms)

lemma reader_takeUint32_eq: "reader_takeUint32 n = reader_take (uint n)"
  by (rule ext) (simp add: reader_takeUint32_def reader_take_def)

interpretation takeUint32_c: cursor "reader_takeUint32 n" is_Inr
  unfolding reader_takeUint32_eq by unfold_locales

interpretation skipUint32_c: cursor "reader_skipUint32 n" is_Inr
  unfolding reader_skipUint32_def by (intro cursor_bind takeUint32_c.cursor_axioms cursor_return)

interpretation skip_c: cursor "reader_skip n" is_Inr
  unfolding reader_skip_def by (intro cursor_bind take_c.cursor_axioms cursor_return)

lemma cursor_if: "cursor f ok \<Longrightarrow> cursor g ok \<Longrightarrow> cursor (\<lambda>r. if c then f r else g r) ok"
  by (cases c) simp_all

lemma cursor_sum:
  "(\<And>e. cursor (f e) ok) \<Longrightarrow> (\<And>x. cursor (g x) ok) \<Longrightarrow>
     cursor (\<lambda>r. case y of Inl e \<Rightarrow> f e r | Inr x \<Rightarrow> g x r) ok"
  by (cases y) simp_all

interpretation certificateType_c: cursor "reader_certificateType version" is_Inr
  unfolding reader_certificateType_def [abs_def]
  by (intro cursor_if cursor_case lengthPrefixed_c.cursor_axioms cursor_return) simp

text \<open>
  The structure of a certificate entry is lost when the returned pointer is nil, and then
  there is an error.
\<close>

definition structure_read :: "'a option \<times> go_error option \<Rightarrow> bool" where
  "structure_read x \<longleftrightarrow> \<not> (fst x = None \<and> snd x \<noteq> None)"

interpretation certificate_c: cursor "reader_certificate lib version keystore" structure_read
  unfolding reader_certificate_def [abs_def] Let_def
  by (intro cursor_if cursor_case cursor_sum cursor_return certificateType_c.cursor_axioms
      uint32_c.cursor_axioms takeUint32_c.cursor_axioms)
    (simp_all add: structure_read_def)

interpretation header_c: cursor "jks_header format" is_Inr
  unfolding jks_header_def [abs_def]
  by (intro cursor_if cursor_case cursor_return uint32_c.cursor_axioms) simp_all


definition continues :: "go_error option \<times> jks_state \<Rightarrow> bool" where
  "continues x \<longleftrightarrow> fst x = None"

lemma continues_simps [simp]: "continues (None, st)" "\<not> continues (Some e, st)"
  by (simp_all add: continues_def)

lemma addCertificate_continues:
  "continues (jks_addCertificate w x st) \<longleftrightarrow> structure_read x"
  by (cases x) (auto simp: jks_addCertificate_def continues_def structure_read_def
      Let_def split: option.splits)

lemma cursor_continue:
  assumes "\<And>st. cursor (f st) continues"
  shows "cursor (\<lambda>r. case x of (Some e, st) \<Rightarrow> ((Some e, st), r) | (None, st) \<Rightarrow> f st r) continues"
  using assms by (cases x; cases "fst x") (auto intro: cursor_return)

lemma stop_continue:
  assumes "\<not> continues x"
  shows "\<exists>y. \<not> continues y \<and>
    (\<lambda>r. case x of (Some e, st) \<Rightarrow> ((Some e, st), r) | (None, st) \<Rightarrow> f st r) = (\<lambda>r. (y, r))"
  using assms by (intro exI [of _ x], cases x; cases "fst x") auto

lemma chain_cursor: "cursor (jks_chain lib version format alias i j n st) continues"
proof (induction n arbitrary: j st)
  case 0
  show ?case by (simp add: cursor_return [of _ continues] flip: id_def)
next
  case (Suc n)
  show ?case
    unfolding jks_chain.simps
  proof (rule cursor_seq [OF certificate_c.cursor_axioms], goal_cases)
    case (1 x)
    show ?case by (rule cursor_continue) (rule Suc)
  next
    case (2 x)
    then have "\<not> continues (jks_addCertificate
        (Wrapf ''entry %d chain certificate %d: %w'' [AInt (int i), AInt (int j)]) x st)"
      by (simp add: addCertificate_continues)
    then show ?case by (rule stop_continue)
  qed
qed

lemma cursor_entryHeader: "cursor (jks_entryHeader i) is_Inr"
  unfolding jks_entryHeader_def [abs_def]
  by (intro cursor_case cursor_return uint32_c.cursor_axioms lengthPrefixed_c.cursor_axioms) simp_all

lemma cursor_privateKeyEntry:
  "cursor (jks_privateKeyEntry lib version format alias i st) continues"
  unfolding jks_privateKeyEntry_def [abs_def] Let_def
  by (intro cursor_case cursor_return uint32_c.cursor_axioms skipUint32_c.cursor_axioms
      chain_cursor) simp_all

lemma cursor_trustedEntry:
  "cursor (jks_trustedEntry lib version format alias i st) continues"
  unfolding jks_trustedEntry_def [abs_def] Let_def
proof (rule cursor_seq [OF certificate_c.cursor_axioms], goal_cases)
  case (1 x)
  show ?case by (rule cursor_return)
next
  case (2 x)
  show ?case
    by (rule exI [of _ "jks_addCertificate (Wrapf ''entry %d trusted certificate: %w'' [AInt (int i)]) x
          (st\<lparr>js_trustedEntries := js_trustedEntries st + 1\<rparr>)"])
      (use 2 in \<open>simp add: addCertificate_continues\<close>)
qed

lemma cursor_entry: "cursor (jks_entry lib version format i st) continues"
  unfolding jks_entry_def [abs_def]
proof (intro cursor_case [OF cursor_entryHeader], goal_cases)
  case (1 x)
  show ?case
    by (cases x; cases "jks_alias i (snd x) st")
      (simp, intro cursor_case skip_c.cursor_axioms cursor_if cursor_return
        cursor_privateKeyEntry cursor_trustedEntry, simp)
qed simp

lemma cursor_entries: "cursor (jks_entries lib version format i n st) continues"
proof (induction n arbitrary: i st)
  case 0
  show ?case by (simp add: cursor_return [of _ continues] flip: id_def)
next
  case (Suc n)
  show ?case
    unfolding jks_entries.simps
    by (rule cursor_seq [OF cursor_entry cursor_continue stop_continue]) (rule Suc)
qed

section \<open>Whole stores\<close>

text \<open>
  A store that parses without any error: the header, then the entries, consume the whole body.
\<close>

lemma parse_clean_cases:
  assumes "snd (parseJavaKeystore lib data) = None"
  obtains format version count h b st where
    "detectJavaKeystore data = Some format" "32 \<le> length data"
    "jks_header format (rd_at [] (take (length data - 20) data)) = (Inr (version, count), rd_at h b)"
    "jks_entries lib version format 0 (unat count) jks_initial (rd_at h b) =
       ((None, st), rd_at (take (length data - 20) data) [])"
    "parseJavaKeystore lib data = jks_finish format st"
proof -
  let ?body = "take (length data - 20) data"
  from assms obtain format where f: "detectJavaKeystore data = Some format" "32 \<le> length data"
    by (auto simp: parseJavaKeystore_def minimumJavaKeystoreFileBytes_def
        javaKeystoreMACSize_def not_less split: option.splits if_splits)
  have start: "\<lparr>jr_data = ?body, jr_offset = 0\<rparr> = rd_at [] ?body"
    by (simp add: rd_at_def)
  obtain x r where hd: "jks_header format (rd_at [] ?body) = (x, r)"
    by (cases "jks_header format (rd_at [] ?body)")
  with assms f start obtain version count where x: "x = Inr (version, count)"
    by (cases x) (auto simp: parseJavaKeystore_def minimumJavaKeystoreFileBytes_def
        javaKeystoreMACSize_def)
  from hd obtain h b where hb: "?body = h @ b" "r = rd_at h b"
    by (rule header_c.stepE) simp
  obtain e st r' where es: "jks_entries lib version format 0 (unat count) jks_initial (rd_at h b)
      = ((e, st), r')"
    by (metis surj_pair)
  from cursor.stepE [OF cursor_entries es] obtain a c where ac: "b = a @ c" "r' = rd_at (h @ a) c"
    by blast
  have "e = None \<and> c = []"
    using assms f start hd x hb es ac
    by (cases e) (auto simp: parseJavaKeystore_def minimumJavaKeystoreFileBytes_def
        javaKeystoreMACSize_def split: if_splits)
  then show thesis
    using assms f start hd x hb es ac
    by (intro that [of format version count h b st])
      (auto simp: parseJavaKeystore_def minimumJavaKeystoreFileBytes_def javaKeystoreMACSize_def)
qed

text \<open>
  C17: no keystore that parses without an error is a proper prefix of another one. So every
  truncation of a clean store, and every store with bytes after a clean one, is reported as
  an error and never accepted silently.
\<close>

theorem jks_clean_prefix_free:
  assumes "snd (parseJavaKeystore lib data) = None"
    and "snd (parseJavaKeystore lib (data @ extra)) = None"
  shows "extra = []"
proof -
  let ?body = "take (length data - 20) data"
  let ?all = "data @ extra"
  obtain format version count h b st where 1: "detectJavaKeystore data = Some format"
    "32 \<le> length data"
    "jks_header format (rd_at [] ?body) = (Inr (version, count), rd_at h b)"
    "jks_entries lib version format 0 (unat count) jks_initial (rd_at h b) = ((None, st), rd_at ?body [])"
    using assms(1) by (rule parse_clean_cases)
  obtain format' version' count' h' b' st' where 2: "detectJavaKeystore ?all = Some format'"
    "jks_header format' (rd_at [] (take (length ?all - 20) ?all)) = (Inr (version', count'), rd_at h' b')"
    "jks_entries lib version' format' 0 (unat count') jks_initial (rd_at h' b') =
       ((None, st'), rd_at (take (length ?all - 20) ?all) [])"
    using assms(2) by (rule parse_clean_cases)
  define s where "s = take (length extra) (drop (length data - 20) ?all)"
  have s: "take (length ?all - 20) ?all = ?body @ s" "length s = length extra"
    using 1(2) take_add [of "length data - 20" "length extra" ?all]
    by (auto simp: s_def Nat.add_diff_assoc2)
  have "format' = format"
    using 1 2 by (auto simp: detectJavaKeystore_def split: if_splits)
  moreover from header_c.extend [OF 1(3), of s] have
    "jks_header format (rd_at [] (?body @ s)) = (Inr (version, count), rd_at h (b @ s))" by simp
  ultimately have eq: "version' = version" "count' = count" "h' = h" "b' = b @ s"
    using 2(2) unfolding s by (auto simp: rd_at_eq_iff)
  from cursor.extend [OF cursor_entries 1(4), of s] have
    "jks_entries lib version format 0 (unat count) jks_initial (rd_at h (b @ s)) =
      ((None, st), rd_at ?body s)" by simp
  with 2(3) have "s = []"
    unfolding s eq \<open>format' = format\<close> by (auto simp: rd_at_eq_iff)
  with s(2) show ?thesis by simp
qed

text \<open>
  The trailing 20-byte integrity MAC is never looked at: replacing it by any other 20
  bytes changes neither the certificates nor the error.
\<close>

theorem jks_mac_irrelevant:
  assumes "length mac = 20" and "length mac' = 20" and "4 \<le> length body"
  shows "parseJavaKeystore lib (body @ mac) = parseJavaKeystore lib (body @ mac')"
proof -
  have "detectJavaKeystore (body @ mac) = detectJavaKeystore (body @ mac')"
    using assms by (simp add: detectJavaKeystore_def)
  then show ?thesis
    using assms
    by (cases "detectJavaKeystore (body @ mac')") (simp_all add: parseJavaKeystore_def javaKeystoreMACSize_def)
qed

text \<open>Detection looks at the first four bytes.\<close>

interpretation jks: detector "\<lambda>data. detectJavaKeystore data \<noteq> None"
  by unfold_locales (auto simp: detectJavaKeystore_def split: if_splits)

section \<open>What is reported\<close>

text \<open>
  A reported entry comes from bytes of the file that the X.509 parser accepts, and its
  metadata is well formed.
\<close>

definition keystore_wf :: "string \<Rightarrow> keystore_info \<Rightarrow> bool" where
  "keystore_wf format ks \<longleftrightarrow>
     ks_Format ks = format \<and> utf8_Valid (bytes_of_string (ks_Alias ks)) \<and>
     ks_FriendlyName ks = [] \<and> 0 \<le> ks_ChainIndex ks \<and>
     (ks_EntryType ks = ''PrivateKeyEntry'' \<or>
      ks_EntryType ks = ''trustedCertEntry'' \<and> ks_ChainIndex ks = 0)"

definition jks_entry_wf :: "x509_lib \<Rightarrow> string \<Rightarrow> bytes \<Rightarrow> java_keystore_certificate \<Rightarrow> bool" where
  "jks_entry_wf lib format data c \<longleftrightarrow>
     keystore_wf format (jc_keystore c) \<and>
     (\<exists>x der. jc_certificate c = Some x \<and> sublist der data \<and> ParseCertificate lib der = Inr x)"

definition jks_inv :: "x509_lib \<Rightarrow> string \<Rightarrow> bytes \<Rightarrow> jks_state \<Rightarrow> bytes \<Rightarrow> bool" where
  "jks_inv lib format data st p \<longleftrightarrow>
     4 * length (js_certificates st) \<le> length p \<and>
     (\<forall>c \<in> set (js_certificates st). jks_entry_wf lib format data c \<and>
        \<not> ks_Truststore (jc_keystore c) \<and>
        (ks_EntryType (jc_keystore c) = ''PrivateKeyEntry'' \<longrightarrow> 0 < js_privateKeyEntries st))"

lemma jks_inv_mono: "jks_inv lib format data st p \<Longrightarrow> length p \<le> length p' \<Longrightarrow> jks_inv lib format data st p'"
  by (auto simp: jks_inv_def)

lemma uint32_got:
  assumes "reader_uint32 (rd_at p q) = (Inr v, r')"
  obtains a b where "q = a @ b" "length a = 4" "v = be_word a" "r' = rd_at (p @ a) b"
  using assms unfolding reader_uint32_def rd_bind_def
  by (cases rule: reader_take_cases [of 4 p q]) auto

lemma takeUint32_got:
  assumes "reader_takeUint32 n (rd_at p q) = (Inr v, r')"
  obtains b where "q = v @ b" "r' = rd_at (p @ v) b" "uint n = int (length v)"
  using assms unfolding reader_takeUint32_eq
  by (cases rule: reader_take_cases [of "uint n" p q]) auto

lemma certificate_got:
  assumes "reader_certificate lib version ks (rd_at p q) = ((Some c, e), r')"
  obtains a b where "q = a @ b" "r' = rd_at (p @ a) b" "4 \<le> length a" "jc_keystore c = ks"
    "\<And>x. jc_certificate c = Some x \<Longrightarrow> \<exists>der. sublist der q \<and> ParseCertificate lib der = Inr x"
    "jc_certificate c = None \<longleftrightarrow> e \<noteq> None"
proof -
  obtain ty r1 where ty: "reader_certificateType version (rd_at p q) = (ty, r1)"
    by (cases "reader_certificateType version (rd_at p q)")
  then obtain a1 q1 where 1: "q = a1 @ q1" "r1 = rd_at (p @ a1) q1"
    by (rule certificateType_c.stepE)
  obtain n r2 where n: "reader_uint32 r1 = (Inr n, r2)" and okty: "is_Inr ty"
    using assms ty
    by (auto simp: reader_certificate_def split: sum.splits prod.splits)
  then obtain a2 q2 where 2: "q1 = a2 @ q2" "length a2 = 4" "r2 = rd_at ((p @ a1) @ a2) q2"
    unfolding 1 by (blast elim: uint32_got)
  obtain der r3 where der: "reader_takeUint32 n r2 = (Inr der, r3)"
    using assms ty n okty
    by (auto simp: reader_certificate_def split: sum.splits prod.splits)
  then obtain q3 where 3: "q2 = der @ q3" "r3 = rd_at (((p @ a1) @ a2) @ der) q3"
    unfolding 2 by (blast elim: takeUint32_got)
  have "r' = r3 \<and> jc_keystore c = ks \<and> (jc_certificate c = None \<longleftrightarrow> e \<noteq> None) \<and>
      (\<forall>x. jc_certificate c = Some x \<longrightarrow> ParseCertificate lib der = Inr x)"
    using assms ty n okty der
    by (auto simp: reader_certificate_def Let_def split: sum.splits prod.splits if_splits)
  moreover have "sublist der q"
    unfolding 1 2 3 by (metis append.assoc sublist_appendI)
  ultimately show thesis
    using 1 2 3 by (intro that [of "a1 @ a2 @ der" q3]) auto
qed

lemma addCertificate_inv:
  assumes "reader_certificate lib version ks (rd_at p q) = (x, rd_at p' q')"
    and "jks_addCertificate w x st = (e, st')"
    and "jks_inv lib format (p @ q) st p" and "keystore_wf format ks" and "\<not> ks_Truststore ks"
    and "ks_EntryType ks = ''PrivateKeyEntry'' \<Longrightarrow> 0 < js_privateKeyEntries st"
  shows "jks_inv lib format (p @ q) st' p' \<and> js_privateKeyEntries st' = js_privateKeyEntries st"
proof (cases "fst x")
  case None
  have "length p \<le> length p'"
    using certificate_c.forward [OF assms(1)] by (simp add: rd_at_def)
  with None assms(2,3) show ?thesis
    by (cases x) (auto simp: jks_addCertificate_def Let_def jks_inv_def split: option.splits)
next
  case (Some c)
  then obtain ce where x: "x = (Some c, ce)" by (cases x) simp
  obtain a b where ab: "q = a @ b" "rd_at p' q' = rd_at (p @ a) b" "4 \<le> length a" "jc_keystore c = ks"
    "\<And>y. jc_certificate c = Some y \<Longrightarrow> \<exists>der. sublist der q \<and> ParseCertificate lib der = Inr y"
    using certificate_got [OF assms(1) [unfolded x]] by metis
  then have p': "p' = p @ a" by (simp add: rd_at_eq_iff)
  have wf: "jks_entry_wf lib format (p @ q) c" if "jc_certificate c = Some y" for y
    using ab(4) ab(5) [OF that] that assms(4) by (auto simp: jks_entry_wf_def intro: sublist_order.order.trans)
  show ?thesis
    using assms(2,3,5,6) ab(3,4) wf
    by (auto simp: x p' jks_addCertificate_def Let_def jks_inv_def split: option.splits if_splits)
qed

lemma keystore_wf_entries [simp]:
  "utf8_Valid (bytes_of_string alias) \<Longrightarrow>
     keystore_wf format \<lparr>ks_Format = format, ks_Alias = alias, ks_FriendlyName = [],
       ks_EntryType = ''PrivateKeyEntry'', ks_ChainIndex = int i, ks_Truststore = t\<rparr>"
  "utf8_Valid (bytes_of_string alias) \<Longrightarrow>
     keystore_wf format \<lparr>ks_Format = format, ks_Alias = alias, ks_FriendlyName = [],
       ks_EntryType = ''trustedCertEntry'', ks_ChainIndex = 0, ks_Truststore = t\<rparr>"
  by (simp_all add: keystore_wf_def)

lemma chain_inv:
  assumes "jks_chain lib version format alias i j n st (rd_at p q) = ((e, st'), rd_at p' q')"
    and "jks_inv lib format (p @ q) st p" and "utf8_Valid (bytes_of_string alias)"
    and "0 < js_privateKeyEntries st"
  shows "jks_inv lib format (p @ q) st' p'"
  using assms
proof (induction n arbitrary: j st p q)
  case 0
  then show ?case by (simp add: rd_at_eq_iff)
next
  case (Suc n)
  let ?ks = "\<lparr>ks_Format = format, ks_Alias = alias, ks_FriendlyName = [],
     ks_EntryType = ''PrivateKeyEntry'', ks_ChainIndex = int j, ks_Truststore = False\<rparr>"
  let ?w = "Wrapf ''entry %d chain certificate %d: %w'' [AInt (int i), AInt (int j)]"
  obtain x r1 where x: "reader_certificate lib version ?ks (rd_at p q) = (x, r1)"
    by (cases "reader_certificate lib version ?ks (rd_at p q)")
  then obtain a b where ab: "q = a @ b" "r1 = rd_at (p @ a) b"
    by (rule certificate_c.stepE)
  obtain e1 st1 where add: "jks_addCertificate ?w x st = (e1, st1)"
    by (cases "jks_addCertificate ?w x st")
  from x ab add Suc.prems(2-4) have inv: "jks_inv lib format (p @ q) st1 (p @ a)"
      "js_privateKeyEntries st1 = js_privateKeyEntries st"
    by (auto dest!: addCertificate_inv)
  show ?case
  proof (cases e1)
    case None
    with Suc.prems(1) x ab add
    have "jks_chain lib version format alias i (j + 1) n st1 (rd_at (p @ a) b) = ((e, st'), rd_at p' q')"
      by simp
    from Suc.IH [OF this] inv Suc.prems(3,4) ab show ?thesis by simp
  next
    case (Some e2)
    with Suc.prems(1) x ab add inv show ?thesis by (auto simp: rd_at_eq_iff)
  qed
qed

lemma alias_valid:
  assumes "jks_alias i bs st = (alias, st1)"
  shows "utf8_Valid (bytes_of_string alias)"
    and "jks_inv lib format data st p \<Longrightarrow> jks_inv lib format data st1 p"
proof -
  have rep: "utf8_Valid (replacement_character @ cs) = utf8_Valid cs" for cs
    using utf8_Valid_encode_append [where r = "0x110000" and cs = cs]
    by (simp add: utf8_encode_def replacement_character_def)
  show "utf8_Valid (bytes_of_string alias)"
    using assms decodeJavaModifiedUTF8_valid utf8_Valid_to_valid [OF rep]
    by (auto simp: jks_alias_def split: sum.splits)
  show "jks_inv lib format data st p \<Longrightarrow> jks_inv lib format data st1 p"
    using assms by (auto simp: jks_alias_def jks_inv_def split: sum.splits)
qed

lemma trustedEntry_inv:
  assumes "jks_trustedEntry lib version format alias i st (rd_at p q) = ((e, st'), rd_at p' q')"
    and "jks_inv lib format (p @ q) st p" and "utf8_Valid (bytes_of_string alias)"
  shows "jks_inv lib format (p @ q) st' p'"
proof -
  have "jks_inv lib format (p @ q) (st\<lparr>js_trustedEntries := js_trustedEntries st + 1\<rparr>) p"
    using assms(2) by (simp add: jks_inv_def)
  with assms show ?thesis
    by (auto simp: jks_trustedEntry_def Let_def split: prod.splits dest!: addCertificate_inv)
qed

lemma privateKeyEntry_inv:
  assumes "jks_privateKeyEntry lib version format alias i st (rd_at p q) = ((e, st'), rd_at p' q')"
    and "jks_inv lib format (p @ q) st p" and "utf8_Valid (bytes_of_string alias)"
  shows "jks_inv lib format (p @ q) st' p'"
proof -
  let ?st = "st\<lparr>js_privateKeyEntries := js_privateKeyEntries st + 1\<rparr>"
  have inv: "jks_inv lib format (p @ q) ?st p" using assms(2) by (auto simp: jks_inv_def)
  have stop: ?thesis if "st' = ?st"
  proof -
    from cursor.forward [OF cursor_privateKeyEntry assms(1)] have "length p \<le> length p'"
      by (simp add: rd_at_def)
    with inv that show ?thesis by (auto intro: jks_inv_mono)
  qed
  obtain v1 r1 where 1: "reader_uint32 (rd_at p q) = (v1, r1)" by (metis surj_pair)
  then obtain a1 q1 where r1: "q = a1 @ q1" "r1 = rd_at (p @ a1) q1" by (rule uint32_c.stepE)
  show ?thesis
  proof (cases v1)
    case (Inl e)
    with assms(1) 1 show ?thesis by (intro stop) (auto simp: jks_privateKeyEntry_def)
  next
    case (Inr n)
    obtain v2 r2 where 2: "reader_skipUint32 n r1 = (v2, r2)" by (metis surj_pair)
    then obtain a2 q2 where r2: "q1 = a2 @ q2" "r2 = rd_at ((p @ a1) @ a2) q2"
      unfolding r1 by (rule skipUint32_c.stepE)
    obtain v3 r3 where 3: "reader_uint32 r2 = (v3, r3)" by (metis surj_pair)
    then obtain a3 q3 where r3: "q2 = a3 @ q3" "r3 = rd_at (((p @ a1) @ a2) @ a3) q3"
      unfolding r2 by (rule uint32_c.stepE)
    show ?thesis
    proof (cases "is_Inr v2 \<and> is_Inr v3")
      case False
      with assms(1) 1 2 3 Inr show ?thesis
        by (intro stop) (cases v2; cases v3; simp add: jks_privateKeyEntry_def)
    next
      case True
      then obtain m where chain: "jks_chain lib version format alias i 0 m ?st r3 = ((e, st'), rd_at p' q')"
        using assms(1) 1 2 3 Inr by (cases v2; cases v3) (auto simp: jks_privateKeyEntry_def)
      have "jks_inv lib format (p @ q) ?st (((p @ a1) @ a2) @ a3)"
        using inv by (rule jks_inv_mono) simp
      with chain_inv [OF chain [unfolded r3]] show ?thesis
        using assms(3) by (simp add: r1 r2 r3)
    qed
  qed
qed

lemma entry_inv:
  assumes "jks_entry lib version format i st (rd_at p q) = ((e, st'), rd_at p' q')"
    and inv: "jks_inv lib format (p @ q) st p"
  shows "jks_inv lib format (p @ q) st' p'"
proof -
  have fwd: "length p \<le> length p'"
    using cursor.forward [OF cursor_entry assms(1)] by (simp add: rd_at_def)
  obtain v1 r1 where 1: "jks_entryHeader i (rd_at p q) = (v1, r1)" by (metis surj_pair)
  then obtain a1 q1 where r1: "q = a1 @ q1" "r1 = rd_at (p @ a1) q1"
    by (rule cursor.stepE [OF cursor_entryHeader])
  show ?thesis
  proof (cases v1)
    case (Inl e1)
    with assms 1 fwd show ?thesis by (auto simp: jks_entry_def intro: jks_inv_mono)
  next
    case (Inr x)
    then obtain tag bs where v1: "v1 = Inr (tag, bs)" by (cases x) simp
    obtain ali st1 where al: "jks_alias i bs st = (ali, st1)" by (metis surj_pair)
    have inv1: "jks_inv lib format (p @ q) st1 z" if "length p \<le> length z" for z
      using alias_valid(2) [OF al inv] that by (rule jks_inv_mono)
    obtain v2 r2 where 2: "reader_skip 8 r1 = (v2, r2)" by (metis surj_pair)
    then obtain a2 q2 where r2: "q1 = a2 @ q2" "r2 = rd_at ((p @ a1) @ a2) q2"
      unfolding r1 by (rule skip_c.stepE)
    have data: "((p @ a1) @ a2) @ q2 = p @ q" by (simp add: r1 r2)
    have inv2: "jks_inv lib format (((p @ a1) @ a2) @ q2) st1 ((p @ a1) @ a2)"
      unfolding data by (rule inv1) simp
    note sub = privateKeyEntry_inv [OF _ inv2 alias_valid(1) [OF al], unfolded data]
      trustedEntry_inv [OF _ inv2 alias_valid(1) [OF al], unfolded data]
    show ?thesis
      using assms(1) 1 v1 al 2 r2 inv1 [OF fwd] sub
      by (cases v2) (auto simp: jks_entry_def split: if_splits)
  qed
qed

lemma entries_inv:
  assumes "jks_entries lib version format i n st (rd_at p q) = ((e, st'), rd_at p' q')"
    and "jks_inv lib format (p @ q) st p"
  shows "jks_inv lib format (p @ q) st' p'"
  using assms
proof (induction n arbitrary: i st p q)
  case 0
  then show ?case by (simp add: rd_at_eq_iff)
next
  case (Suc n)
  obtain e1 st1 r1 where 1: "jks_entry lib version format i st (rd_at p q) = ((e1, st1), r1)"
    by (metis surj_pair)
  then obtain a b where ab: "q = a @ b" "r1 = rd_at (p @ a) b"
    by (rule cursor.stepE [OF cursor_entry])
  have inv: "jks_inv lib format (p @ q) st1 (p @ a)"
    using entry_inv [OF 1 [unfolded ab(2)] Suc.prems(2)] .
  show ?case
  proof (cases e1)
    case None
    with Suc.prems(1) 1 ab have "jks_entries lib version format (i + 1) n st1 (rd_at (p @ a) b) =
        ((e, st'), rd_at p' q')" by simp
    from Suc.IH [OF this] inv ab show ?thesis by simp
  next
    case (Some e2)
    with Suc.prems(1) 1 ab inv show ?thesis by (auto simp: rd_at_eq_iff)
  qed
qed

lemma sublist_take_data: "sublist x (take n data) \<Longrightarrow> sublist x data"
  by (meson sublist_order.order.trans sublist_take)

lemma jks_entry_wf_take:
  "jks_entry_wf lib format (take n data) c \<Longrightarrow> jks_entry_wf lib format data c"
  by (auto simp: jks_entry_wf_def intro: sublist_take_data)

lemma jks_inv_take:
  "jks_inv lib format (take n data) st p \<Longrightarrow> jks_inv lib format data st p"
  unfolding jks_inv_def by (blast dest: jks_entry_wf_take)

text \<open>Every result is the certificates of a state that satisfies the invariant.\<close>

lemma parse_inv:
  assumes "parseJavaKeystore lib data = (certs, err)" and "certs \<noteq> []"
  obtains format st t where "detectJavaKeystore data = Some format"
    "jks_inv lib format data st data" "certs = map (jks_setTruststore t) (js_certificates st)"
    "t \<Longrightarrow> js_privateKeyEntries st = 0"
proof -
  let ?body = "take (length data - 20) data"
  obtain format where f: "detectJavaKeystore data = Some format" "32 \<le> length data"
    using assms by (auto simp: parseJavaKeystore_def minimumJavaKeystoreFileBytes_def
        javaKeystoreMACSize_def not_less split: option.splits if_splits)
  have start: "\<lparr>jr_data = ?body, jr_offset = 0\<rparr> = rd_at [] ?body"
    by (simp add: rd_at_def)
  obtain x r where hd: "jks_header format (rd_at [] ?body) = (x, r)" by (metis surj_pair)
  with assms f start obtain version count where x: "x = Inr (version, count)"
    by (cases x) (auto simp: parseJavaKeystore_def minimumJavaKeystoreFileBytes_def
        javaKeystoreMACSize_def)
  from hd obtain h b where hb: "?body = h @ b" "r = rd_at h b"
    by (rule header_c.stepE) simp
  obtain e st r' where es: "jks_entries lib version format 0 (unat count) jks_initial (rd_at h b)
      = ((e, st), r')" by (metis surj_pair)
  from cursor.stepE [OF cursor_entries es] obtain a c where ac: "b = a @ c" "r' = rd_at (h @ a) c"
    by blast
  have "jks_inv lib format (h @ b) jks_initial h" by (simp add: jks_inv_def jks_initial_def)
  from entries_inv [OF es [unfolded ac(2)] this] have "jks_inv lib format ?body st (h @ a)"
    using hb by simp
  moreover have "length (h @ a) \<le> length data"
    using arg_cong [OF hb(1), of length] ac by simp
  ultimately have inv: "jks_inv lib format data st data"
    by (blast intro: jks_inv_mono jks_inv_take)
  have plain: "map (jks_setTruststore False) (js_certificates st) = js_certificates st"
    using inv by (intro map_idI) (simp add: jks_setTruststore_def jks_inv_def)
  have res: "certs = js_certificates st \<or> (certs, err) = jks_finish format st"
    using assms(1) f start hd x hb(2) es
    by (cases e) (simp_all add: parseJavaKeystore_def minimumJavaKeystoreFileBytes_def
        javaKeystoreMACSize_def split: if_splits)
  from res show thesis
  proof
    assume "certs = js_certificates st"
    then show thesis using that [OF f(1) inv, of False] plain by simp
  next
    assume "(certs, err) = jks_finish format st"
    then have "certs = map (jks_setTruststore
        (js_privateKeyEntries st = 0 \<and> js_trustedEntries st > 0)) (js_certificates st)"
      by (simp add: jks_finish_def Let_def)
    then show thesis by (rule that [OF f(1) inv]) simp
  qed
qed

text \<open>
  C39: every certificate reported for a Java keystore was parsed from bytes of the file, names
  the detected format, has an alias that is valid UTF-8 (whatever bytes the store holds),
  one of the two entry types, and a chain index that is 0 for a trusted entry.
\<close>

theorem jks_reported_entries_wf:
  assumes "c \<in> set (fst (parseJavaKeystore lib data))"
  shows "\<exists>format. detectJavaKeystore data = Some format \<and> jks_entry_wf lib format data c"
proof -
  obtain certs err where p: "parseJavaKeystore lib data = (certs, err)" by (metis surj_pair)
  with assms have "certs \<noteq> []" by auto
  from parse_inv [OF p this] obtain format st t where *: "detectJavaKeystore data = Some format"
    "jks_inv lib format data st data" "certs = map (jks_setTruststore t) (js_certificates st)"
    by metis
  with assms p obtain c0 where "c0 \<in> set (js_certificates st)" "c = jks_setTruststore t c0"
    by auto
  with * show ?thesis
    by (auto simp: jks_inv_def jks_entry_wf_def keystore_wf_def jks_setTruststore_def)
qed

text \<open>
  C29: a certificate is marked as part of a truststore only when no certificate of the file
  belongs to a private-key entry, and then all certificates of the file are marked.
\<close>

theorem jks_truststore_sound:
  assumes "c \<in> set (fst (parseJavaKeystore lib data))" and "ks_Truststore (jc_keystore c)"
    and "c' \<in> set (fst (parseJavaKeystore lib data))"
  shows "ks_Truststore (jc_keystore c') \<and> ks_EntryType (jc_keystore c') = ''trustedCertEntry''"
proof -
  obtain certs err where p: "parseJavaKeystore lib data = (certs, err)" by (metis surj_pair)
  with assms have "certs \<noteq> []" by auto
  from parse_inv [OF p this] obtain format st t where *: "jks_inv lib format data st data"
    "certs = map (jks_setTruststore t) (js_certificates st)" "t \<Longrightarrow> js_privateKeyEntries st = 0"
    by metis
  with assms p have t: t "js_privateKeyEntries st = 0"
    by (auto simp: jks_inv_def jks_setTruststore_def)
  with * assms(3) p show ?thesis
    by (auto simp: jks_inv_def jks_entry_wf_def keystore_wf_def jks_setTruststore_def)
qed

text \<open>
  A file of \<open>n\<close> bytes yields at most \<open>n div 4\<close> certificates, whatever entry and chain
  counts its header and its entries announce.
\<close>

theorem jks_certificate_count:
  "4 * length (fst (parseJavaKeystore lib data)) \<le> length data"
proof (cases "fst (parseJavaKeystore lib data) = []")
  case False
  obtain certs err where p: "parseJavaKeystore lib data = (certs, err)" by (metis surj_pair)
  with False have "certs \<noteq> []" by auto
  from parse_inv [OF p this] obtain format st t where "jks_inv lib format data st data"
    "certs = map (jks_setTruststore t) (js_certificates st)"
    by metis
  with p show ?thesis by (simp add: jks_inv_def)
qed simp

section \<open>Witnesses\<close>

text \<open>
  A version 1 store with two trusted certificates, an empty MAC of zeros, and one whose single
  private-key entry has a chain of one certificate.
\<close>

definition sample_mac :: bytes where
  "sample_mac = replicate 20 0"

definition sample_trusted_body :: bytes where
  "sample_trusted_body =
     [0xfe, 0xed, 0xfe, 0xed, 0, 0, 0, 1, 0, 0, 0, 2,
      0, 0, 0, 2, 0, 1, 97, 0, 0, 0, 0, 0, 0, 0, 0, 0, 0, 0, 1, 7,
      0, 0, 0, 2, 0, 1, 98, 0, 0, 0, 0, 0, 0, 0, 0, 0, 0, 0, 2, 8, 9]"

definition sample_trusted_certificate :: java_keystore_certificate where
  "sample_trusted_certificate = \<lparr>jc_certificate = Some (sample_cert [7]),
     jc_keystore = \<lparr>ks_Format = ''JKS'', ks_Alias = ''a'', ks_FriendlyName = [],
       ks_EntryType = ''trustedCertEntry'', ks_ChainIndex = 0, ks_Truststore = True\<rparr>\<rparr>"

lemma sample_trusted_store:
  "parseJavaKeystore sample_lib (sample_trusted_body @ sample_mac) =
     ([sample_trusted_certificate, sample_trusted_certificate
        \<lparr>jc_certificate := Some (sample_cert [8, 9]),
         jc_keystore := (jc_keystore sample_trusted_certificate)\<lparr>ks_Alias := ''b''\<rparr>\<rparr>], None)"
  by code_simp

theorem jks_clean_prefix_free_witness:
  "snd (parseJavaKeystore sample_lib ((sample_trusted_body @ sample_mac) @ [0])) \<noteq> None"
  using jks_clean_prefix_free [of sample_lib "sample_trusted_body @ sample_mac" "[0]"]
  by (auto simp: sample_trusted_store)

theorem jks_mac_irrelevant_witness:
  "parseJavaKeystore sample_lib (sample_trusted_body @ sample_mac) =
   parseJavaKeystore sample_lib (sample_trusted_body @ replicate 20 255)"
  by (rule jks_mac_irrelevant) (simp_all add: sample_mac_def sample_trusted_body_def)

theorem jks_reported_entries_wf_witness:
  "\<exists>format. detectJavaKeystore (sample_trusted_body @ sample_mac) = Some format \<and>
     jks_entry_wf sample_lib format (sample_trusted_body @ sample_mac) sample_trusted_certificate"
  by (rule jks_reported_entries_wf) (simp add: sample_trusted_store)

theorem jks_truststore_sound_witness:
  "ks_Truststore (jc_keystore sample_trusted_certificate) \<and>
   ks_EntryType (jc_keystore sample_trusted_certificate) = ''trustedCertEntry''"
  by (rule jks_truststore_sound [of sample_trusted_certificate sample_lib
        "sample_trusted_body @ sample_mac"])
    (simp_all add: sample_trusted_store, simp add: sample_trusted_certificate_def)

end
