(* ===== verification/JksStore.thy ===== *)
theory JksStore
  imports Jks
begin

text \<open>
  What the Java keystore parser is for: a store as an abstract list of entries, the bytes that
  the JKS/JCEKS file format gives it, and the theorem that the parser recovers the entries. The
  encoder is the specification; nothing of it is in the source.
\<close>

section \<open>Stores and their file format\<close>

text \<open>
  An entry has an alias, a creation date of 8 bytes, and either a private-key blob with a
  certificate chain, or one trusted certificate. A certificate is given with its DER bytes.
\<close>

datatype store_entry =
    PrivateEntry "rune list" bytes bytes "(bytes \<times> x509_cert) list"
  | TrustedEntry "rune list" bytes "bytes \<times> x509_cert"

definition lp16 :: "bytes \<Rightarrow> bytes" where
  "lp16 bs = be_bytes 2 (length bs) @ bs"

definition lp32 :: "bytes \<Rightarrow> bytes" where
  "lp32 bs = be_bytes 4 (length bs) @ bs"

definition x509_type_runes :: "rune list" where
  "x509_type_runes = [88, 46, 53, 48, 57]"

definition certificate_type_bytes :: "nat \<Rightarrow> bytes" where
  "certificate_type_bytes version = (if version = 2 then lp16 (java_encode x509_type_runes) else [])"

definition certificate_bytes :: "nat \<Rightarrow> bytes \<times> x509_cert \<Rightarrow> bytes" where
  "certificate_bytes version c =
     certificate_type_bytes version @ lp32 (fst c)"

fun entry_bytes :: "nat \<Rightarrow> store_entry \<Rightarrow> bytes" where
  "entry_bytes version (PrivateEntry al date key chain) =
     be_bytes 4 1 @ lp16 (java_encode al) @ date @ lp32 key @ be_bytes 4 (length chain) @
     concat (map (certificate_bytes version) chain)"
| "entry_bytes version (TrustedEntry al date c) =
     be_bytes 4 2 @ lp16 (java_encode al) @ date @ certificate_bytes version c"

definition store_bytes :: "bool \<Rightarrow> nat \<Rightarrow> store_entry list \<Rightarrow> bytes \<Rightarrow> bytes" where
  "store_bytes jceks version es mac =
     be_bytes 4 (if jceks then 0xcececece else 0xfeedfeed) @ be_bytes 4 version @
     be_bytes 4 (length es) @ concat (map (entry_bytes version) es) @ mac"

text \<open>The fields fit their length prefixes, and the X.509 parser accepts the certificates.\<close>

definition certificate_fits :: "x509_lib \<Rightarrow> bytes \<times> x509_cert \<Rightarrow> bool" where
  "certificate_fits lib c \<longleftrightarrow> length (fst c) < 2 ^ 32 \<and> ParseCertificate lib (fst c) = Inr (snd c)"

definition alias_fits :: "rune list \<Rightarrow> bool" where
  "alias_fits al \<longleftrightarrow> list_all is_scalar al \<and> length (java_encode al) < 2 ^ 16"

fun entry_fits :: "x509_lib \<Rightarrow> store_entry \<Rightarrow> bool" where
  "entry_fits lib (PrivateEntry al date key chain) =
     (alias_fits al \<and> length date = 8 \<and> length key < 2 ^ 32 \<and> length chain < 2 ^ 32 \<and>
      list_all (certificate_fits lib) chain)"
| "entry_fits lib (TrustedEntry al date c) =
     (alias_fits al \<and> length date = 8 \<and> certificate_fits lib c)"

text \<open>What the parser is to report for an entry.\<close>

definition reported :: "string \<Rightarrow> string \<Rightarrow> rune list \<Rightarrow> bool \<Rightarrow> nat \<Rightarrow> x509_cert \<Rightarrow> java_keystore_certificate" where
  "reported format kind al truststore i x =
     \<lparr>jc_certificate = Some x,
      jc_keystore = \<lparr>ks_Format = format, ks_Alias = string_of_runes al, ks_FriendlyName = [],
        ks_EntryType = kind, ks_ChainIndex = int i, ks_Truststore = truststore\<rparr>\<rparr>"

fun reported_chain :: "string \<Rightarrow> rune list \<Rightarrow> bool \<Rightarrow> nat \<Rightarrow> (bytes \<times> x509_cert) list \<Rightarrow>
    java_keystore_certificate list" where
  "reported_chain format al t i [] = []"
| "reported_chain format al t i (c # cs) =
     reported format ''PrivateKeyEntry'' al t i (snd c) # reported_chain format al t (i + 1) cs"

fun reported_entry :: "string \<Rightarrow> bool \<Rightarrow> store_entry \<Rightarrow> java_keystore_certificate list" where
  "reported_entry format t (PrivateEntry al date key chain) = reported_chain format al t 0 chain"
| "reported_entry format t (TrustedEntry al date c) =
     [reported format ''trustedCertEntry'' al t 0 (snd c)]"

fun is_private :: "store_entry \<Rightarrow> bool" where
  "is_private (PrivateEntry _ _ _ _) = True"
| "is_private (TrustedEntry _ _ _) = False"

definition store_format :: "bool \<Rightarrow> string" where
  "store_format jceks = (if jceks then ''JCEKS'' else ''JKS'')"

section \<open>Each reader operation on the bytes it expects\<close>

lemma uint32_at:
  assumes "v < 2 ^ 32"
  shows "reader_uint32 (rd_at p (be_bytes 4 v @ q)) = (Inr (word_of_nat v), rd_at (p @ be_bytes 4 v) q)"
proof -
  have "unat (be_word (be_bytes 4 v) :: 32 word) = v"
    using assms by (simp add: unat_be_word)
  moreover have "word_of_nat (unat (be_word (be_bytes 4 v) :: 32 word)) = (be_word (be_bytes 4 v) :: 32 word)"
    by simp
  ultimately have "be_word (be_bytes 4 v) = (word_of_nat v :: 32 word)" by simp
  moreover have "reader_take 4 (rd_at p (be_bytes 4 v @ q)) = (Inr (be_bytes 4 v), rd_at (p @ be_bytes 4 v) q)"
    using reader_take_at [of "be_bytes 4 v" p q] by simp
  ultimately show ?thesis
    by (simp add: reader_uint32_def rd_bind_def)
qed

lemma lp16_at:
  assumes "length bs < 2 ^ 16"
  shows "reader_lengthPrefixedUint16 (rd_at p (lp16 bs @ q)) = (Inr bs, rd_at (p @ lp16 bs) q)"
proof -
  have "uint (be_word (be_bytes 2 (length bs)) :: 16 word) = int (length bs)"
    using assms by (simp add: uint_nat unat_be_word)
  moreover have "reader_take 2 (rd_at p (be_bytes 2 (length bs) @ bs @ q)) =
      (Inr (be_bytes 2 (length bs)), rd_at (p @ be_bytes 2 (length bs)) (bs @ q))"
    using reader_take_at [of "be_bytes 2 (length bs)" p "bs @ q"] by simp
  ultimately show ?thesis
    by (simp add: reader_lengthPrefixedUint16_def rd_bind_def lp16_def)
qed

lemma takeUint32_at:
  assumes "length bs < 2 ^ 32"
  shows "reader_takeUint32 (word_of_nat (length bs)) (rd_at p (bs @ q)) = (Inr bs, rd_at (p @ bs) q)"
proof -
  have "uint (word_of_nat (length bs) :: 32 word) = int (length bs)"
    using assms by (simp add: uint_nat unat_of_nat)
  then show ?thesis
    by (simp add: reader_takeUint32_eq)
qed

lemma skip_at:
  "int (length bs) = n \<Longrightarrow> reader_skip n (rd_at p (bs @ q)) = (Inr (), rd_at (p @ bs) q)"
  by (auto simp: reader_skip_def rd_bind_def)

lemma x509_type: "list_all is_scalar x509_type_runes" "length (java_encode x509_type_runes) < 2 ^ 16"
    "string_of_runes x509_type_runes = ''X.509''"
  by code_simp+

lemma certificateType_at:
  assumes "version = 1 \<or> version = 2"
  shows "reader_certificateType (word_of_nat version) (rd_at p (certificate_type_bytes version @ q)) =
    (Inr ''X.509'', rd_at (p @ certificate_type_bytes version) q)"
  using assms
proof
  assume "version = 1"
  then show ?thesis
    by (simp add: reader_certificateType_def certificate_type_bytes_def javaKeystoreCertificateType_def)
next
  assume "version = 2"
  then show ?thesis
    using lp16_at [OF x509_type(2), of p q] x509_type
    by (simp add: reader_certificateType_def certificate_type_bytes_def
        decodeJavaModifiedUTF8_encode)
qed

lemma certificate_at:
  assumes "certificate_fits lib c" and "version = 1 \<or> version = 2"
  shows "reader_certificate lib (word_of_nat version) ks (rd_at p (certificate_bytes version c @ q)) =
    ((Some \<lparr>jc_certificate = Some (snd c), jc_keystore = ks\<rparr>, None),
     rd_at (p @ certificate_bytes version c) q)"
proof -
  have fits: "length (fst c) < 2 ^ 32" "ParseCertificate lib (fst c) = Inr (snd c)"
    using assms(1) by (simp_all add: certificate_fits_def)
  show ?thesis
    by (simp add: reader_certificate_def certificate_bytes_def certificateType_at [OF assms(2)]
        lp32_def uint32_at [OF fits(1)] takeUint32_at [OF fits(1)] fits(2)
        javaKeystoreCertificateType_def strings_EqualFold_def)
qed

section \<open>The loops on the entries they expect\<close>

abbreviation add_certificates :: "java_keystore_certificate list \<Rightarrow> jks_state \<Rightarrow> jks_state" where
  "add_certificates cs st \<equiv> st\<lparr>js_certificates := js_certificates st @ cs\<rparr>"

lemma addCertificate_parsed:
  "jks_addCertificate w (Some \<lparr>jc_certificate = Some x, jc_keystore = ks\<rparr>, None) st =
     (None, add_certificates [\<lparr>jc_certificate = Some x, jc_keystore = ks\<rparr>] st)"
  by (simp add: jks_addCertificate_def Let_def)

lemma chain_at:
  assumes "list_all (certificate_fits lib) chain" and "version = 1 \<or> version = 2"
  shows "jks_chain lib (word_of_nat version) format (string_of_runes al) i j (length chain) st
      (rd_at p (concat (map (certificate_bytes version) chain) @ q)) =
    ((None, add_certificates (reported_chain format al False j chain) st),
     rd_at (p @ concat (map (certificate_bytes version) chain)) q)"
  using assms(1)
proof (induction chain arbitrary: j st p)
  case Nil
  then show ?case by simp
next
  case (Cons c chain)
  then have "certificate_fits lib c" by simp
  note at = certificate_at [OF this assms(2)]
  from Cons show ?case
    by (simp add: at addCertificate_parsed reported_def)
qed

lemma entryHeader_at:
  assumes "tag < 2 ^ 32" and "length bs < 2 ^ 16"
  shows "jks_entryHeader i (rd_at p (be_bytes 4 tag @ lp16 bs @ q)) =
    (Inr (word_of_nat tag, bs), rd_at (p @ be_bytes 4 tag @ lp16 bs) q)"
  by (simp add: jks_entryHeader_def uint32_at [OF assms(1)] lp16_at [OF assms(2)])

definition count_entry :: "store_entry \<Rightarrow> jks_state \<Rightarrow> jks_state" where
  "count_entry e st = (if is_private e then st\<lparr>js_privateKeyEntries := js_privateKeyEntries st + 1\<rparr>
     else st\<lparr>js_trustedEntries := js_trustedEntries st + 1\<rparr>)"

lemma entry_at:
  assumes "entry_fits lib e" and "version = 1 \<or> version = 2"
  shows "jks_entry lib (word_of_nat version) format i st (rd_at p (entry_bytes version e @ q)) =
    ((None, add_certificates (reported_entry format False e) (count_entry e st)),
     rd_at (p @ entry_bytes version e) q)"
proof (cases e)
  case (PrivateEntry al date key chain)
  with assms have al: "list_all is_scalar al" "length (java_encode al) < 2 ^ 16" and date: "length date = 8"
    and key: "length key < 2 ^ 32" and n: "length chain < 2 ^ 32" and c: "list_all (certificate_fits lib) chain"
    by (simp_all add: alias_fits_def)
  have "unat (word_of_nat (length chain) :: 32 word) = length chain"
    using n by (simp add: unat_of_nat)
  then show ?thesis
    by (simp add: PrivateEntry jks_entry_def entryHeader_at [OF _ al(2), of 1, simplified] jks_alias_def
        decodeJavaModifiedUTF8_encode al skip_at date keystoreTagPrivateKey_def jks_privateKeyEntry_def
        lp32_def uint32_at [OF key] uint32_at [OF n] reader_skipUint32_def rd_bind_def
        takeUint32_at [OF key] chain_at [OF c assms(2)] count_entry_def)
next
  case (TrustedEntry al date c)
  with assms have al: "list_all is_scalar al" "length (java_encode al) < 2 ^ 16" and date: "length date = 8"
    and c: "certificate_fits lib c"
    by (simp_all add: alias_fits_def)
  show ?thesis
    by (simp add: TrustedEntry jks_entry_def entryHeader_at [OF _ al(2), of 2, simplified] jks_alias_def
        decodeJavaModifiedUTF8_encode al skip_at date keystoreTagPrivateKey_def keystoreTagTrusted_def
        jks_trustedEntry_def certificate_at [OF c assms(2)] addCertificate_parsed reported_def
        count_entry_def)
qed

lemma count_add_commute:
  "count_entry e (add_certificates cs st) = add_certificates cs (count_entry e st)"
  by (simp add: count_entry_def)

fun count_entries :: "store_entry list \<Rightarrow> jks_state \<Rightarrow> jks_state" where
  "count_entries [] st = st"
| "count_entries (e # es) st = count_entries es (count_entry e st)"

lemma count_entries_simps [simp]:
  "js_certificates (count_entries es st) = js_certificates st"
  "js_parseErrors (count_entries es st) = js_parseErrors st"
  "js_privateKeyEntries (count_entries es st) = js_privateKeyEntries st + length (filter is_private es)"
  "js_trustedEntries (count_entries es st) = js_trustedEntries st + length (filter (Not \<circ> is_private) es)"
  by (induction es arbitrary: st) (simp_all add: count_entry_def)

lemma count_entries_add:
  "count_entries es (add_certificates cs st) = add_certificates cs (count_entries es st)"
  by (induction es arbitrary: st) (simp_all add: count_add_commute)

lemma entries_at:
  assumes "list_all (entry_fits lib) es" and "version = 1 \<or> version = 2"
  shows "jks_entries lib (word_of_nat version) format i (length es) st
      (rd_at p (concat (map (entry_bytes version) es) @ q)) =
    ((None, add_certificates (concat (map (reported_entry format False) es)) (count_entries es st)),
     rd_at (p @ concat (map (entry_bytes version) es)) q)"
  using assms(1)
proof (induction es arbitrary: i st p)
  case Nil
  then show ?case by simp
next
  case (Cons e es)
  then have "entry_fits lib e" by simp
  note at = entry_at [OF this assms(2)]
  from Cons show ?case
    by (simp add: at count_entries_add)
qed

lemma setTruststore_reported:
  "map (jks_setTruststore t) (reported_chain format al f i chain) = reported_chain format al t i chain"
  "map (jks_setTruststore t) (reported_entry format f e) = reported_entry format t e"
proof -
  show c: "map (jks_setTruststore t) (reported_chain format al f i chain) = reported_chain format al t i chain"
    for al i chain
    by (induction chain arbitrary: i) (simp_all add: reported_def jks_setTruststore_def)
  show "map (jks_setTruststore t) (reported_entry format f e) = reported_entry format t e"
    by (cases e) (simp_all add: c, simp add: reported_def jks_setTruststore_def)
qed

text \<open>The entries without a certificate, whatever the flag says.\<close>

fun chainless :: "store_entry \<Rightarrow> bool" where
  "chainless (PrivateEntry al date key chain) = (chain = [])"
| "chainless (TrustedEntry al date c) = False"

lemma reported_Nil [simp]:
  "reported_chain format al t i chain = [] \<longleftrightarrow> chain = []"
  "reported_entry format t e = [] \<longleftrightarrow> chainless e"
proof -
  show c: "reported_chain format al t i chain = [] \<longleftrightarrow> chain = []" for al t i chain
    by (cases chain) simp_all
  show "reported_entry format t e = [] \<longleftrightarrow> chainless e"
    by (cases e) (simp_all add: c)
qed

section \<open>The round trip\<close>

definition store_fits :: "x509_lib \<Rightarrow> nat \<Rightarrow> store_entry list \<Rightarrow> bytes \<Rightarrow> bool" where
  "store_fits lib version es mac \<longleftrightarrow>
     (version = 1 \<or> version = 2) \<and> es \<noteq> [] \<and> length es < 2 ^ 32 \<and> length mac = 20 \<and>
     list_all (entry_fits lib) es"

definition store_is_truststore :: "store_entry list \<Rightarrow> bool" where
  "store_is_truststore es \<longleftrightarrow> list_all (Not \<circ> is_private) es"

lemma magic_words:
  "(be_word (be_bytes 4 0xcececece) :: 32 word) = jceksMagic"
  "(be_word (be_bytes 4 0xfeedfeed) :: 32 word) = jksMagic"
  by code_simp+

abbreviation magic_bytes :: "bool \<Rightarrow> bytes" where
  "magic_bytes jceks \<equiv> be_bytes 4 (if jceks then 0xcececece else 0xfeedfeed)"

lemma count_word:
  assumes "es \<noteq> []" and "length es < 2 ^ 32"
  shows "unat (word_of_nat (length es) :: 32 word) = length es" "(word_of_nat (length es) :: 32 word) \<noteq> 0"
proof -
  show count: "unat (word_of_nat (length es) :: 32 word) = length es"
    using assms(2) by (simp add: unat_of_nat)
  then show "(word_of_nat (length es) :: 32 word) \<noteq> 0"
    using assms(1) by (metis length_0_conv unat_0)
qed

lemma store_detected: "detectJavaKeystore (magic_bytes jceks @ rest) = Some (store_format jceks)"
proof -
  have "(be_word (magic_bytes jceks) :: 32 word) = (if jceks then jceksMagic else jksMagic)"
    by (simp add: magic_words)
  then show ?thesis by (simp add: detectJavaKeystore_def store_format_def jksMagic_def jceksMagic_def)
qed

lemma store_header_read:
  assumes "version = 1 \<or> version = 2" and "es \<noteq> []" and "length es < 2 ^ 32"
  shows "jks_header (store_format jceks) (rd_at [] (magic_bytes jceks @ be_bytes 4 version @ be_bytes 4 (length es) @ rest)) =
    (Inr (word_of_nat version, word_of_nat (length es)),
     rd_at (magic_bytes jceks @ be_bytes 4 version @ be_bytes 4 (length es)) rest)"
proof -
  have magic: "(if jceks then 0xcececece else 0xfeedfeed) < (2::nat) ^ 32" and v: "version < 2 ^ 32"
    using assms(1) by auto
  show ?thesis
    using assms(1) count_word(2) [OF assms(2,3)]
    by (auto simp: jks_header_def uint32_at [OF magic] uint32_at [OF v] uint32_at [OF assms(3)])
qed

text \<open>
  C3: parsing the bytes of a store gives back its certificates, in order, each with its alias,
  entry type and chain index, all marked as a truststore exactly when no entry is a
  private-key entry, and no error when there is a certificate at all. The bytes of the key
  blobs, the dates and the MAC do not matter.
\<close>

theorem jks_roundtrip:
  assumes "store_fits lib version es mac"
    and "certs = concat (map (reported_entry (store_format jceks) (store_is_truststore es)) es)"
  shows "parseJavaKeystore lib (store_bytes jceks version es mac) =
    (certs, if certs = [] then Some (ErrJoin [Errorf ''%s contains no X.509 certificates''
       [AStr (store_format jceks)]]) else None)"
proof -
  let ?entries = "concat (map (entry_bytes version) es)"
  let ?header = "magic_bytes jceks @ be_bytes 4 version @ be_bytes 4 (length es)"
  let ?body = "magic_bytes jceks @ be_bytes 4 version @ be_bytes 4 (length es) @ ?entries"
  let ?format = "store_format jceks"
  have fits: "version = 1 \<or> version = 2" "es \<noteq> []" "length es < 2 ^ 32" "length mac = 20"
    "list_all (entry_fits lib) es"
    using assms(1) by (simp_all add: store_fits_def)
  have bytes: "store_bytes jceks version es mac = ?body @ mac"
    by (simp add: store_bytes_def)
  have det: "detectJavaKeystore (?body @ mac) = Some ?format"
    using store_detected [of jceks "be_bytes 4 version @ be_bytes 4 (length es) @ ?entries @ mac"] by simp
  have start: "\<lparr>jr_data = ?body, jr_offset = 0\<rparr> = rd_at [] ?body"
    by (simp add: rd_at_def)
  note hd = store_header_read [OF fits(1-3), of jceks ?entries]
  note count = count_word(1) [OF fits(2,3)]
  have "jks_entries lib (word_of_nat version) ?format 0 (unat (word_of_nat (length es) :: 32 word)) jks_initial
      (rd_at ?header (?entries @ [])) =
    ((None, add_certificates (concat (map (reported_entry ?format False) es)) (count_entries es jks_initial)),
     rd_at (?header @ ?entries) [])"
    unfolding count by (rule entries_at [OF fits(5,1)])
  then have "parseJavaKeystore lib (?body @ mac) = jks_finish ?format
      (add_certificates (concat (map (reported_entry ?format False) es)) (count_entries es jks_initial))"
    using det start hd fits(4)
    by (simp add: parseJavaKeystore_def minimumJavaKeystoreFileBytes_def javaKeystoreMACSize_def)
  moreover have "(js_privateKeyEntries (count_entries es jks_initial) = 0 \<and>
      0 < js_trustedEntries (count_entries es jks_initial)) = store_is_truststore es"
    using fits(2)
    by (cases es) (auto simp: jks_initial_def store_is_truststore_def filter_empty_conv list_all_iff
        count_entry_def)
  ultimately show ?thesis
    unfolding bytes assms(2)
    by (simp add: jks_finish_def jks_initial_def map_concat setTruststore_reported comp_def errors_Join_def)
qed

text \<open>A JCEKS store of version 2 with a private-key entry and a trusted certificate.\<close>

definition sample_entries :: "store_entry list" where
  "sample_entries = [PrivateEntry [97, 0xE9] (replicate 8 0) [1, 2, 3] [([7], sample_cert [7]), ([8], sample_cert [8])],
     TrustedEntry [0x1F600] (replicate 8 1) ([9], sample_cert [9])]"

lemma sample_entries_fit: "store_fits sample_lib 2 sample_entries (replicate 20 5)"
  by (simp add: store_fits_def sample_entries_def alias_fits_def certificate_fits_def
      sample_ParseCertificate_def) code_simp

theorem jks_roundtrip_witness:
  "length (fst (parseJavaKeystore sample_lib (store_bytes True 2 sample_entries (replicate 20 5)))) = 3"
  by (subst jks_roundtrip [OF sample_entries_fit refl]) (simp add: sample_entries_def)

end
