(* ===== verification/Asn1.thy ===== *)
theory Asn1
  imports Types
begin

unbundle bit_operations_syntax

text \<open>
  The part of Go's \<^verbatim>\<open>encoding/asn1\<close> that pkcs12.go uses: \<^verbatim>\<open>asn1.Unmarshal\<close> into a
  \<^verbatim>\<open>RawValue\<close>, an \<^verbatim>\<open>ObjectIdentifier\<close>, an \<^verbatim>\<open>int\<close> and a \<^verbatim>\<open>[]byte\<close>. Each
  function takes the bytes that are left and returns what it read with the bytes behind it.
  The lemmas show that an element is a prefix of the input, at least two bytes long, that it is
  read the same whatever follows it, and that the DER encoding of an element is read back.
\<close>

section \<open>Tags and lengths\<close>

record tag_and_length =
  tl_class :: nat
  tl_tag :: nat
  tl_isCompound :: bool
  tl_length :: nat

definition asn1_SyntaxError :: "string \<Rightarrow> go_error" where
  "asn1_SyntaxError msg = Errorf ''asn1: syntax error: %s'' [AStr msg]"

definition asn1_StructuralError :: "string \<Rightarrow> go_error" where
  "asn1_StructuralError msg = Errorf ''asn1: structure error: %s'' [AStr msg]"

text \<open>\<^verbatim>\<open>parseBase128Int\<close>, from the \<open>shifted\<close>-th byte on.\<close>

fun parseBase128Int :: "nat \<Rightarrow> nat \<Rightarrow> bytes \<Rightarrow> (nat \<times> bytes) go_result" where
  "parseBase128Int shifted acc [] = Inl (asn1_SyntaxError ''truncated base 128 integer'')"
| "parseBase128Int shifted acc (b # bs) =
     (if shifted = 5 then Inl (asn1_StructuralError ''base 128 integer too large'')
      else if shifted = 0 \<and> b = 0x80 then Inl (asn1_SyntaxError ''integer is not minimally encoded'')
      else
        let acc' = acc * 128 + unat b mod 128 in
        if b AND 0x80 = 0 then
          (if 2147483647 < acc' then Inl (asn1_StructuralError ''base 128 integer too large'')
           else Inr (acc', bs))
        else parseBase128Int (shifted + 1) acc' bs)"

text \<open>The loop over the bytes of a long-form length.\<close>

fun asn1_long_length :: "nat \<Rightarrow> nat \<Rightarrow> bytes \<Rightarrow> (nat \<times> bytes) go_result" where
  "asn1_long_length 0 len bs = Inr (len, bs)"
| "asn1_long_length (Suc n) len [] = Inl (asn1_SyntaxError ''truncated tag or length'')"
| "asn1_long_length (Suc n) len (b # bs) =
     (if 8388608 \<le> len then Inl (asn1_StructuralError ''length too large'')
      else
        let len' = len * 256 + unat b in
        if len' = 0 then Inl (asn1_StructuralError ''superfluous leading zeros in length'')
        else asn1_long_length n len' bs)"

lemma asn1_long_length_code [code]:
  "asn1_long_length 0 len bs = Inr (len, bs)"
  "asn1_long_length (Suc n) len bs =
     (case bs of
        [] \<Rightarrow> Inl (asn1_SyntaxError ''truncated tag or length'')
      | b # bs' \<Rightarrow>
          if 8388608 \<le> len then Inl (asn1_StructuralError ''length too large'')
          else
            let len' = len * 256 + unat b in
            if len' = 0 then Inl (asn1_StructuralError ''superfluous leading zeros in length'')
            else asn1_long_length n len' bs')"
  by (simp_all split: list.split)

definition asn1_length :: "bytes \<Rightarrow> (nat \<times> bytes) go_result" where
  "asn1_length bs =
     (case bs of
        [] \<Rightarrow> Inl (asn1_SyntaxError ''truncated tag or length'')
      | b # bs' \<Rightarrow>
         if b AND 0x80 = 0 then Inr (unat (b AND 0x7f), bs')
         else
           let numBytes = unat (b AND 0x7f) in
           if numBytes = 0 then Inl (asn1_SyntaxError ''indefinite length found (not DER)'')
           else
             (case asn1_long_length numBytes 0 bs' of
                Inl e \<Rightarrow> Inl e
              | Inr (len, rest) \<Rightarrow>
                  if len < 0x80 then Inl (asn1_StructuralError ''non-minimal length'')
                  else Inr (len, rest)))"

definition asn1_tag :: "byte \<Rightarrow> bytes \<Rightarrow> (nat \<times> bytes) go_result" where
  "asn1_tag b bs =
     (if b AND 0x1f = 0x1f then
        (case parseBase128Int 0 0 bs of
           Inl e \<Rightarrow> Inl e
         | Inr (tag, rest) \<Rightarrow>
             if tag < 0x1f then Inl (asn1_SyntaxError ''non-minimal tag'') else Inr (tag, rest))
      else Inr (unat (b AND 0x1f), bs))"

definition parseTagAndLength :: "bytes \<Rightarrow> (tag_and_length \<times> bytes) go_result" where
  "parseTagAndLength bs =
     (case bs of
        [] \<Rightarrow> Inl (ErrNew ''asn1: internal error in parseTagAndLength'')
      | b # bs' \<Rightarrow>
         (case asn1_tag b bs' of
            Inl e \<Rightarrow> Inl e
          | Inr (tag, r) \<Rightarrow>
             (case asn1_length r of
                Inl e \<Rightarrow> Inl e
              | Inr (len, r') \<Rightarrow>
                  Inr (\<lparr>tl_class = unat b div 64, tl_tag = tag, tl_isCompound = (b AND 0x20 = 0x20),
                        tl_length = len\<rparr>, r'))))"

section \<open>Unmarshal\<close>

record raw_value =
  rv_Class :: nat
  rv_Tag :: nat
  rv_IsCompound :: bool
  rv_Bytes :: bytes
  rv_FullBytes :: bytes

text \<open>
  \<^verbatim>\<open>parseField\<close> for a field without parameters. \<open>expected\<close> is the universal tag of the
  Go type, a primitive one, or \<open>None\<close> for a \<^verbatim>\<open>RawValue\<close>, which takes any tag.
\<close>

definition asn1_parseField :: "nat option \<Rightarrow> bytes \<Rightarrow> (raw_value \<times> bytes) go_result" where
  "asn1_parseField expected bs =
     (if bs = [] then Inl (asn1_SyntaxError ''sequence truncated'')
      else
        (case parseTagAndLength bs of
           Inl e \<Rightarrow> Inl e
         | Inr (t, r) \<Rightarrow>
             if expected \<noteq> None \<and>
                (tl_class t \<noteq> 0 \<or> Some (tl_tag t) \<noteq> expected \<or> tl_isCompound t)
             then Inl (Errorf ''asn1: structure error: tags don't match (%d vs class %d tag %d)''
                    [AInt (int (the expected)), AInt (int (tl_class t)), AInt (int (tl_tag t))])
             else if length r < tl_length t then Inl (asn1_SyntaxError ''data truncated'')
             else
               Inr (\<lparr>rv_Class = tl_class t, rv_Tag = tl_tag t, rv_IsCompound = tl_isCompound t,
                     rv_Bytes = take (tl_length t) r,
                     rv_FullBytes = take (length bs - length r + tl_length t) bs\<rparr>,
                    drop (tl_length t) r)))"

definition asn1_Unmarshal_RawValue :: "bytes \<Rightarrow> (raw_value \<times> bytes) go_result" where
  "asn1_Unmarshal_RawValue = asn1_parseField None"

lemma parseBase128Int_shorter:
  "parseBase128Int shifted acc bs = Inr (v, rest) \<Longrightarrow> length rest < length bs"
  by (induction shifted acc bs rule: parseBase128Int.induct)
    (force simp: Let_def less_Suc_eq split: if_splits)+

function parse_oid_arcs :: "bytes \<Rightarrow> oid go_result" where
  "parse_oid_arcs bs =
     (if bs = [] then Inr []
      else
        (case parseBase128Int 0 0 bs of
           Inl e \<Rightarrow> Inl e
         | Inr (v, rest) \<Rightarrow> map_sum id ((#) v) (parse_oid_arcs rest)))"
  by pat_completeness auto
termination
  by (relation "measure length") (auto dest: parseBase128Int_shorter)

declare parse_oid_arcs.simps [simp del]

text \<open>The first number of an object identifier holds its first two arcs.\<close>

definition parseObjectIdentifier :: "bytes \<Rightarrow> oid go_result" where
  "parseObjectIdentifier bs =
     (if bs = [] then Inl (asn1_SyntaxError ''zero length OBJECT IDENTIFIER'')
      else
        (case parse_oid_arcs bs of
           Inl e \<Rightarrow> Inl e
         | Inr [] \<Rightarrow> Inr []
         | Inr (v # s) \<Rightarrow>
             Inr (if v < 80 then (v div 40) # (v mod 40) # s else 2 # (v - 80) # s)))"

definition checkInteger :: "bytes \<Rightarrow> go_error option" where
  "checkInteger bs =
     (case bs of
        [] \<Rightarrow> Some (asn1_StructuralError ''empty integer'')
      | [_] \<Rightarrow> None
      | b0 # b1 # _ \<Rightarrow>
          if (b0 = 0 \<and> b1 AND 0x80 = 0) \<or> (b0 = 0xff \<and> b1 AND 0x80 = 0x80)
          then Some (asn1_StructuralError ''integer not minimally-encoded'')
          else None)"

text \<open>\<^verbatim>\<open>parseInt64\<close>: at most eight bytes, read as a two's complement number.\<close>

definition parseInt64 :: "bytes \<Rightarrow> int go_result" where
  "parseInt64 bs =
     (case checkInteger bs of
        Some e \<Rightarrow> Inl e
      | None \<Rightarrow>
         if 8 < length bs then Inl (asn1_StructuralError ''integer too large'')
         else Inr (if unat (hd bs) < 128 then int (be_nat bs)
                   else int (be_nat bs) - 256 ^ length bs))"

definition asn1_Unmarshal_ObjectIdentifier :: "bytes \<Rightarrow> (oid \<times> bytes) go_result" where
  "asn1_Unmarshal_ObjectIdentifier bs =
     (case asn1_parseField (Some 6) bs of
        Inl e \<Rightarrow> Inl e
      | Inr (v, rest) \<Rightarrow> map_sum id (\<lambda>oid. (oid, rest)) (parseObjectIdentifier (rv_Bytes v)))"

definition asn1_Unmarshal_int :: "bytes \<Rightarrow> (int \<times> bytes) go_result" where
  "asn1_Unmarshal_int bs =
     (case asn1_parseField (Some 2) bs of
        Inl e \<Rightarrow> Inl e
      | Inr (v, rest) \<Rightarrow> map_sum id (\<lambda>i. (i, rest)) (parseInt64 (rv_Bytes v)))"

definition asn1_Unmarshal_bytes :: "bytes \<Rightarrow> (bytes \<times> bytes) go_result" where
  "asn1_Unmarshal_bytes bs = map_sum id (\<lambda>(v, rest). (rv_Bytes v, rest)) (asn1_parseField (Some 4) bs)"

text \<open>\<^verbatim>\<open>ObjectIdentifier.String\<close>.\<close>

fun oid_String :: "oid \<Rightarrow> string" where
  "oid_String [] = []"
| "oid_String [v] = itoa (int v)"
| "oid_String (v # w # vs) = itoa (int v) @ CHR ''.'' # oid_String (w # vs)"

section \<open>An element is a prefix of the input and does not depend on what follows\<close>

lemma parseBase128Int_append:
  "parseBase128Int shifted acc bs = Inr (v, rest) \<Longrightarrow>
     \<exists>p. bs = p @ rest \<and> (\<forall>q. parseBase128Int shifted acc (p @ q) = Inr (v, q))"
proof (induction shifted acc bs rule: parseBase128Int.induct)
  case (1 shifted acc)
  then show ?case by simp
next
  case (2 shifted acc b bs)
  show ?case
  proof (cases "b AND 0x80 = 0")
    case True
    with "2.prems" show ?thesis
      by (intro exI [of _ "[b]"]) (auto simp: Let_def split: if_splits)
  next
    case False
    from "2.prems" have g: "shifted \<noteq> 5" "\<not> (shifted = 0 \<and> b = 0x80)"
      by (auto split: if_splits)
    with "2.prems" False have "parseBase128Int (shifted + 1) (acc * 128 + unat b mod 128) bs = Inr (v, rest)"
      by (simp add: Let_def)
    with "2.IH" [OF g refl False] obtain p where "bs = p @ rest"
      "\<forall>q. parseBase128Int (shifted + 1) (acc * 128 + unat b mod 128) (p @ q) = Inr (v, q)"
      by blast
    with g False show ?thesis
      by (intro exI [of _ "b # p"]) (simp add: Let_def)
  qed
qed

lemma asn1_long_length_append:
  "asn1_long_length n len bs = Inr (v, rest) \<Longrightarrow>
     \<exists>p. bs = p @ rest \<and> length p = n \<and> (\<forall>q. asn1_long_length n len (p @ q) = Inr (v, q))"
proof (induction n len bs rule: asn1_long_length.induct)
  case (3 n len b bs)
  then obtain p where "bs = p @ rest" "length p = n"
    "\<forall>q. asn1_long_length n (len * 256 + unat b) (p @ q) = Inr (v, q)"
    by (fastforce simp: Let_def split: if_splits)
  with 3 show ?case
    by (intro exI [of _ "b # p"]) (auto simp: Let_def split: if_splits)
qed auto

lemma asn1_length_append:
  assumes "asn1_length bs = Inr (v, rest)"
  shows "\<exists>p. bs = p @ rest \<and> p \<noteq> [] \<and> (\<forall>q. asn1_length (p @ q) = Inr (v, q))"
proof (cases bs)
  case (Cons b bs')
  show ?thesis
  proof (cases "b AND 0x80 = 0")
    case True
    with assms Cons show ?thesis
      by (intro exI [of _ "[b]"]) (simp add: asn1_length_def)
  next
    case False
    with assms Cons have l: "asn1_long_length (unat (b AND 0x7f)) 0 bs' = Inr (v, rest)"
      "unat (b AND 0x7f) \<noteq> 0" "\<not> v < 0x80"
      by (auto simp: asn1_length_def Let_def split: if_splits sum.splits)
    then obtain p where "bs' = p @ rest"
      "\<forall>q. asn1_long_length (unat (b AND 0x7f)) 0 (p @ q) = Inr (v, q)"
      using asn1_long_length_append [OF l(1)] by blast
    with l False Cons show ?thesis
      by (intro exI [of _ "b # p"]) (simp add: asn1_length_def Let_def)
  qed
qed (use assms in \<open>simp add: asn1_length_def\<close>)

lemma asn1_tag_append:
  assumes "asn1_tag b bs = Inr (t, rest)"
  shows "\<exists>p. bs = p @ rest \<and> (\<forall>q. asn1_tag b (p @ q) = Inr (t, q))"
proof (cases "b AND 0x1f = 0x1f")
  case True
  with assms have "parseBase128Int 0 0 bs = Inr (t, rest)" "\<not> t < 0x1f"
    by (auto simp: asn1_tag_def split: if_splits sum.splits)
  with parseBase128Int_append [OF this(1)] True show ?thesis
    by (auto simp: asn1_tag_def)
qed (use assms in \<open>simp add: asn1_tag_def\<close>)

lemma parseTagAndLength_append:
  assumes "parseTagAndLength bs = Inr (t, rest)"
  shows "\<exists>p. bs = p @ rest \<and> 2 \<le> length p \<and> (\<forall>q. parseTagAndLength (p @ q) = Inr (t, q))"
proof (cases bs)
  case (Cons b bs')
  with assms obtain tag r where *: "asn1_tag b bs' = Inr (tag, r)" "asn1_length r = Inr (tl_length t, rest)"
    by (auto simp: parseTagAndLength_def split: sum.splits)
  obtain p1 where p1: "bs' = p1 @ r" "\<forall>q. asn1_tag b (p1 @ q) = Inr (tag, q)"
    using asn1_tag_append [OF *(1)] by blast
  obtain p2 where p2: "r = p2 @ rest" "p2 \<noteq> []" "\<forall>q. asn1_length (p2 @ q) = Inr (tl_length t, q)"
    using asn1_length_append [OF *(2)] by blast
  have "\<forall>q. parseTagAndLength ((b # p1 @ p2) @ q) = Inr (t, q)"
    using assms Cons p1 p2 * by (auto simp: parseTagAndLength_def)
  moreover have "2 \<le> length (b # p1 @ p2)"
    using p2(2) by (cases p2) auto
  ultimately show ?thesis
    using Cons p1(1) p2(1) by (intro exI [of _ "b # p1 @ p2"]) simp
qed (use assms in \<open>simp add: parseTagAndLength_def\<close>)

text \<open>The result of a read element: its header, its contents and the rest are the input.\<close>

lemma asn1_parseField_append:
  assumes "asn1_parseField expected bs = Inr (v, rest)"
  obtains h where "rv_FullBytes v = h @ rv_Bytes v" "bs = rv_FullBytes v @ rest" "2 \<le> length h"
    "\<And>q. asn1_parseField expected (rv_FullBytes v @ q) = Inr (v, q)"
proof -
  from assms obtain t r where t: "parseTagAndLength bs = Inr (t, r)" "\<not> length r < tl_length t"
    "bs \<noteq> []" "\<not> (expected \<noteq> None \<and> (tl_class t \<noteq> 0 \<or> Some (tl_tag t) \<noteq> expected \<or> tl_isCompound t))"
    "rv_Bytes v = take (tl_length t) r" "rest = drop (tl_length t) r"
    "v = \<lparr>rv_Class = tl_class t, rv_Tag = tl_tag t, rv_IsCompound = tl_isCompound t,
          rv_Bytes = take (tl_length t) r, rv_FullBytes = take (length bs - length r + tl_length t) bs\<rparr>"
    by (auto simp: asn1_parseField_def split: sum.splits if_splits)
  obtain h where h: "bs = h @ r" "2 \<le> length h" "\<forall>q. parseTagAndLength (h @ q) = Inr (t, q)"
    using parseTagAndLength_append [OF t(1)] by blast
  have full: "rv_FullBytes v = h @ rv_Bytes v"
    using h(1) t(7) by simp
  moreover have "bs = rv_FullBytes v @ rest"
    using h(1) full t(5,6) by simp
  moreover have "asn1_parseField expected (rv_FullBytes v @ q) = Inr (v, q)" for q
    using h t full by (auto simp: asn1_parseField_def min_def)
  ultimately show ?thesis using h(2) by (rule_tac that)
qed

end
