(* ===== verification/Pkcs12.thy ===== *)
theory Pkcs12
  imports Asn1 Samples
begin

unbundle bit_operations_syntax

text \<open>
  PKCS#12 stores (pkcs12.go): the detector, which reads DER headers of a prefix of a file, and
  the parser of the complete file. \<open>parser\<close> records are the struct \<^verbatim>\<open>pkcs12Parser\<close>, passed
  through the functions and returned updated.
\<close>

section \<open>Constants\<close>

definition pkcs12Version :: nat where "pkcs12Version = 3"
definition maxPKCS12ContentInfos :: nat where "maxPKCS12ContentInfos = 256"
definition maxPKCS12Bags :: nat where "maxPKCS12Bags = 10000"
definition maxPKCS12BagAttributes :: nat where "maxPKCS12BagAttributes = 64"
definition maxPKCS12SafeContentsDepth :: nat where "maxPKCS12SafeContentsDepth = 16"

definition oidPKCS7Data :: oid where "oidPKCS7Data = [1, 2, 840, 113549, 1, 7, 1]"
definition oidPKCS7SignedData :: oid where "oidPKCS7SignedData = [1, 2, 840, 113549, 1, 7, 2]"
definition oidPKCS7EncryptedData :: oid where "oidPKCS7EncryptedData = [1, 2, 840, 113549, 1, 7, 6]"
definition oidPKCS12KeyBag :: oid where "oidPKCS12KeyBag = [1, 2, 840, 113549, 1, 12, 10, 1, 1]"
definition oidPKCS12ShroudedKeyBag :: oid where
  "oidPKCS12ShroudedKeyBag = [1, 2, 840, 113549, 1, 12, 10, 1, 2]"
definition oidPKCS12CertBag :: oid where "oidPKCS12CertBag = [1, 2, 840, 113549, 1, 12, 10, 1, 3]"
definition oidPKCS12SecretBag :: oid where "oidPKCS12SecretBag = [1, 2, 840, 113549, 1, 12, 10, 1, 5]"
definition oidPKCS12SafeContentsBag :: oid where
  "oidPKCS12SafeContentsBag = [1, 2, 840, 113549, 1, 12, 10, 1, 6]"
definition oidPKCS12X509Certificate :: oid where
  "oidPKCS12X509Certificate = [1, 2, 840, 113549, 1, 9, 22, 1]"
definition oidPKCS12FriendlyName :: oid where "oidPKCS12FriendlyName = [1, 2, 840, 113549, 1, 9, 20]"
definition oidPBES2 :: oid where "oidPBES2 = [1, 2, 840, 113549, 1, 5, 13]"
definition oidPBEWithSHAAnd128BitRC4 :: oid where
  "oidPBEWithSHAAnd128BitRC4 = [1, 2, 840, 113549, 1, 12, 1, 1]"
definition oidPBEWithSHAAnd40BitRC4 :: oid where
  "oidPBEWithSHAAnd40BitRC4 = [1, 2, 840, 113549, 1, 12, 1, 2]"
definition oidPBEWithSHAAnd3KeyTripleDES :: oid where
  "oidPBEWithSHAAnd3KeyTripleDES = [1, 2, 840, 113549, 1, 12, 1, 3]"
definition oidPBEWithSHAAnd2KeyTripleDES :: oid where
  "oidPBEWithSHAAnd2KeyTripleDES = [1, 2, 840, 113549, 1, 12, 1, 4]"
definition oidPBEWithSHAAnd128BitRC2 :: oid where
  "oidPBEWithSHAAnd128BitRC2 = [1, 2, 840, 113549, 1, 12, 1, 5]"
definition oidPBEWithSHAAnd40BitRC2 :: oid where
  "oidPBEWithSHAAnd40BitRC2 = [1, 2, 840, 113549, 1, 12, 1, 6]"

section \<open>Reading exact elements\<close>

text \<open>\<^verbatim>\<open>unmarshalExact\<close>, for the result of an \<^verbatim>\<open>asn1.Unmarshal\<close>.\<close>

definition unmarshalExact :: "('a \<times> bytes) go_result \<Rightarrow> 'a go_result" where
  "unmarshalExact res =
     (case res of
        Inl e \<Rightarrow> Inl e
      | Inr (v, rest) \<Rightarrow>
          if rest \<noteq> [] then Inl (Errorf ''%d trailing bytes'' [AInt (int (length rest))]) else Inr v)"

definition rawOID :: "raw_value \<Rightarrow> oid go_result" where
  "rawOID value = unmarshalExact (asn1_Unmarshal_ObjectIdentifier (rv_FullBytes value))"

definition rawInteger :: "raw_value \<Rightarrow> int go_result" where
  "rawInteger value = unmarshalExact (asn1_Unmarshal_int (rv_FullBytes value))"

definition explicitOctets :: "raw_value \<Rightarrow> bytes go_result" where
  "explicitOctets value = unmarshalExact (asn1_Unmarshal_bytes (rv_Bytes value))"

text \<open>
  The loop of \<^verbatim>\<open>rawSequenceElements\<close>. The test that the rest is shorter is the code's
  check for parsing progress; it is also what makes the recursion terminate.
\<close>

function raw_elements :: "string \<Rightarrow> nat \<Rightarrow> raw_value list \<Rightarrow> bytes \<Rightarrow> raw_value list go_result" where
  "raw_elements ctxt maximum result rest =
     (if rest = [] then Inr result
      else if maximum \<le> length result then
        Inl (Errorf ''%s element count exceeds %d'' [AStr ctxt, AInt (int maximum)])
      else
        (case asn1_Unmarshal_RawValue rest of
           Inl e \<Rightarrow> Inl (Wrapf ''%s element %d: %w'' [AStr ctxt, AInt (int (length result))] e)
         | Inr (element, remaining) \<Rightarrow>
             if length rest \<le> length remaining then
               Inl (Errorf ''%s element %d made no parsing progress''
                 [AStr ctxt, AInt (int (length result))])
             else raw_elements ctxt maximum (result @ [element]) remaining))"
  by pat_completeness auto
termination
  by (relation "measure (\<lambda>(ctxt, maximum, result, rest). length rest)") auto

declare raw_elements.simps [simp del]

definition rawSequenceElements :: "bytes \<Rightarrow> string \<Rightarrow> nat \<Rightarrow> raw_value list go_result" where
  "rawSequenceElements encoded ctxt maximum =
     (case unmarshalExact (asn1_Unmarshal_RawValue encoded) of
        Inl e \<Rightarrow> Inl (Wrapf ''%s: %w'' [AStr ctxt] e)
      | Inr sequence \<Rightarrow>
          if rv_Class sequence \<noteq> 0 \<or> rv_Tag sequence \<noteq> 16 \<or> \<not> rv_IsCompound sequence
          then Inl (Errorf ''%s is not a SEQUENCE'' [AStr ctxt])
          else raw_elements ctxt maximum [] (rv_Bytes sequence))"

section \<open>Detection\<close>

record der_element_header =
  der_tag :: byte
  der_contentOffset :: int
  der_end :: int

definition maxInt :: "64 word" where
  "maxInt = drop_bit 1 (NOT 0)"

text \<open>The length bytes as Go reads them: a 64-bit word, shifted byte by byte.\<close>

definition der_length_word :: "bytes \<Rightarrow> 64 word" where
  "der_length_word bs = foldl (\<lambda>len value. push_bit 8 len OR ucast value) 0 bs"

definition der_header_end ::
  "byte \<Rightarrow> 64 word \<Rightarrow> int \<Rightarrow> int \<Rightarrow> der_element_header option" where
  "der_header_end tag len offset limit =
     (if maxInt < len \<or> maxInt - len < word_of_int offset then None
      else
        let end' = offset + uint len in
        if limit < end' then None
        else Some \<lparr>der_tag = tag, der_contentOffset = offset, der_end = end'\<rparr>)"

definition readDERElementHeader :: "bytes \<Rightarrow> int \<Rightarrow> int \<Rightarrow> der_element_header option" where
  "readDERElementHeader data offset limit =
     (if offset < 0 \<or> int (length data) < offset + 2 \<or> limit \<le> offset then None
      else
        let tag = data ! nat offset; firstLength = data ! nat (offset + 1); offset = offset + 2 in
        if firstLength AND 0x80 = 0 then der_header_end tag (ucast firstLength) offset limit
        else
          let lengthBytes = uint (firstLength AND 0x7f) in
          if lengthBytes = 0 \<or> 8 < lengthBytes \<or> int (length data) < offset + lengthBytes \<or>
             data ! nat offset = 0
          then None
          else
            let len = der_length_word (take (nat lengthBytes) (drop (nat offset) data)) in
            if len < 128 then None
            else der_header_end tag len (offset + lengthBytes) limit)"

definition slice :: "bytes \<Rightarrow> int \<Rightarrow> int \<Rightarrow> bytes" where
  "slice data low high = take (nat (high - low)) (drop (nat low) data)"

definition detectPKCS12 :: "bytes \<Rightarrow> bool" where
  "detectPKCS12 data =
     (case readDERElementHeader data 0 (uint maxInt) of
        None \<Rightarrow> False
      | Some outer \<Rightarrow>
         if der_tag outer \<noteq> 0x30 then False
         else
           (case readDERElementHeader data (der_contentOffset outer) (der_end outer) of
              None \<Rightarrow> False
            | Some version \<Rightarrow>
               if der_tag version \<noteq> 0x02 \<or> int (length data) < der_end version \<or>
                  der_end version - der_contentOffset version \<noteq> 1 \<or>
                  data ! nat (der_contentOffset version) \<noteq> byte_of_nat pkcs12Version
               then False
               else
                 (case readDERElementHeader data (der_end version) (der_end outer) of
                    None \<Rightarrow> False
                  | Some authSafe \<Rightarrow>
                     if der_tag authSafe \<noteq> 0x30 then False
                     else
                       (case readDERElementHeader data (der_contentOffset authSafe) (der_end authSafe) of
                          None \<Rightarrow> False
                        | Some contentType \<Rightarrow>
                           if der_tag contentType \<noteq> 0x06 \<or> int (length data) < der_end contentType
                           then False
                           else
                             (case unmarshalExact (asn1_Unmarshal_ObjectIdentifier
                                      (slice data (der_contentOffset authSafe) (der_end contentType))) of
                                Inl e \<Rightarrow> False
                              | Inr oid \<Rightarrow>
                                 if oid \<noteq> oidPKCS7Data \<and> oid \<noteq> oidPKCS7SignedData then False
                                 else
                                   (case readDERElementHeader data (der_end contentType) (der_end authSafe) of
                                      None \<Rightarrow> False
                                    | Some content \<Rightarrow> der_tag content = 0xa0))))))"

section \<open>Names\<close>

text \<open>The first loop of \<^verbatim>\<open>decodeUTF16BE\<close>, on an even number of bytes.\<close>

fun utf16be_units :: "bytes \<Rightarrow> 16 word list" where
  "utf16be_units (a # b # r) = (push_bit 8 (ucast a) OR ucast b) # utf16be_units r"
| "utf16be_units _ = []"

definition decodeUTF16BE :: "bytes \<Rightarrow> string go_result" where
  "decodeUTF16BE encoded =
     (if odd (length encoded) then Inl (ErrNew ''odd-length BMPString'')
      else map_sum id string_of_runes (decodeCodeUnits 0 (utf16be_units encoded)))"

definition decodePKCS12String :: "raw_value \<Rightarrow> string go_result" where
  "decodePKCS12String value =
     (if rv_Class value \<noteq> 0 then Inl (ErrNew ''string uses a non-universal ASN.1 class'')
      else if rv_Tag value = 12 then
        (if \<not> utf8_Valid (rv_Bytes value) then Inl (ErrNew ''invalid UTF-8 string'')
         else Inr (string_of_bytes (rv_Bytes value)))
      else if rv_Tag value = 19 \<or> rv_Tag value = 22 then Inr (string_of_bytes (rv_Bytes value))
      else if rv_Tag value = 30 then decodeUTF16BE (rv_Bytes value)
      else Inl (Errorf ''unsupported ASN.1 string tag %d'' [AInt (int (rv_Tag value))]))"

definition friendlyName_value :: "raw_value \<Rightarrow> string go_result" where
  "friendlyName_value values =
     (if rv_Class values \<noteq> 0 \<or> rv_Tag values \<noteq> 17 \<or> \<not> rv_IsCompound values
      then Inl (ErrNew ''friendlyName values are not a SET'')
      else
        (case asn1_Unmarshal_RawValue (rv_Bytes values) of
           Inl e \<Rightarrow> Inl (Wrapf ''friendlyName value: %w'' [] e)
         | Inr (value, remaining) \<Rightarrow>
             if remaining \<noteq> [] then Inl (ErrNew ''friendlyName has multiple values'')
             else decodePKCS12String value))"

text \<open>The loop over the attributes, from the \<open>attributeIndex\<close>-th on.\<close>

function friendlyName_attributes :: "nat \<Rightarrow> bytes \<Rightarrow> string go_result" where
  "friendlyName_attributes attributeIndex rest =
     (if rest = [] then Inr []
      else if maxPKCS12BagAttributes \<le> attributeIndex then
        Inl (Errorf ''attribute count exceeds %d'' [AInt (int maxPKCS12BagAttributes)])
      else
        (case asn1_Unmarshal_RawValue rest of
           Inl e \<Rightarrow> Inl (Wrapf ''attribute %d: %w'' [AInt (int attributeIndex)] e)
         | Inr (attribute, remaining) \<Rightarrow>
            (case rawSequenceElements (rv_FullBytes attribute) ''attribute'' 2 of
               Inl e \<Rightarrow> Inl (Wrapf ''attribute %d: %w'' [AInt (int attributeIndex)] e)
             | Inr elements \<Rightarrow>
                if length elements \<noteq> 2 then
                  Inl (Errorf ''attribute %d has %d fields, want 2''
                    [AInt (int attributeIndex), AInt (int (length elements))])
                else
                  (case rawOID (elements ! 0) of
                     Inl e \<Rightarrow> Inl (Wrapf ''attribute %d ID: %w'' [AInt (int attributeIndex)] e)
                   | Inr attributeID \<Rightarrow>
                      if attributeID \<noteq> oidPKCS12FriendlyName
                      then friendlyName_attributes (attributeIndex + 1) remaining
                      else friendlyName_value (elements ! 1)))))"
  by pat_completeness auto
termination
  by (relation "measure (\<lambda>(i, rest). maxPKCS12BagAttributes - i)") auto

declare friendlyName_attributes.simps [simp del]

definition parseFriendlyName :: "raw_value option \<Rightarrow> string go_result" where
  "parseFriendlyName attributes =
     (case attributes of None \<Rightarrow> Inr [] | Some a \<Rightarrow> friendlyName_attributes 0 (rv_Bytes a))"

section \<open>Bags\<close>

record pkcs12_certificate =
  p12c_certificate :: x509_cert
  p12c_keystore :: keystore_info

record pkcs12_parser =
  p12_certificates :: "pkcs12_certificate list"
  p12_encrypted :: "pkcs12_encrypted_content list"
  p12_errors :: "go_error list"
  p12_bagCount :: nat
  p12_keyBagCount :: nat

definition is_explicit_0 :: "raw_value \<Rightarrow> bool" where
  "is_explicit_0 value \<longleftrightarrow> rv_Class value = 2 \<and> rv_Tag value = 0 \<and> rv_IsCompound value"

definition parseSafeBag :: "raw_value \<Rightarrow> (oid \<times> raw_value \<times> raw_value option) go_result" where
  "parseSafeBag encoded =
     (case rawSequenceElements (rv_FullBytes encoded) ''SafeBag'' 3 of
        Inl e \<Rightarrow> Inl e
      | Inr elements \<Rightarrow>
         if length elements < 2 \<or> 3 < length elements then
           Inl (Errorf ''has %d fields, want 2 or 3'' [AInt (int (length elements))])
         else
           (case rawOID (elements ! 0) of
              Inl e \<Rightarrow> Inl (Wrapf ''bag ID: %w'' [] e)
            | Inr bagID \<Rightarrow>
               let bagValue = elements ! 1 in
               if \<not> is_explicit_0 bagValue then Inl (ErrNew ''bag value is not [0] EXPLICIT'')
               else if length elements = 2 then Inr (bagID, bagValue, None)
               else
                 let attributes = elements ! 2 in
                 if rv_Class attributes \<noteq> 0 \<or> rv_Tag attributes \<noteq> 17 \<or> \<not> rv_IsCompound attributes
                 then Inl (ErrNew ''bag attributes are not a SET'')
                 else Inr (bagID, bagValue, Some attributes)))"

definition parsePKCS12CertificateBag :: "raw_value \<Rightarrow> bytes go_result" where
  "parsePKCS12CertificateBag value =
     (case rawSequenceElements (rv_Bytes value) ''CertBag'' 2 of
        Inl e \<Rightarrow> Inl e
      | Inr elements \<Rightarrow>
         if length elements \<noteq> 2 then
           Inl (Errorf ''has %d fields, want 2'' [AInt (int (length elements))])
         else
           (case rawOID (elements ! 0) of
              Inl e \<Rightarrow> Inl (Wrapf ''certificate type: %w'' [] e)
            | Inr certificateType \<Rightarrow>
               if certificateType \<noteq> oidPKCS12X509Certificate then
                 Inl (Errorf ''unsupported certificate type %s'' [AStr (oid_String certificateType)])
               else if \<not> is_explicit_0 (elements ! 1) then
                 Inl (ErrNew ''certificate value is not [0] EXPLICIT'')
               else
                 (case unmarshalExact (asn1_Unmarshal_bytes (rv_Bytes (elements ! 1))) of
                    Inl e \<Rightarrow> Inl (Wrapf ''certificate OCTET STRING: %w'' [] e)
                  | Inr der \<Rightarrow> Inr der)))"

text \<open>
  The case of a certBag: it takes the next chain position whether its certificate can be read
  or not. The error of the name and the error of the certificate are both recorded.
\<close>

definition p12_certBag ::
  "x509_lib \<Rightarrow> nat \<Rightarrow> raw_value \<Rightarrow> raw_value option \<Rightarrow> nat \<Rightarrow> go_error list \<Rightarrow> pkcs12_parser \<Rightarrow>
     nat \<times> go_error list \<times> pkcs12_parser" where
  "p12_certBag lib bagIndex bagValue attributes chainIndex parseErrors parser =
     (let position = chainIndex;
          chainIndex = chainIndex + 1;
          name = parseFriendlyName attributes;
          friendlyName = (case name of Inl e \<Rightarrow> [] | Inr s \<Rightarrow> s);
          parseErrors = (case name of
            Inl e \<Rightarrow> parseErrors @ [Wrapf ''bag %d friendlyName: %w'' [AInt (int bagIndex)] e]
          | Inr s \<Rightarrow> parseErrors)
      in
        case parsePKCS12CertificateBag bagValue of
          Inl e \<Rightarrow>
            (chainIndex, parseErrors @ [Wrapf ''bag %d certBag: %w'' [AInt (int bagIndex)] e], parser)
        | Inr der \<Rightarrow>
           (case ParseCertificate lib der of
              Inl e \<Rightarrow>
                (chainIndex, parseErrors @ [Wrapf ''bag %d X.509 DER: %w'' [AInt (int bagIndex)] e], parser)
            | Inr certificate \<Rightarrow>
                (chainIndex, parseErrors,
                 parser\<lparr>p12_certificates := p12_certificates parser @
                   [\<lparr>p12c_certificate = certificate,
                     p12c_keystore = \<lparr>ks_Format = ''PKCS#12'', ks_Alias = [],
                       ks_FriendlyName = friendlyName, ks_EntryType = ''certBag'',
                       ks_ChainIndex = int position, ks_Truststore = False\<rparr>\<rparr>]\<rparr>)))"

definition is_keyBag :: "oid \<Rightarrow> bool" where
  "is_keyBag bagID \<longleftrightarrow>
     bagID = oidPKCS12KeyBag \<or> bagID = oidPKCS12ShroudedKeyBag \<or> bagID = oidPKCS12SecretBag"

text \<open>
  \<^verbatim>\<open>parseSafeContents\<close> and its loop over the bags. The results are the error, the chain
  index (Go's \<^verbatim>\<open>*int\<close>) and the parser.
\<close>

function (sequential) parseSafeContents ::
    "x509_lib \<Rightarrow> bytes \<Rightarrow> nat \<Rightarrow> nat \<Rightarrow> pkcs12_parser \<Rightarrow> go_error option \<times> nat \<times> pkcs12_parser"
  and safe_bags ::
    "x509_lib \<Rightarrow> nat \<Rightarrow> nat \<Rightarrow> raw_value list \<Rightarrow> go_error list \<Rightarrow> nat \<Rightarrow> pkcs12_parser \<Rightarrow>
       go_error option \<times> nat \<times> pkcs12_parser" where
  "parseSafeContents lib encoded depth chainIndex parser =
     (if maxPKCS12SafeContentsDepth < depth then
        (Some (Errorf ''nesting depth exceeds %d'' [AInt (int maxPKCS12SafeContentsDepth)]),
         chainIndex, parser)
      else
        (case rawSequenceElements encoded ''SafeContents'' (maxPKCS12Bags + 1) of
           Inl e \<Rightarrow> (Some e, chainIndex, parser)
         | Inr bags \<Rightarrow> safe_bags lib depth 0 bags [] chainIndex parser))"
| "safe_bags lib depth bagIndex [] parseErrors chainIndex parser =
     (errors_Join_list parseErrors, chainIndex, parser)"
| "safe_bags lib depth bagIndex (encodedBag # bags) parseErrors chainIndex parser =
     (let parser = parser\<lparr>p12_bagCount := p12_bagCount parser + 1\<rparr> in
      if maxPKCS12Bags < p12_bagCount parser then
        (errors_Join [errors_Join_list parseErrors,
           Some (Errorf ''bag count exceeds %d'' [AInt (int maxPKCS12Bags)])], chainIndex, parser)
      else
        (case parseSafeBag encodedBag of
           Inl e \<Rightarrow>
             safe_bags lib depth (bagIndex + 1) bags
               (parseErrors @ [Wrapf ''bag %d: %w'' [AInt (int bagIndex)] e]) chainIndex parser
         | Inr (bagID, bagValue, attributes) \<Rightarrow>
             if is_keyBag bagID then
               safe_bags lib depth (bagIndex + 1) bags parseErrors chainIndex
                 (parser\<lparr>p12_keyBagCount := p12_keyBagCount parser + 1\<rparr>)
             else if bagID = oidPKCS12CertBag then
               (case p12_certBag lib bagIndex bagValue attributes chainIndex parseErrors parser of
                  (chainIndex, parseErrors, parser) \<Rightarrow>
                    safe_bags lib depth (bagIndex + 1) bags parseErrors chainIndex parser)
             else if bagID = oidPKCS12SafeContentsBag then
               (case parseSafeContents lib (rv_Bytes bagValue) (depth + 1) chainIndex parser of
                  (nestedErr, chainIndex, parser) \<Rightarrow>
                    safe_bags lib depth (bagIndex + 1) bags
                      (parseErrors @ option_list (map_option
                         (Wrapf ''bag %d nested SafeContents: %w'' [AInt (int bagIndex)]) nestedErr))
                      chainIndex parser)
             else safe_bags lib depth (bagIndex + 1) bags parseErrors chainIndex parser))"
  by pat_completeness auto
termination
  by (relation "measures
      [\<lambda>x. case x of
         Inl (lib, encoded, depth, _) \<Rightarrow>
           if maxPKCS12SafeContentsDepth < depth then 0 else 2 * (17 - depth) + 1
       | Inr (lib, depth, _) \<Rightarrow> if maxPKCS12SafeContentsDepth < depth then 1 else 2 * (17 - depth),
       \<lambda>x. case x of Inl _ \<Rightarrow> 0 | Inr (lib, depth, bagIndex, bags, _) \<Rightarrow> length bags]")
    (auto simp: maxPKCS12SafeContentsDepth_def)

declare parseSafeContents.simps [simp del] safe_bags.simps(2) [simp del]

section \<open>Encrypted contents\<close>

definition pkcs12AlgorithmName :: "oid \<Rightarrow> string" where
  "pkcs12AlgorithmName oid =
     (if oid = oidPBES2 then ''PBES2''
      else if oid = oidPBEWithSHAAnd128BitRC4 then ''pbeWithSHAAnd128BitRC4''
      else if oid = oidPBEWithSHAAnd40BitRC4 then ''pbeWithSHAAnd40BitRC4''
      else if oid = oidPBEWithSHAAnd3KeyTripleDES then ''pbeWithSHAAnd3-KeyTripleDES-CBC''
      else if oid = oidPBEWithSHAAnd2KeyTripleDES then ''pbeWithSHAAnd2-KeyTripleDES-CBC''
      else if oid = oidPBEWithSHAAnd128BitRC2 then ''pbeWithSHAAnd128BitRC2-CBC''
      else if oid = oidPBEWithSHAAnd40BitRC2 then ''pbeWithSHAAnd40BitRC2-CBC''
      else ''unknown'')"

text \<open>The algorithm of an EncryptedContentInfo, which has to encrypt PKCS#7 data.\<close>

definition encryptedContentInfo_algorithm :: "raw_value list \<Rightarrow> oid go_result" where
  "encryptedContentInfo_algorithm encryptedContentInfo =
     (case rawOID (encryptedContentInfo ! 0) of
        Inl e \<Rightarrow> Inl (Wrapf ''encrypted content type: %w'' [] e)
      | Inr contentType \<Rightarrow>
         if contentType \<noteq> oidPKCS7Data then
           Inl (Errorf ''unsupported encrypted content type %s'' [AStr (oid_String contentType)])
         else if length encryptedContentInfo = 3 \<and>
             (rv_Class (encryptedContentInfo ! 2) \<noteq> 2 \<or> rv_Tag (encryptedContentInfo ! 2) \<noteq> 0)
         then Inl (ErrNew ''encrypted content is not [0] IMPLICIT'')
         else
           (case rawSequenceElements (rv_FullBytes (encryptedContentInfo ! 1))
                   ''content encryption algorithm'' 2 of
              Inl e \<Rightarrow> Inl e
            | Inr algorithmIdentifier \<Rightarrow>
               if length algorithmIdentifier < 1 \<or> 2 < length algorithmIdentifier then
                 Inl (Errorf ''algorithm identifier has %d fields''
                   [AInt (int (length algorithmIdentifier))])
               else
                 (case rawOID (algorithmIdentifier ! 0) of
                    Inl e \<Rightarrow> Inl (Wrapf ''algorithm OID: %w'' [] e)
                  | Inr algorithmOID \<Rightarrow> Inr algorithmOID)))"

definition parseEncryptedContent :: "raw_value \<Rightarrow> nat \<Rightarrow> pkcs12_encrypted_content go_result" where
  "parseEncryptedContent value contentIndex =
     (case rawSequenceElements (rv_Bytes value) ''EncryptedData'' 3 of
        Inl e \<Rightarrow> Inl e
      | Inr elements \<Rightarrow>
         if length elements < 2 \<or> 3 < length elements then
           Inl (Errorf ''has %d fields, want 2 or 3'' [AInt (int (length elements))])
         else
           (case rawInteger (elements ! 0) of
              Inl e \<Rightarrow> Inl (Wrapf ''version: %w'' [] e)
            | Inr version \<Rightarrow>
               if version \<noteq> 0 then Inl (Errorf ''unsupported version %d'' [AInt version])
               else
                 (case rawSequenceElements (rv_FullBytes (elements ! 1)) ''EncryptedContentInfo'' 3 of
                    Inl e \<Rightarrow> Inl e
                  | Inr encryptedContentInfo \<Rightarrow>
                     if length encryptedContentInfo < 2 \<or> 3 < length encryptedContentInfo then
                       Inl (Errorf ''EncryptedContentInfo has %d fields, want 2 or 3''
                         [AInt (int (length encryptedContentInfo))])
                     else
                       (case encryptedContentInfo_algorithm encryptedContentInfo of
                          Inl e \<Rightarrow> Inl e
                        | Inr algorithmOID \<Rightarrow>
                            Inr \<lparr>enc_Path = [], enc_ArchiveEntries = [],
                              enc_ContentIndex = int contentIndex,
                              enc_Algorithm = pkcs12AlgorithmName algorithmOID,
                              enc_AlgorithmOID = oid_String algorithmOID,
                              enc_BagCount = None\<rparr>))))"

section \<open>The parser\<close>

definition parseContentInfo :: "raw_value \<Rightarrow> (oid \<times> raw_value) go_result" where
  "parseContentInfo encoded =
     (case rawSequenceElements (rv_FullBytes encoded) ''ContentInfo'' 2 of
        Inl e \<Rightarrow> Inl e
      | Inr elements \<Rightarrow>
         if length elements \<noteq> 2 then
           Inl (Errorf ''has %d fields, want 2'' [AInt (int (length elements))])
         else
           (case rawOID (elements ! 0) of
              Inl e \<Rightarrow> Inl (Wrapf ''content type: %w'' [] e)
            | Inr contentType \<Rightarrow>
               if \<not> is_explicit_0 (elements ! 1) then Inl (ErrNew ''content is not [0] EXPLICIT'')
               else Inr (contentType, elements ! 1)))"

abbreviation p12_addError :: "go_error \<Rightarrow> pkcs12_parser \<Rightarrow> pkcs12_parser" where
  "p12_addError e parser \<equiv> parser\<lparr>p12_errors := p12_errors parser @ [e]\<rparr>"

text \<open>The body of the loop over the contents of the authenticated safe.\<close>

definition p12_content :: "x509_lib \<Rightarrow> nat \<Rightarrow> raw_value \<Rightarrow> pkcs12_parser \<Rightarrow> pkcs12_parser" where
  "p12_content lib contentIndex encodedContentInfo parser =
     (case parseContentInfo encodedContentInfo of
        Inl e \<Rightarrow> p12_addError (Wrapf ''content %d: %w'' [AInt (int contentIndex)] e) parser
      | Inr (contentType, contentValue) \<Rightarrow>
         if contentType = oidPKCS7Data then
           (case explicitOctets contentValue of
              Inl e \<Rightarrow> p12_addError (Wrapf ''content %d data: %w'' [AInt (int contentIndex)] e) parser
            | Inr safeContents \<Rightarrow>
               (case parseSafeContents lib safeContents 0 0 parser of
                  (None, _, parser) \<Rightarrow> parser
                | (Some e, _, parser) \<Rightarrow>
                    p12_addError (Wrapf ''content %d SafeContents: %w'' [AInt (int contentIndex)] e) parser))
         else if contentType = oidPKCS7EncryptedData then
           (case parseEncryptedContent contentValue contentIndex of
              Inl e \<Rightarrow>
                p12_addError (Wrapf ''content %d encryptedData: %w'' [AInt (int contentIndex)] e) parser
            | Inr finding \<Rightarrow> parser\<lparr>p12_encrypted := p12_encrypted parser @ [finding]\<rparr>)
         else
           p12_addError (Errorf ''content %d has unsupported content type %s''
             [AInt (int contentIndex), AStr (oid_String contentType)]) parser)"

fun p12_contents :: "x509_lib \<Rightarrow> nat \<Rightarrow> raw_value list \<Rightarrow> pkcs12_parser \<Rightarrow> pkcs12_parser" where
  "p12_contents lib contentIndex [] parser = parser"
| "p12_contents lib contentIndex (c # cs) parser =
     p12_contents lib (contentIndex + 1) cs (p12_content lib contentIndex c parser)"

definition p12_initial :: pkcs12_parser where
  "p12_initial = \<lparr>p12_certificates = [], p12_encrypted = [], p12_errors = [],
     p12_bagCount = 0, p12_keyBagCount = 0\<rparr>"

definition p12_setTruststore :: "bool \<Rightarrow> pkcs12_certificate \<Rightarrow> pkcs12_certificate" where
  "p12_setTruststore t c = c\<lparr>p12c_keystore := (p12c_keystore c)\<lparr>ks_Truststore := t\<rparr>\<rparr>"

text \<open>The start of \<^verbatim>\<open>parsePKCS12\<close>: the encoded contents of the authenticated safe.\<close>

definition p12_contentInfos :: "bytes \<Rightarrow> raw_value list go_result" where
  "p12_contentInfos data =
     (case rawSequenceElements data ''PFX'' 3 of
        Inl e \<Rightarrow> Inl e
      | Inr outer \<Rightarrow>
         if length outer < 2 \<or> 3 < length outer then
           Inl (Errorf ''PFX has %d fields, want 2 or 3'' [AInt (int (length outer))])
         else
           (case rawInteger (outer ! 0) of
              Inl e \<Rightarrow> Inl (Wrapf ''PFX version: %w'' [] e)
            | Inr version \<Rightarrow>
               if version \<noteq> int pkcs12Version then
                 Inl (Errorf ''unsupported PFX version %d'' [AInt version])
               else
                 (case parseContentInfo (outer ! 1) of
                    Inl e \<Rightarrow> Inl (Wrapf ''PFX authSafe: %w'' [] e)
                  | Inr (authSafeType, authSafeValue) \<Rightarrow>
                     if authSafeType \<noteq> oidPKCS7Data then
                       Inl (Errorf ''unsupported PFX authSafe content type %s''
                         [AStr (oid_String authSafeType)])
                     else
                       (case explicitOctets authSafeValue of
                          Inl e \<Rightarrow> Inl (Wrapf ''PFX authSafe data: %w'' [] e)
                        | Inr authenticatedSafe \<Rightarrow>
                            rawSequenceElements authenticatedSafe ''AuthenticatedSafe''
                              maxPKCS12ContentInfos))))"

definition parsePKCS12 ::
  "x509_lib \<Rightarrow> bytes \<Rightarrow>
     pkcs12_certificate list \<times> pkcs12_encrypted_content list \<times> go_error option" where
  "parsePKCS12 lib data =
     (case p12_contentInfos data of
        Inl e \<Rightarrow> ([], [], Some e)
      | Inr contentInfos \<Rightarrow>
          let parser = p12_contents lib 0 contentInfos p12_initial;
              truststore = (length (p12_certificates parser) > 0 \<and> p12_keyBagCount parser = 0 \<and>
                length (p12_encrypted parser) = 0)
          in (map (p12_setTruststore truststore) (p12_certificates parser),
              p12_encrypted parser, errors_Join_list (p12_errors parser)))"

end
