(* ===== verification/Pkcs12Facts.thy ===== *)
theory Pkcs12Facts
  imports Pkcs12
begin

text \<open>
  What the PKCS#12 parser guarantees: the elements of a sequence partition its bytes, the
  parsing-progress check never fires, the limits on bags and contents hold, and every reported
  certificate comes from bytes of the file.
\<close>

section \<open>Elements partition their sequence\<close>

lemma Unmarshal_RawValue_append:
  assumes "asn1_Unmarshal_RawValue bs = Inr (v, rest)"
  obtains h where "rv_FullBytes v = h @ rv_Bytes v" "bs = rv_FullBytes v @ rest" "2 \<le> length h"
    "\<And>q. asn1_Unmarshal_RawValue (rv_FullBytes v @ q) = Inr (v, q)"
  using asn1_parseField_append [of None bs v rest] assms
  unfolding asn1_Unmarshal_RawValue_def by metis

lemma Unmarshal_RawValue_shorter:
  assumes "asn1_Unmarshal_RawValue bs = Inr (v, rest)"
  shows "length rest < length bs"
proof -
  from Unmarshal_RawValue_append [OF assms] obtain h where "rv_FullBytes v = h @ rv_Bytes v"
    "bs = rv_FullBytes v @ rest" "2 \<le> length h"
    by blast
  then show ?thesis by (cases h) auto
qed

text \<open>An element as the reader returns it: its bytes are read back to itself.\<close>

definition rv_wf :: "raw_value \<Rightarrow> bool" where
  "rv_wf v \<longleftrightarrow> asn1_Unmarshal_RawValue (rv_FullBytes v) = Inr (v, [])"

lemma raw_elements_partition:
  assumes "raw_elements ctxt maximum result rest = Inr es" and "length result \<le> maximum"
  shows "\<exists>es'. es = result @ es' \<and> concat (map rv_FullBytes es') = rest \<and>
    list_all rv_wf es' \<and> length es \<le> maximum"
  using assms
proof (induction ctxt maximum result rest rule: raw_elements.induct)
  case (1 ctxt maximum result rest)
  show ?case
  proof (cases "rest = []")
    case True
    with 1 show ?thesis by (simp add: raw_elements.simps)
  next
    case False
    with "1.prems" obtain v r where v: "length result < maximum"
      "asn1_Unmarshal_RawValue rest = Inr (v, r)" "raw_elements ctxt maximum (result @ [v]) r = Inr es"
      by (subst (asm) raw_elements.simps) (auto split: if_splits sum.splits)
    from v(2) obtain h where r: "rest = rv_FullBytes v @ r"
      and q: "\<And>q. asn1_Unmarshal_RawValue (rv_FullBytes v @ q) = Inr (v, q)"
      by (rule Unmarshal_RawValue_append) blast
    have "rv_wf v"
      using q [of "[]"] by (simp add: rv_wf_def)
    note r this
    moreover obtain es' where "es = (result @ [v]) @ es'" "concat (map rv_FullBytes es') = r"
      "list_all rv_wf es'" "length es \<le> maximum"
      using "1.IH" [OF False _ v(2) refl] v Unmarshal_RawValue_shorter [OF v(2)] by auto
    ultimately show ?thesis
      by (intro exI [of _ "v # es'"]) simp
  qed
qed

lemma raw_elements_progress:
  "raw_elements ctxt maximum result rest \<noteq> Inl (Errorf ''%s element %d made no parsing progress'' args)"
proof (induction ctxt maximum result rest rule: raw_elements.induct)
  case (1 ctxt maximum result rest)
  show ?case
  proof (cases "asn1_Unmarshal_RawValue rest")
    case (Inl e)
    then show ?thesis by (subst raw_elements.simps) simp
  next
    case (Inr x)
    then obtain v r where v: "asn1_Unmarshal_RawValue rest = Inr (v, r)" by (cases x) auto
    with "1.IH" [OF _ _ v refl] Unmarshal_RawValue_shorter [OF v] show ?thesis
      by (subst raw_elements.simps) simp
  qed
qed

lemma rv_wf_at:
  assumes "rv_wf v"
  shows "asn1_Unmarshal_RawValue (rv_FullBytes v @ q) = Inr (v, q)"
proof -
  from assms have "asn1_Unmarshal_RawValue (rv_FullBytes v) = Inr (v, [])"
    by (simp add: rv_wf_def)
  from Unmarshal_RawValue_append [OF this] show ?thesis by metis
qed

lemma rv_wf_full:
  assumes "rv_wf v"
  obtains h where "rv_FullBytes v = h @ rv_Bytes v" "2 \<le> length h"
proof -
  from assms have "asn1_Unmarshal_RawValue (rv_FullBytes v) = Inr (v, [])"
    by (simp add: rv_wf_def)
  from Unmarshal_RawValue_append [OF this] that show thesis by metis
qed

lemma raw_elements_at:
  assumes "list_all rv_wf es" and "length result + length es \<le> maximum"
  shows "raw_elements ctxt maximum result (concat (map rv_FullBytes es)) = Inr (result @ es)"
  using assms
proof (induction es arbitrary: result)
  case Nil
  then show ?case by (simp add: raw_elements.simps)
next
  case (Cons v es)
  obtain h where "rv_FullBytes v = h @ rv_Bytes v" "2 \<le> length h"
    using Cons.prems(1) by (auto elim: rv_wf_full)
  then have "rv_FullBytes v \<noteq> []" by auto
  with Cons rv_wf_at [of v "concat (map rv_FullBytes es)"] show ?case
    by (subst raw_elements.simps) simp
qed

lemma unmarshalExact_eq_Inr [simp]: "unmarshalExact res = Inr v \<longleftrightarrow> res = Inr (v, [])"
  by (auto simp: unmarshalExact_def split: sum.split)

lemma unmarshalExact_Nil [simp]: "unmarshalExact (Inr (v, [])) = Inr v"
  by simp

text \<open>
  Reading the elements of a sequence succeeds exactly when the bytes are one universal
  constructed SEQUENCE whose contents are the concatenation of at most \<open>maximum\<close> complete
  elements, and returns these: no byte is dropped, read twice or invented.
\<close>

theorem rawSequenceElements_iff:
  "rawSequenceElements encoded ctxt maximum = Inr es \<longleftrightarrow>
     (\<exists>s. asn1_Unmarshal_RawValue encoded = Inr (s, []) \<and>
        rv_Class s = 0 \<and> rv_Tag s = 16 \<and> rv_IsCompound s \<and>
        rv_Bytes s = concat (map rv_FullBytes es) \<and> list_all rv_wf es \<and> length es \<le> maximum)"
    (is "?l = ?r")
proof
  assume ?l
  then obtain s where "asn1_Unmarshal_RawValue encoded = Inr (s, [])"
    "rv_Class s = 0" "rv_Tag s = 16" "rv_IsCompound s" "raw_elements ctxt maximum [] (rv_Bytes s) = Inr es"
    by (auto simp: rawSequenceElements_def split: sum.splits if_splits)
  with raw_elements_partition [OF this(5)] show ?r by auto
next
  assume ?r
  then show ?l
    by (auto simp: rawSequenceElements_def unmarshalExact_def raw_elements_at)
qed

lemma sequence_elements:
  assumes "rawSequenceElements encoded ctxt maximum = Inr es"
  obtains h where "encoded = h @ concat (map rv_FullBytes es)" "2 \<le> length h"
    "list_all rv_wf es" "length es \<le> maximum"
proof -
  from assms have "\<exists>s. asn1_Unmarshal_RawValue encoded = Inr (s, []) \<and>
      rv_Bytes s = concat (map rv_FullBytes es) \<and> list_all rv_wf es \<and> length es \<le> maximum"
    by (auto simp: rawSequenceElements_def dest!: raw_elements_partition split: sum.splits if_splits)
  then obtain s where s: "asn1_Unmarshal_RawValue encoded = Inr (s, [])"
      "rv_Bytes s = concat (map rv_FullBytes es)" "list_all rv_wf es" "length es \<le> maximum"
    by blast
  from s(1) obtain h where "rv_FullBytes s = h @ rv_Bytes s" "encoded = rv_FullBytes s @ []" "2 \<le> length h"
    by (rule Unmarshal_RawValue_append)
  with s(2-4) show thesis by (intro that [of h]) simp_all
qed

text \<open>
  The check for parsing progress in \<^verbatim>\<open>rawSequenceElements\<close> never ends the loop: every
  element consumes at least two bytes, so the loop terminates without it and the error is never
  reported.
\<close>

theorem rawSequenceElements_progress:
  "rawSequenceElements encoded ctxt maximum \<noteq>
     Inl (Errorf ''%s element %d made no parsing progress'' args)"
  by (simp add: rawSequenceElements_def raw_elements_progress split: sum.split)

section \<open>Bytes of the file\<close>

text \<open>\<open>sublist\<close> relates the bytes of every element and every octet string to the file.\<close>

lemma sublist_element:
  assumes "rawSequenceElements encoded ctxt maximum = Inr es" and "v \<in> set es"
  shows "sublist (rv_FullBytes v) encoded" and "sublist (rv_Bytes v) encoded" and "rv_wf v"
proof -
  from assms(1) obtain h where h: "encoded = h @ concat (map rv_FullBytes es)" "list_all rv_wf es"
    by (rule sequence_elements)
  from assms(2) obtain es1 es2 where es: "es = es1 @ v # es2" by (meson split_list)
  with h show v: "rv_wf v" by simp
  have "encoded = (h @ concat (map rv_FullBytes es1)) @ rv_FullBytes v @ concat (map rv_FullBytes es2)"
    using h es by simp
  then show full: "sublist (rv_FullBytes v) encoded" by (metis sublist_appendI)
  from v obtain p where "rv_FullBytes v = p @ rv_Bytes v" by (rule rv_wf_full)
  then have "sublist (rv_Bytes v) (rv_FullBytes v)" by simp
  then show "sublist (rv_Bytes v) encoded" using full by (rule sublist_order.order_trans)
qed

lemma sublist_octets:
  assumes "asn1_Unmarshal_bytes bs = Inr (der, rest)"
  shows "sublist der bs"
proof -
  from assms obtain v where "asn1_parseField (Some 4) bs = Inr (v, rest)" "der = rv_Bytes v"
    by (auto simp: asn1_Unmarshal_bytes_def map_sum_eq_Inr)
  from this(1) obtain h where "rv_FullBytes v = h @ rv_Bytes v" "bs = rv_FullBytes v @ rest"
    by (rule asn1_parseField_append)
  with \<open>der = rv_Bytes v\<close> have "bs = h @ der @ rest" by simp
  then show ?thesis by simp
qed

lemma sublist_trans: "sublist a b \<Longrightarrow> sublist b c \<Longrightarrow> sublist a c"
  by (rule sublist_order.order_trans)

lemma sublist_nth:
  assumes "rawSequenceElements encoded ctxt maximum = Inr es" and "i < length es"
  shows "sublist (rv_FullBytes (es ! i)) encoded" and "sublist (rv_Bytes (es ! i)) encoded"
  using sublist_element [OF assms(1)] assms(2) by simp_all

lemma parseSafeBag_sublist:
  assumes "parseSafeBag encodedBag = Inr (bagID, bagValue, attributes)"
  shows "sublist (rv_Bytes bagValue) (rv_FullBytes encodedBag)"
proof -
  from assms obtain es where "rawSequenceElements (rv_FullBytes encodedBag) ''SafeBag'' 3 = Inr es"
    "bagValue = es ! 1" "2 \<le> length es"
    by (auto simp: parseSafeBag_def Let_def split: sum.splits if_splits)
  then show ?thesis using sublist_nth(2) [of _ _ _ es 1] by simp
qed

lemma certificateBag_sublist:
  assumes "parsePKCS12CertificateBag value = Inr der"
  shows "sublist der (rv_Bytes value)"
proof -
  from assms obtain es where es: "rawSequenceElements (rv_Bytes value) ''CertBag'' 2 = Inr es"
    "length es = 2" "asn1_Unmarshal_bytes (rv_Bytes (es ! 1)) = Inr (der, [])"
    by (auto simp: parsePKCS12CertificateBag_def split: sum.splits if_splits)
  from sublist_octets [OF es(3)] sublist_nth(2) [OF es(1), of 1] es(2) show ?thesis
    by (auto intro: sublist_order.order_trans)
qed

section \<open>What a run of the bag loop does\<close>

text \<open>
  \<open>p12_run lib data ci p ci' p'\<close>: from chain index \<open>ci\<close> and parser \<open>p\<close> the loop
  reaches \<open>ci'\<close> and \<open>p'\<close>. It appends certificates that come from the file, whose
  chain indices increase strictly from \<open>ci\<close> to below \<open>ci'\<close>; every certificate and every key
  bag is paid for by a bag, and none by a bag beyond the limit.
\<close>

definition p12_certificate_wf :: "x509_lib \<Rightarrow> bytes \<Rightarrow> pkcs12_certificate \<Rightarrow> bool" where
  "p12_certificate_wf lib data c \<longleftrightarrow>
     (\<exists>der. sublist der data \<and> ParseCertificate lib der = Inr (p12c_certificate c)) \<and>
     ks_Format (p12c_keystore c) = ''PKCS#12'' \<and> ks_EntryType (p12c_keystore c) = ''certBag'' \<and>
     ks_Alias (p12c_keystore c) = [] \<and>
     0 \<le> ks_ChainIndex (p12c_keystore c) \<and> ks_ChainIndex (p12c_keystore c) < int maxPKCS12Bags"

abbreviation p12_index :: "pkcs12_certificate \<Rightarrow> int" where
  "p12_index c \<equiv> ks_ChainIndex (p12c_keystore c)"

definition p12_run ::
  "x509_lib \<Rightarrow> bytes \<Rightarrow> nat \<Rightarrow> pkcs12_parser \<Rightarrow> nat \<Rightarrow> pkcs12_parser \<Rightarrow> bool" where
  "p12_run lib data ci p ci' p' \<longleftrightarrow>
     (\<exists>new. p12_certificates p' = p12_certificates p @ new \<and> list_all (p12_certificate_wf lib data) new \<and>
        sorted_wrt (<) (map p12_index new) \<and> length new + ci \<le> ci' \<and>
        (\<forall>c\<in>set new. int ci \<le> p12_index c \<and> p12_index c < int ci')) \<and>
     p12_encrypted p' = p12_encrypted p \<and> p12_errors p' = p12_errors p \<and>
     p12_bagCount p \<le> p12_bagCount p' \<and> p12_keyBagCount p \<le> p12_keyBagCount p' \<and> ci \<le> ci' \<and>
     ci' + p12_keyBagCount p' + min (p12_bagCount p) maxPKCS12Bags \<le>
       ci + p12_keyBagCount p + min (p12_bagCount p') maxPKCS12Bags"

lemma p12_run_refl: "p12_run lib data ci p ci p"
  by (simp add: p12_run_def)

lemma p12_run_trans:
  assumes "p12_run lib data ci p ci1 p1" and "p12_run lib data ci1 p1 ci2 p2"
  shows "p12_run lib data ci p ci2 p2"
proof -
  from assms(1) obtain new1 where 1: "p12_certificates p1 = p12_certificates p @ new1"
    "list_all (p12_certificate_wf lib data) new1" "sorted_wrt (<) (map p12_index new1)"
    "length new1 + ci \<le> ci1" "\<forall>c\<in>set new1. int ci \<le> p12_index c \<and> p12_index c < int ci1"
    by (auto simp: p12_run_def)
  from assms(2) obtain new2 where 2: "p12_certificates p2 = p12_certificates p1 @ new2"
    "list_all (p12_certificate_wf lib data) new2" "sorted_wrt (<) (map p12_index new2)"
    "length new2 + ci1 \<le> ci2" "\<forall>c\<in>set new2. int ci1 \<le> p12_index c \<and> p12_index c < int ci2"
    by (auto simp: p12_run_def)
  have "p12_certificates p2 = p12_certificates p @ (new1 @ new2)"
    using 1 2 by simp
  moreover have "sorted_wrt (<) (map p12_index (new1 @ new2))"
    using 1(3,5) 2(3,5) by (auto simp: sorted_wrt_append) (meson order_less_le_trans)
  moreover have "\<forall>c\<in>set (new1 @ new2). int ci \<le> p12_index c \<and> p12_index c < int ci2"
    using 1(4,5) 2(4,5) by (auto intro: order_less_le_trans order_trans)
  ultimately show ?thesis
    using assms 1 2 unfolding p12_run_def
    by (intro conjI exI [of _ "new1 @ new2"]) auto
qed

text \<open>One bag is taken, within the limit, without any other effect.\<close>

lemma p12_run_count:
  "p12_run lib data ci p ci (p\<lparr>p12_bagCount := p12_bagCount p + 1\<rparr>)"
  by (simp add: p12_run_def)

lemma p12_run_keyBag:
  assumes "p12_bagCount p < maxPKCS12Bags"
  shows "p12_run lib data ci p ci
    (p\<lparr>p12_bagCount := p12_bagCount p + 1, p12_keyBagCount := p12_keyBagCount p + 1\<rparr>)"
  using assms by (simp add: p12_run_def)

lemma p12_run_certBag:
  assumes "p12_certBag lib bagIndex bagValue attributes ci errs (p\<lparr>p12_bagCount := p12_bagCount p + 1\<rparr>) =
      (ci', errs', p')"
    and "sublist (rv_Bytes bagValue) data" and "p12_bagCount p < maxPKCS12Bags" "ci \<le> p12_bagCount p"
  shows "p12_run lib data ci p ci' p'" and "p12_bagCount p' = p12_bagCount p + 1" "ci' = ci + 1"
proof -
  let ?p = "p\<lparr>p12_bagCount := p12_bagCount p + 1\<rparr>"
  have "ci' = ci + 1 \<and> p12_bagCount p' = p12_bagCount p + 1 \<and> p12_run lib data ci p ci' p'"
  proof (cases "\<exists>der c. parsePKCS12CertificateBag bagValue = Inr der \<and> ParseCertificate lib der = Inr c")
    case True
    then obtain der c where der: "parsePKCS12CertificateBag bagValue = Inr der" "ParseCertificate lib der = Inr c"
      by blast
    define k where "k = (case parseFriendlyName attributes of Inl e \<Rightarrow> [] | Inr s \<Rightarrow> s)"
    define new where "new = \<lparr>p12c_certificate = c, p12c_keystore = \<lparr>ks_Format = ''PKCS#12'', ks_Alias = [],
       ks_FriendlyName = k, ks_EntryType = ''certBag'', ks_ChainIndex = int ci, ks_Truststore = False\<rparr>\<rparr>"
    from der assms(1) have eq: "ci' = ci + 1" "p' = ?p\<lparr>p12_certificates := p12_certificates ?p @ [new]\<rparr>"
      by (auto simp: p12_certBag_def Let_def new_def k_def)
    have "sublist der data"
      using certificateBag_sublist [OF der(1)] assms(2) by (rule sublist_order.order_trans)
    with der(2) assms(3,4) have "p12_certificate_wf lib data new"
      by (auto simp: p12_certificate_wf_def new_def)
    with assms(3) show ?thesis
      by (auto simp: p12_run_def eq new_def intro!: exI [of _ "[new]"])
  next
    case False
    with assms(1) have "ci' = ci + 1" "p' = ?p"
      by (auto simp: p12_certBag_def Let_def split: sum.splits)
    with assms(3) show ?thesis by (auto simp: p12_run_def)
  qed
  then show "p12_run lib data ci p ci' p'" "p12_bagCount p' = p12_bagCount p + 1" "ci' = ci + 1" by auto
qed

lemma p12_run_bound:
  "p12_run lib data ci p ci' p' \<Longrightarrow> ci \<le> p12_bagCount p \<Longrightarrow> ci' \<le> p12_bagCount p'"
  by (auto simp: p12_run_def min_def split: if_splits)

text \<open>The ways in which the loop over the bags deals with a bag.\<close>

lemma safe_bags_ConsE:
  assumes "safe_bags lib depth bagIndex (bag # bags) errs ci p = (e, ci', p')"
    and "q = p\<lparr>p12_bagCount := p12_bagCount p + 1\<rparr>"
  obtains (limit) "maxPKCS12Bags < p12_bagCount q" "e \<noteq> None" "ci' = ci" "p' = q"
  | (unread) err where "\<not> maxPKCS12Bags < p12_bagCount q" "parseSafeBag bag = Inl err"
      "safe_bags lib depth (bagIndex + 1) bags (errs @ [Wrapf ''bag %d: %w'' [AInt (int bagIndex)] err]) ci q = (e, ci', p')"
  | (key) bagID bagValue attributes where "\<not> maxPKCS12Bags < p12_bagCount q"
      "parseSafeBag bag = Inr (bagID, bagValue, attributes)" "is_keyBag bagID"
      "safe_bags lib depth (bagIndex + 1) bags errs ci (q\<lparr>p12_keyBagCount := p12_keyBagCount q + 1\<rparr>) = (e, ci', p')"
  | (cert) bagID bagValue attributes ci1 errs1 p1 where "\<not> maxPKCS12Bags < p12_bagCount q"
      "parseSafeBag bag = Inr (bagID, bagValue, attributes)" "\<not> is_keyBag bagID" "bagID = oidPKCS12CertBag"
      "(ci1, errs1, p1) = p12_certBag lib bagIndex bagValue attributes ci errs q"
      "safe_bags lib depth (bagIndex + 1) bags errs1 ci1 p1 = (e, ci', p')"
  | (nested) bagID bagValue attributes e1 ci1 p1 where "\<not> maxPKCS12Bags < p12_bagCount q"
      "parseSafeBag bag = Inr (bagID, bagValue, attributes)" "\<not> is_keyBag bagID" "bagID \<noteq> oidPKCS12CertBag"
      "bagID = oidPKCS12SafeContentsBag"
      "(e1, ci1, p1) = parseSafeContents lib (rv_Bytes bagValue) (depth + 1) ci q"
      "safe_bags lib depth (bagIndex + 1) bags (errs @ option_list (map_option
         (Wrapf ''bag %d nested SafeContents: %w'' [AInt (int bagIndex)]) e1)) ci1 p1 = (e, ci', p')"
  | (other) bagID bagValue attributes where "\<not> maxPKCS12Bags < p12_bagCount q"
      "parseSafeBag bag = Inr (bagID, bagValue, attributes)" "\<not> is_keyBag bagID" "bagID \<noteq> oidPKCS12CertBag"
      "bagID \<noteq> oidPKCS12SafeContentsBag" "safe_bags lib depth (bagIndex + 1) bags errs ci q = (e, ci', p')"
proof -
  obtain ci1 errs1 p1 where c: "(ci1, errs1, p1) =
      p12_certBag lib bagIndex (fst (snd (projr (parseSafeBag bag)))) (snd (snd (projr (parseSafeBag bag)))) ci errs q"
    by (metis prod_cases3)
  obtain e1 ci2 p2 where n: "(e1, ci2, p2) =
      parseSafeContents lib (rv_Bytes (fst (snd (projr (parseSafeBag bag))))) (depth + 1) ci q"
    by (metis prod_cases3)
  note step = assms(1) [unfolded safe_bags.simps(2) Let_def, folded assms(2)]
  have joined: "\<exists>z. errors_Join [x, Some y] = Some z" for x y by (cases x) (simp_all add: errors_Join_def)
  show thesis
  proof (cases "parseSafeBag bag")
    case (Inl err)
    with step limit unread show thesis by (auto simp: joined split: if_splits)
  next
    case (Inr x)
    then obtain bagID bagValue attributes where x: "parseSafeBag bag = Inr (bagID, bagValue, attributes)" by (cases x) auto
    with step c [symmetric] n [symmetric] show thesis
      by (auto simp: joined split: if_splits intro: limit key cert nested other)
  qed
qed

lemma safe_contents_run:
  "\<lbrakk>sublist encoded data; ci \<le> p12_bagCount p; parseSafeContents lib encoded depth ci p = (e, ci', p')\<rbrakk> \<Longrightarrow>
     p12_run lib data ci p ci' p'"
  "\<lbrakk>\<forall>v\<in>set bags. sublist (rv_FullBytes v) data; ci \<le> p12_bagCount p;
     safe_bags lib depth bagIndex bags errs ci p = (e, ci', p')\<rbrakk> \<Longrightarrow>
     p12_run lib data ci p ci' p'"
proof (induction lib encoded depth ci p and lib depth bagIndex bags errs ci p
    arbitrary: e ci' p' and e ci' p' rule: parseSafeContents_safe_bags.induct)
  case (1 lib encoded depth ci p)
  show ?case
  proof (cases "rawSequenceElements encoded ''SafeContents'' (maxPKCS12Bags + 1)")
    case (Inl e)
    with "1.prems" show ?thesis
      by (auto simp: parseSafeContents.simps p12_run_refl split: if_splits)
  next
    case (Inr bags)
    have "\<forall>v\<in>set bags. sublist (rv_FullBytes v) data"
      using sublist_element(1) [OF Inr] "1.prems"(1) by (blast intro: sublist_order.order_trans)
    with "1.IH" [OF _ Inr] "1.prems" Inr show ?thesis
      by (auto simp: parseSafeContents.simps p12_run_refl split: if_splits)
  qed
next
  case (2 lib depth bagIndex errs ci p)
  then show ?case by (simp add: p12_run_refl)
next
  case (3 lib depth bagIndex bag bags errs ci p)
  define q where "q = p\<lparr>p12_bagCount := p12_bagCount p + 1\<rparr>"
  note IH = "3.IH" [OF q_def]
  have rest: "\<forall>v\<in>set bags. sublist (rv_FullBytes v) data" and bag: "sublist (rv_FullBytes bag) data"
    using "3.prems"(1) by simp_all
  have pq: "p12_run lib data ci p ci q" and ci: "ci \<le> p12_bagCount q"
    using p12_run_count "3.prems"(2) by (simp_all add: q_def)
  have lim: "p12_bagCount p < maxPKCS12Bags" if "\<not> maxPKCS12Bags < p12_bagCount q" using that by (simp add: q_def)
  have bval: "sublist (rv_Bytes v) data" if "parseSafeBag bag = Inr (i, v, as)" for i v as
    using parseSafeBag_sublist [OF that] bag by (rule sublist_order.order_trans)
  from "3.prems"(3) q_def show ?case
  proof (cases rule: safe_bags_ConsE)
    case (limit) with pq show ?thesis by simp
  next
    case (unread err)
    from IH(1) [OF unread(1,2) rest ci unread(3)] show ?thesis by (rule p12_run_trans [OF pq])
  next
    case (key i v as)
    have "p12_run lib data ci p ci (q\<lparr>p12_keyBagCount := p12_keyBagCount q + 1\<rparr>)"
      using p12_run_keyBag [OF lim [OF key(1)]] by (simp add: q_def)
    with IH(2) [OF key(1,2) refl refl key(3) rest _ key(4)] ci show ?thesis by (simp add: p12_run_trans)
  next
    case (cert i v as ci1 errs1 p1)
    note r = p12_run_certBag [OF cert(5) [symmetric, unfolded q_def] bval [OF cert(2)] lim [OF cert(1)] "3.prems"(2)]
    then have "ci1 \<le> p12_bagCount p1" using "3.prems"(2) by simp
    from IH(3) [OF cert(1,2) refl refl cert(3-5) refl rest this cert(6)] show ?thesis by (rule p12_run_trans [OF r(1)])
  next
    case (nested i v as e1 ci1 p1)
    note r = IH(4) [OF nested(1,2) refl refl nested(3-5) bval [OF nested(2)] ci nested(6) [symmetric]]
    from IH(5) [OF nested(1,2) refl refl nested(3-6) refl rest p12_run_bound [OF r ci] nested(7)] show ?thesis
      by (rule p12_run_trans [OF pq p12_run_trans [OF r]])
  next
    case (other i v as)
    from IH(6) [OF other(1,2) refl refl other(3-5) rest ci other(6)] show ?thesis by (rule p12_run_trans [OF pq])
  qed
qed

text \<open>Without an error no chain index is skipped: every certBag gave its certificate.\<close>

lemma errors_Join_snoc_None [simp]: "errors_Join [a, Some e] = None \<longleftrightarrow> False"
  by simp

lemma p12_certBag_clean:
  assumes "p12_certBag lib bagIndex bagValue attributes ci errs p = (ci', [], p')"
  shows "errs = [] \<and> ci' = ci + 1 \<and>
    (\<exists>c. p12_certificates p' = p12_certificates p @ [c] \<and> p12_index c = int ci)"
  using assms by (auto simp: p12_certBag_def Let_def split: sum.splits)

lemma safe_contents_clean:
  "parseSafeContents lib encoded depth ci p = (None, ci', p') \<Longrightarrow>
     ci \<le> ci' \<and> (\<exists>new. p12_certificates p' = p12_certificates p @ new \<and>
       map p12_index new = map int [ci..<ci'])"
  "safe_bags lib depth bagIndex bags errs ci p = (None, ci', p') \<Longrightarrow>
     errs = [] \<and> ci \<le> ci' \<and> (\<exists>new. p12_certificates p' = p12_certificates p @ new \<and>
       map p12_index new = map int [ci..<ci'])"
proof (induction lib encoded depth ci p and lib depth bagIndex bags errs ci p
    arbitrary: ci' p' and ci' p' rule: parseSafeContents_safe_bags.induct)
  case (1 lib encoded depth ci p)
  then show ?case
    by (auto simp: parseSafeContents.simps split: if_splits sum.splits)
next
  case (2 lib depth bagIndex errs ci p)
  then show ?case by simp
next
  case (3 lib depth bagIndex bag bags errs ci p)
  define q where "q = p\<lparr>p12_bagCount := p12_bagCount p + 1\<rparr>"
  note IH = "3.IH" [OF q_def]
  have pq: "p12_certificates q = p12_certificates p" by (simp add: q_def)
  from "3.prems" q_def show ?case
  proof (cases rule: safe_bags_ConsE)
    case (unread err) with IH(1) [OF unread(1-3)] show ?thesis by simp
  next
    case (key i v as) with IH(2) [OF key(1,2) refl refl key(3,4)] pq show ?thesis by simp
  next
    case (cert i v as ci1 errs1 p1)
    from IH(3) [OF cert(1,2) refl refl cert(3-5) refl cert(6)] obtain new where
      new: "errs1 = []" "ci1 \<le> ci'" "p12_certificates p' = p12_certificates p1 @ new" "map p12_index new = map int [ci1..<ci']"
      by blast
    from p12_certBag_clean [OF cert(5) [symmetric, unfolded new(1)]] obtain cc where
      "errs = []" "ci1 = ci + 1" "p12_certificates p1 = p12_certificates q @ [cc]" "p12_index cc = int ci"
      by auto
    with new pq show ?thesis by (auto simp: upt_conv_Cons intro!: exI [of _ "cc # new"])
  next
    case (nested i v as e1 ci1 p1)
    from IH(5) [OF nested(1,2) refl refl nested(3-6) refl nested(7)] obtain new where
      new: "errs = []" "e1 = None" "ci1 \<le> ci'" "p12_certificates p' = p12_certificates p1 @ new"
        "map p12_index new = map int [ci1..<ci']"
      by (cases e1) auto
    from IH(4) [OF nested(1,2) refl refl nested(3-5) nested(6) [symmetric, unfolded new(2)]] obtain new1 where
      "ci \<le> ci1" "p12_certificates p1 = p12_certificates q @ new1" "map p12_index new1 = map int [ci..<ci1]"
      by auto
    with new pq upt_add_eq_append [of ci ci1 "ci' - ci1"] show ?thesis by (auto intro!: exI [of _ "new1 @ new"])
  next
    case (other i v as) with IH(6) [OF other(1,2) refl refl other(3-6)] pq show ?thesis by simp
  qed simp
qed

section \<open>The whole file\<close>

definition p12_inv :: "x509_lib \<Rightarrow> bytes \<Rightarrow> nat \<Rightarrow> pkcs12_certificate list list \<Rightarrow> pkcs12_parser \<Rightarrow> bool" where
  "p12_inv lib data n segs p \<longleftrightarrow>
     p12_certificates p = concat segs \<and> list_all (p12_certificate_wf lib data) (p12_certificates p) \<and>
     list_all (\<lambda>seg. sorted_wrt (<) (map p12_index seg)) segs \<and>
     length segs + length (p12_encrypted p) \<le> n \<and>
     length (p12_certificates p) + p12_keyBagCount p \<le> min (p12_bagCount p) maxPKCS12Bags \<and>
     (p12_errors p = [] \<longrightarrow> list_all (\<lambda>seg. map p12_index seg = map int [0..<length seg]) segs)"

lemma p12_inv_initial: "p12_inv lib data 0 [] p12_initial"
  by (simp add: p12_inv_def p12_initial_def)

lemma p12_inv_run:
  assumes "p12_inv lib data n segs p" and "p12_run lib data 0 p ci p'"
    and "clean \<Longrightarrow> \<exists>new. p12_certificates p' = p12_certificates p @ new \<and> map p12_index new = map int [0..<ci]"
    and "p'' = (if clean then p' else p12_addError e p')"
  shows "\<exists>segs'. p12_inv lib data (n + 1) segs' p''"
proof -
  from assms(2) obtain new where new: "p12_certificates p' = p12_certificates p @ new"
    "list_all (p12_certificate_wf lib data) new" "sorted_wrt (<) (map p12_index new)" "length new \<le> ci"
    by (auto simp: p12_run_def)
  have idx: "map p12_index new = map int [0..<length new]" if clean
  proof -
    from assms(3) [OF that] new(1) have "map p12_index new = map int [0..<ci]" by auto
    moreover from this have "length new = ci" by (metis length_map length_upt diff_zero)
    ultimately show ?thesis by simp
  qed
  have "p12_inv lib data (n + 1) (segs @ [new]) p''"
    using assms(1,2,4) new idx
    by (cases clean) (auto simp: p12_inv_def p12_run_def min_def split: if_splits)
  then show ?thesis ..
qed

lemma p12_inv_error:
  "p12_inv lib data n segs p \<Longrightarrow> p12_inv lib data (n + 1) segs (p12_addError e p)"
  by (auto simp: p12_inv_def)

lemma p12_inv_encrypted:
  "p12_inv lib data n segs p \<Longrightarrow>
     p12_inv lib data (n + 1) segs (p\<lparr>p12_encrypted := p12_encrypted p @ [f]\<rparr>)"
  by (auto simp: p12_inv_def)

lemma parseContentInfo_sublist:
  assumes "parseContentInfo encoded = Inr (contentType, content)"
  shows "sublist (rv_Bytes content) (rv_FullBytes encoded)"
proof -
  from assms obtain es where "rawSequenceElements (rv_FullBytes encoded) ''ContentInfo'' 2 = Inr es"
    "content = es ! 1" "length es = 2"
    by (auto simp: parseContentInfo_def split: sum.splits if_splits)
  then show ?thesis using sublist_nth(2) [of _ _ _ es 1] by simp
qed

lemma p12_content_inv:
  assumes "p12_inv lib data n segs p" and "sublist (rv_FullBytes c) data"
  shows "\<exists>segs'. p12_inv lib data (n + 1) segs' (p12_content lib i c p)"
proof (cases "\<exists>v b. parseContentInfo c = Inr (oidPKCS7Data, v) \<and> explicitOctets v = Inr b")
  case True
  then obtain v b where v: "parseContentInfo c = Inr (oidPKCS7Data, v)" "explicitOctets v = Inr b"
    by blast
  obtain e ci p' where run: "parseSafeContents lib b 0 0 p = (e, ci, p')"
    by (metis prod_cases3)
  have "sublist b (rv_Bytes v)"
    using v(2) by (auto simp: explicitOctets_def dest: sublist_octets)
  then have "sublist b data"
    using parseContentInfo_sublist [OF v(1)] assms(2) by (meson sublist_order.order_trans)
  from safe_contents_run(1) [OF this _ run] have r: "p12_run lib data 0 p ci p'" by simp
  have cl: "\<exists>new. p12_certificates p' = p12_certificates p @ new \<and> map p12_index new = map int [0..<ci]"
    if "e = None"
    using safe_contents_clean(1) run that by auto
  show ?thesis
    by (rule p12_inv_run [OF assms(1) r cl,
        where e = "Wrapf ''content %d SafeContents: %w'' [AInt (int i)] (the e)"])
      (use v run in \<open>auto simp: p12_content_def split: option.splits\<close>)
next
  case False
  moreover have "\<exists>segs'. p12_inv lib data (Suc n) segs' (p12_addError e p)" for e
    using p12_inv_error [OF assms(1)] by auto
  moreover have "\<exists>segs'. p12_inv lib data (Suc n) segs' (p\<lparr>p12_encrypted := p12_encrypted p @ [f]\<rparr>)" for f
    using p12_inv_encrypted [OF assms(1)] by auto
  ultimately show ?thesis
    by (auto simp: p12_content_def split: sum.splits)
qed

lemma p12_contents_inv:
  assumes "p12_inv lib data n segs p" and "\<forall>c\<in>set cs. sublist (rv_FullBytes c) data"
  shows "\<exists>segs'. p12_inv lib data (n + length cs) segs' (p12_contents lib i cs p)"
  using assms
proof (induction cs arbitrary: n segs i p)
  case Nil
  then show ?case by auto
next
  case (Cons c cs)
  then obtain segs' where "p12_inv lib data (n + 1) segs' (p12_content lib i c p)"
    using p12_content_inv by (metis list.set_intros(1))
  from Cons.IH [OF this] Cons.prems(2) show ?case by simp
qed

lemma contentInfos_sublist:
  assumes "p12_contentInfos data = Inr cs"
  shows "length cs \<le> maxPKCS12ContentInfos" and "c \<in> set cs \<Longrightarrow> sublist (rv_FullBytes c) data"
proof -
  from assms obtain outer v b where outer: "rawSequenceElements data ''PFX'' 3 = Inr outer" "2 \<le> length outer"
    and v: "parseContentInfo (outer ! 1) = Inr (oidPKCS7Data, v)" and b: "explicitOctets v = Inr b"
    and cs: "rawSequenceElements b ''AuthenticatedSafe'' maxPKCS12ContentInfos = Inr cs"
    by (auto simp: p12_contentInfos_def split: sum.splits if_splits)
  show "length cs \<le> maxPKCS12ContentInfos"
    using cs by (rule sequence_elements)
  have "sublist b (rv_Bytes v)"
    using b by (auto simp: explicitOctets_def dest: sublist_octets)
  then have "sublist b data"
    using parseContentInfo_sublist [OF v] sublist_nth(1) [OF outer(1), of 1] outer(2)
    by (meson less_le_trans one_less_numeral_iff semiring_norm(76) sublist_order.order_trans)
  then show "sublist (rv_FullBytes c) data" if "c \<in> set cs"
    using sublist_element(1) [OF cs that] by (rule sublist_order.order_trans [rotated])
qed

lemma parsePKCS12_inv:
  assumes "parsePKCS12 lib data = (certs, enc, err)" and "certs \<noteq> [] \<or> enc \<noteq> [] \<or> err = None"
  obtains segs p t where "p12_inv lib data maxPKCS12ContentInfos segs p"
    "certs = map (p12_setTruststore t) (p12_certificates p)" "enc = p12_encrypted p"
    "err = None \<Longrightarrow> p12_errors p = []"
    "t = (certs \<noteq> [] \<and> p12_keyBagCount p = 0 \<and> enc = [])"
proof -
  from assms obtain cs where cs: "p12_contentInfos data = Inr cs"
    by (cases "p12_contentInfos data") (auto simp: parsePKCS12_def)
  define p where "p = p12_contents lib 0 cs p12_initial"
  obtain segs where "p12_inv lib data (0 + length cs) segs p"
    using p12_contents_inv [OF p12_inv_initial, of cs data lib 0] contentInfos_sublist(2) [OF cs]
    unfolding p_def by blast
  then have inv: "p12_inv lib data maxPKCS12ContentInfos segs p"
    using contentInfos_sublist(1) [OF cs] by (auto simp: p12_inv_def)
  from assms(1) cs show thesis
    by (intro that [OF inv]) (auto simp: parsePKCS12_def p_def [symmetric] Let_def)
qed

lemma p12_setTruststore_simps [simp]:
  "p12c_certificate (p12_setTruststore t c) = p12c_certificate c"
  "ks_Truststore (p12c_keystore (p12_setTruststore t c)) = t"
  "p12_index (p12_setTruststore t c) = p12_index c"
  "p12_certificate_wf lib data (p12_setTruststore t c) = p12_certificate_wf lib data c"
  by (simp_all add: p12_setTruststore_def p12_certificate_wf_def)

text \<open>
  C32: whatever a PKCS#12 file announces, it yields at most 10000 certificates and, with the
  contents that hold them, at most 256 findings of encrypted contents.
\<close>

theorem pkcs12_bounds:
  "length (fst (parsePKCS12 lib data)) \<le> maxPKCS12Bags \<and>
   length (fst (snd (parsePKCS12 lib data))) \<le> maxPKCS12ContentInfos"
proof -
  obtain certs enc err where p: "parsePKCS12 lib data = (certs, enc, err)"
    by (metis prod_cases3)
  show ?thesis
  proof (cases "certs \<noteq> [] \<or> enc \<noteq> []")
    case True
    then have "certs \<noteq> [] \<or> enc \<noteq> [] \<or> err = None" by blast
    from parsePKCS12_inv [OF p this] obtain segs q t where "p12_inv lib data maxPKCS12ContentInfos segs q"
      "certs = map (p12_setTruststore t) (p12_certificates q)" "enc = p12_encrypted q"
      by metis
    with p show ?thesis by (auto simp: p12_inv_def)
  qed (use p in simp)
qed

text \<open>
  Every certificate reported for a PKCS#12 store was parsed from bytes of the file; its entry
  has the format and the entry type of a certificate bag, no alias, and a chain index below the
  limit on bags.
\<close>

theorem pkcs12_reported_wf:
  assumes "c \<in> set (fst (parsePKCS12 lib data))"
  shows "p12_certificate_wf lib data c"
proof -
  obtain certs enc err where p: "parsePKCS12 lib data = (certs, enc, err)"
    by (metis prod_cases3)
  with assms have "certs \<noteq> [] \<or> enc \<noteq> [] \<or> err = None" by auto
  from parsePKCS12_inv [OF p this] obtain segs q t where "p12_inv lib data maxPKCS12ContentInfos segs q"
    "certs = map (p12_setTruststore t) (p12_certificates q)"
    by metis
  with p assms show ?thesis by (auto simp: p12_inv_def list_all_iff)
qed

end
