(* ===== verification/Pkcs12Detect.thy ===== *)
theory Pkcs12Detect
  imports Pkcs12Facts
begin

unbundle bit_operations_syntax

text \<open>
  The PKCS#12 detector: its offsets never leave the 64-bit range, what it accepts in a prefix it
  accepts in the file, and it accepts every file the parser can open.
\<close>

section \<open>Numbers\<close>

lemma be_nat_Cons: "be_nat (b # bs) = unat b * 256 ^ length bs + be_nat bs"
proof (induction bs rule: rev_induct)
  case Nil
  then show ?case by (simp add: be_nat_def)
next
  case (snoc c bs)
  have "be_nat (b # bs @ [c]) = be_nat (b # bs) * 256 + unat c"
    using be_nat_snoc [of "b # bs" c] by simp
  with snoc show ?case by (simp add: algebra_simps)
qed

lemma unat_maxInt: "unat maxInt = 2 ^ 63 - 1"
  by code_simp

lemma uint_maxInt: "uint maxInt = 2 ^ 63 - 1"
  using unat_maxInt by (simp add: uint_nat)

lemma unat_der_length_word:
  "length bs \<le> 8 \<Longrightarrow> unat (der_length_word bs) = be_nat bs"
  using unat_be_word [of bs, where 'a = 64] by (simp add: der_length_word_def be_word_def)

text \<open>The overflow test of the code, read as a statement about numbers.\<close>

lemma der_header_end_eq:
  assumes "0 \<le> offset" and "offset < 2 ^ 63"
  shows "der_header_end tag len offset limit =
    (if offset + uint len < 2 ^ 63 \<and> offset + uint len \<le> limit
     then Some \<lparr>der_tag = tag, der_contentOffset = offset, der_end = offset + uint len\<rparr> else None)"
proof -
  have m: "uint maxInt = 2 ^ 63 - 1" by (rule uint_maxInt)
  have o: "uint (word_of_int offset :: 64 word) = offset"
    using assms by (simp add: uint_word_of_int)
  show ?thesis
  proof (cases "maxInt < len")
    case True
    then have "2 ^ 63 - 1 < uint len" using m by (simp add: word_less_def)
    with True assms(1) show ?thesis by (simp add: der_header_end_def)
  next
    case False
    then have "len \<le> maxInt" by simp
    then have "uint (maxInt - len) = uint maxInt - uint len"
      by (simp add: uint_sub_if' word_le_def)
    then have "(maxInt - len < word_of_int offset) = (2 ^ 63 - 1 - uint len < offset)"
      using o m by (simp add: word_less_def)
    with False show ?thesis by (auto simp: der_header_end_def Let_def)
  qed
qed

section \<open>Bounds of an element header\<close>

text \<open>
  C33: a DER element header read inside the data ends inside the data and its element ends
  within the limit and within the range of a 64-bit \<^verbatim>\<open>int\<close>: no offset the detector computes
  wraps around.
\<close>

theorem der_header_bounds:
  assumes "readDERElementHeader data offset limit = Some h" and "length data < 2 ^ 63"
  shows "offset + 2 \<le> der_contentOffset h \<and> der_contentOffset h \<le> int (length data) \<and>
    der_contentOffset h \<le> der_end h \<and> der_end h \<le> limit \<and> der_end h < 2 ^ 63 \<and>
    0 \<le> offset \<and> der_tag h = data ! nat offset"
proof -
  from assms(1) have o: "0 \<le> offset" "offset + 2 \<le> int (length data)"
    by (auto simp: readDERElementHeader_def split: if_splits)
  define o' where "o' = (if (data ! nat (offset + 1)) AND 0x80 = 0 then offset + 2
    else offset + 2 + uint ((data ! nat (offset + 1)) AND 0x7f))"
  from assms(1) o obtain len where h: "der_header_end (data ! nat offset) len o' limit = Some h"
    "offset + 2 \<le> o'" "o' \<le> int (length data)"
    unfolding readDERElementHeader_def o'_def by (auto simp: Let_def split: if_splits)
  moreover have len: "int (length data) < 2 ^ 63"
    using assms(2) by simp
  moreover have "o' < 2 ^ 63" "0 \<le> o'"
    using h(2,3) o(1) len by linarith+
  ultimately show ?thesis
    using o by (auto simp: der_header_end_eq split: if_splits)
qed

theorem der_header_bounds_witness:
  "readDERElementHeader [0x30, 0x82, 1, 0] 0 (uint maxInt) =
     Some \<lparr>der_tag = 0x30, der_contentOffset = 4, der_end = 260\<rparr> \<and>
   (260 :: int) \<le> uint maxInt"
proof -
  have r: "readDERElementHeader [0x30, 0x82, 1, 0] 0 (uint maxInt) =
      Some \<lparr>der_tag = 0x30, der_contentOffset = 4, der_end = 260\<rparr>"
    by code_simp
  with der_header_bounds [OF r] show ?thesis by simp
qed

section \<open>Prefixes\<close>

lemma readDERElementHeader_append:
  assumes "readDERElementHeader data offset limit = Some h"
  shows "readDERElementHeader (data @ s) offset limit = Some h"
proof -
  from assms have o: "0 \<le> offset" "offset + 2 \<le> int (length data)"
    by (auto simp: readDERElementHeader_def split: if_splits)
  then have n: "nat offset < length data" "nat (offset + 1) < length data"
    by linarith+
  have t: "take k (drop j (data @ s)) = take k (drop j data)" if "j + k \<le> length data" for j k
    using that by simp
  show ?thesis
  proof (cases "(data ! nat (offset + 1)) AND 0x80 = 0")
    case True
    with assms o n show ?thesis
      by (auto simp: readDERElementHeader_def Let_def nth_append split: if_splits)
  next
    case False
    define k where "k = uint ((data ! nat (offset + 1)) AND 0x7f)"
    from assms False have k: "k \<noteq> 0" "k \<le> 8" "offset + 2 + k \<le> int (length data)"
      by (auto simp: readDERElementHeader_def Let_def k_def split: if_splits)
    have "0 \<le> k" by (simp add: k_def)
    with k o have "nat (offset + 2) < length data" "nat (offset + 2) + nat k \<le> length data"
      by linarith+
    with assms o n False k show ?thesis
      by (auto simp: readDERElementHeader_def Let_def nth_append t k_def [symmetric] split: if_splits)
  qed
qed

lemma slice_append:
  "0 \<le> low \<Longrightarrow> high \<le> int (length data) \<Longrightarrow> slice (data @ s) low high = slice data low high"
  by (auto simp: slice_def)

lemma contentOffset_nonneg:
  "readDERElementHeader data offset limit = Some h \<Longrightarrow> 0 \<le> der_contentOffset h"
  by (auto simp: readDERElementHeader_def der_header_end_def Let_def split: if_splits)

lemma detect_append:
  assumes "detectPKCS12 data"
  shows "detectPKCS12 (data @ s)"
proof -
  note r = readDERElementHeader_append [where s = s]
  from assms(1) obtain outer version authSafe contentType content oid where
    h: "readDERElementHeader data 0 (uint maxInt) = Some outer"
      "readDERElementHeader data (der_contentOffset outer) (der_end outer) = Some version"
      "readDERElementHeader data (der_end version) (der_end outer) = Some authSafe"
      "readDERElementHeader data (der_contentOffset authSafe) (der_end authSafe) = Some contentType"
      "readDERElementHeader data (der_end contentType) (der_end authSafe) = Some content"
    and t: "der_tag outer = 0x30" "der_tag version = 0x02" "der_end version \<le> int (length data)"
      "der_end version - der_contentOffset version = 1"
      "data ! nat (der_contentOffset version) = byte_of_nat pkcs12Version" "der_tag authSafe = 0x30"
      "der_tag contentType = 0x06" "der_end contentType \<le> int (length data)" "der_tag content = 0xa0"
      "asn1_Unmarshal_ObjectIdentifier (slice data (der_contentOffset authSafe) (der_end contentType)) =
         Inr (oid, [])" "oid = oidPKCS7Data \<or> oid = oidPKCS7SignedData"
    by (auto simp: detectPKCS12_def split: option.splits if_splits sum.splits)
  have "0 \<le> der_contentOffset version" "0 \<le> der_contentOffset authSafe"
    using contentOffset_nonneg [OF h(2)] contentOffset_nonneg [OF h(3)] by simp_all
  moreover from this have "nat (der_contentOffset version) < length data"
    using t(3,4) by linarith
  then have "(data @ s) ! nat (der_contentOffset version) = data ! nat (der_contentOffset version)"
    by (simp add: nth_append)
  ultimately show ?thesis
    using t by (auto simp: detectPKCS12_def h [THEN r] slice_append unmarshalExact_Nil)
qed

interpretation pkcs12: detector detectPKCS12
  by unfold_locales (rule detect_append)

section \<open>The parser opens only what the detector accepts\<close>

lemma asn1_long_length_eq:
  "asn1_long_length n acc bs = Inr (len, rest) \<Longrightarrow>
     n \<le> length bs \<and> rest = drop n bs \<and> len = acc * 256 ^ n + be_nat (take n bs)"
proof (induction n acc bs rule: asn1_long_length.induct)
  case (3 n acc b bs)
  then have "asn1_long_length n (acc * 256 + unat b) bs = Inr (len, rest)" "\<not> 8388608 \<le> acc"
    "acc * 256 + unat b \<noteq> 0"
    by (auto simp: Let_def split: if_splits)
  with 3 show ?case by (auto simp: be_nat_Cons min_def algebra_simps)
qed auto

lemma asn1_long_length_first:
  assumes "asn1_long_length n 0 (b # bs) = Inr (len, rest)" and "n \<noteq> 0"
  shows "b \<noteq> 0"
  using assms by (cases n) (auto split: if_splits)

lemma asn1_long_length_few:
  "asn1_long_length n acc bs = Inr (len, rest) \<Longrightarrow> 0 < n \<Longrightarrow> acc * 256 ^ (n - 1) < 8388608"
proof (induction n acc bs rule: asn1_long_length.induct)
  case (3 n acc b bs)
  then have s: "asn1_long_length n (acc * 256 + unat b) bs = Inr (len, rest)" "acc < 8388608"
    "acc * 256 + unat b \<noteq> 0"
    by (auto simp: Let_def split: if_splits)
  show ?case
  proof (cases n)
    case (Suc m)
    have "acc * 256 ^ n \<le> (acc * 256 + unat b) * 256 ^ m" by (simp add: Suc)
    moreover have "(acc * 256 + unat b) * 256 ^ m < 8388608"
      using 3 s Suc by (simp add: Let_def)
    ultimately show ?thesis by simp
  qed (use s in simp)
qed auto

lemma asn1_long_length_max:
  assumes "asn1_long_length n 0 bs = Inr (len, rest)"
  shows "n \<le> 4"
proof (rule ccontr)
  assume "\<not> n \<le> 4"
  then obtain m where n: "n = Suc m" "4 \<le> m" by (cases n) auto
  with assms obtain b bs' where "bs = b # bs'" "0 < unat b" "asn1_long_length m (unat b) bs' = Inr (len, rest)"
    by (cases bs) (auto simp: Let_def split: if_splits)
  then have "unat b * 256 ^ (m - 1) < 8388608" "1 \<le> unat b"
    using asn1_long_length_few [of m] n(2) by auto
  moreover have "(256::nat) ^ 3 \<le> 256 ^ (m - 1)"
    using n(2) by (intro power_increasing) auto
  then have "1 * 256 ^ 3 \<le> unat b * 256 ^ (m - 1)"
    by (rule mult_le_mono [OF \<open>1 \<le> unat b\<close>])
  ultimately show False by simp
qed

text \<open>The header of an element with a one-byte tag, at its place in the data.\<close>

lemma header_bytes:
  assumes "data = pre @ t # b # bs"
  shows "data ! nat (int (length pre)) = t" "data ! nat (int (length pre) + 1) = b"
    "drop (nat (int (length pre) + 2)) data = bs"
proof -
  have "nat (int (length pre) + 1) = length pre + 1" "nat (int (length pre) + 2) = length pre + 2"
    by simp_all
  then show "data ! nat (int (length pre)) = t" "data ! nat (int (length pre) + 1) = b"
    "drop (nat (int (length pre) + 2)) data = bs"
    using assms by (simp_all add: nth_append)
qed

lemma short_form_at:
  assumes "asn1_length r = Inr (len, r')" and "len \<le> length r'"
    and "data = pre @ t # r" and "length data < 2 ^ 63"
    and "int (length data - length r' + len) \<le> limit"
    and first: "r = b # bs" and short: "b AND 0x80 = 0"
  shows "readDERElementHeader data (int (length pre)) limit =
    Some \<lparr>der_tag = t, der_contentOffset = int (length data - length r'),
          der_end = int (length data - length r' + len)\<rparr>"
proof -
  have r: "r = b # bs" by (rule first)
  note nth = header_bytes [OF assms(3) [unfolded r]]
  have len: "int (length data) < 2 ^ 63" using assms(4) by simp
  from short have "unat b < 128" by (simp add: byte_mask_tests)
  then have r': "r' = bs" and l: "len = unat b"
    using assms(1) short r by (auto simp: asn1_length_def unat_and_mask)
  have u: "unat (ucast b :: 64 word) = unat b"
    by (rule unat_ucast_byte) simp
  obtain w :: "64 word" where w: "ucast b = w" "uint w = int len"
    using that [OF refl] unfolding uint_nat u l by blast
  have "readDERElementHeader data (int (length pre)) limit =
      der_header_end t w (int (length pre) + 2) limit"
    using short assms(3,5) r r' nth w(1) by (auto simp: readDERElementHeader_def Let_def)
  then show ?thesis
    using assms(2,3,5) r r' len w(2) by (simp add: der_header_end_eq)
qed

lemma long_form_at:
  assumes "asn1_length r = Inr (len, r')" and "len \<le> length r'"
    and "data = pre @ t # r" and "length data < 2 ^ 63"
    and "int (length data - length r' + len) \<le> limit"
    and first: "r = b # bs" and long: "b AND 0x80 \<noteq> 0"
  shows "readDERElementHeader data (int (length pre)) limit =
    Some \<lparr>der_tag = t, der_contentOffset = int (length data - length r'),
          der_end = int (length data - length r' + len)\<rparr>"
proof -
  have r: "r = b # bs" by (rule first)
  note nth = header_bytes [OF assms(3) [unfolded r]]
  have len: "int (length data) < 2 ^ 63" using assms(4) by simp
  define k where "k = unat (b AND 0x7f)"
  from assms(1) long r have l: "asn1_long_length k 0 bs = Inr (len, r')" "k \<noteq> 0" "128 \<le> len"
    by (auto simp: asn1_length_def Let_def k_def split: if_splits sum.splits)
  note e = asn1_long_length_eq [OF l(1)] and m = asn1_long_length_max [OF l(1)]
  obtain c cs where bs: "bs = c # cs" using e l(2) by (cases bs) auto
  have c: "c \<noteq> 0" using asn1_long_length_first l bs by blast
  have "data ! nat (int (length pre) + 2) = c"
    using assms(3) r bs by (simp add: nat_add_distrib nth_append)
  moreover have "uint (b AND 0x7f) = int k" by (simp only: k_def uint_nat)
  moreover have "unat (der_length_word (take k bs)) = len"
    using e m by (simp add: unat_der_length_word)
  then have w: "uint (der_length_word (take k bs)) = int len" "\<not> der_length_word (take k bs) < 128"
    using l(3) by (simp_all only: uint_nat word_less_nat_alt) simp_all
  ultimately have "readDERElementHeader data (int (length pre)) limit =
      der_header_end t (der_length_word (take k bs)) (int (length pre) + 2 + int k) limit"
    using long assms(3,5) r nth e l(2) m c
    by (simp add: readDERElementHeader_def Let_def)
  moreover have "int k + int len \<le> int (length bs)"
    using assms(2) e by auto
  ultimately show ?thesis
    using assms(3,5) r len e w by (simp add: der_header_end_eq)
qed

lemma asn1_length_at:
  assumes "asn1_length r = Inr (len, r')" and "len \<le> length r'"
    and "data = pre @ t # r" and "length data < 2 ^ 63"
    and "int (length data - length r' + len) \<le> limit"
  shows "readDERElementHeader data (int (length pre)) limit =
    Some \<lparr>der_tag = t, der_contentOffset = int (length data - length r'),
          der_end = int (length data - length r' + len)\<rparr>"
proof -
  from assms(1) obtain b bs where "r = b # bs" by (cases r) (auto simp: asn1_length_def)
  with short_form_at [OF assms] long_form_at [OF assms] show ?thesis by blast
qed

lemma parseField_None:
  assumes "asn1_parseField (Some t) bs = Inr (v, rest)"
  shows "asn1_Unmarshal_RawValue bs = Inr (v, rest)" and "rv_Class v = 0" and "rv_Tag v = t"
    and "\<not> rv_IsCompound v"
  using assms by (auto simp: asn1_Unmarshal_RawValue_def asn1_parseField_def split: sum.splits if_splits)

text \<open>The identifier byte of an element with a low tag number.\<close>

definition identifier_byte :: "raw_value \<Rightarrow> byte" where
  "identifier_byte v = byte_of_nat (rv_Class v * 64 + (if rv_IsCompound v then 32 else 0) + rv_Tag v)"

lemma byte_bit_tests:
  fixes b :: byte
  shows "b AND 0x1f = 0x1f \<longleftrightarrow> unat b mod 32 = 31" and "b AND 0x20 = 0x20 \<longleftrightarrow> unat b div 32 mod 2 = 1"
proof -
  show "b AND 0x1f = 0x1f \<longleftrightarrow> unat b mod 32 = 31"
    by (simp add: word_unat_eq_iff unat_and_mask)
  have p: "(0x20 :: byte) = push_bit 5 1" by simp
  have "b AND 0x20 = 0x20 \<longleftrightarrow> bit b 5"
  proof
    assume "b AND 0x20 = 0x20"
    then have "bit (b AND push_bit 5 1) 5 = bit (push_bit 5 1 :: byte) 5"
      unfolding p by (rule arg_cong)
    then show "bit b 5" by (simp add: bit_and_iff bit_push_bit_iff)
  next
    assume "bit b 5"
    then show "b AND 0x20 = 0x20"
      unfolding p
      by (intro bit_word_eqI) (metis bit_and_iff bit_push_bit_iff bit_1_iff diff_is_0_eq le_antisym)
  qed
  also have "bit b 5 = bit (unat b) 5" by (simp add: bit_unsigned_iff)
  finally show "b AND 0x20 = 0x20 \<longleftrightarrow> unat b div 32 mod 2 = 1"
    by (simp add: bit_iff_odd odd_iff_mod_2_eq_one)
qed

lemma byte_split:
  "n div 64 * 64 + (if n div 32 mod 2 = 1 then 32 else 0) + n mod 32 = (n :: nat)"
proof -
  have *: "a * 64 + (if m = 1 then 32 else 0) + r = k"
    if "k = q * 32 + r" "q = a * 2 + m" "m < 2" for a m q r k :: nat
    using that by (cases "m = 1") auto
  have "n div 32 = n div 64 * 2 + n div 32 mod 2"
    using div_mult_mod_eq [of "n div 32" 2] by (simp add: div_mult2_eq [symmetric])
  then show ?thesis
    by (intro * [of _ "n div 32"]) simp_all
qed

lemma identifier_byte:
  assumes "parseTagAndLength (b # bs) = Inr (t, r)" and "tl_tag t < 31"
  shows "b = byte_of_nat (tl_class t * 64 + (if tl_isCompound t then 32 else 0) + tl_tag t)"
    and "asn1_length bs = Inr (tl_length t, r)"
proof -
  have low: "unat b mod 32 \<noteq> 31"
  proof
    assume "unat b mod 32 = 31"
    then have "b AND 0x1f = 0x1f" by (simp add: byte_bit_tests)
    with assms show False
      by (auto simp: parseTagAndLength_def asn1_tag_def split: sum.splits if_splits)
  qed
  then have t: "tl_class t = unat b div 64" "tl_tag t = unat b mod 32" "tl_isCompound t = (unat b div 32 mod 2 = 1)"
    and len: "asn1_length bs = Inr (tl_length t, r)"
    using assms by (auto simp: parseTagAndLength_def asn1_tag_def byte_bit_tests unat_and_mask split: sum.splits)
  show "asn1_length bs = Inr (tl_length t, r)" by (rule len)
  have "unat b div 64 * 64 + (if unat b div 32 mod 2 = 1 then 32 else 0) + unat b mod 32 = unat b"
    by (rule byte_split)
  then show "b = byte_of_nat (tl_class t * 64 + (if tl_isCompound t then 32 else 0) + tl_tag t)"
    unfolding t by simp
qed

text \<open>
  The header the detector reads at an element is the one the parser reads: its identifier byte,
  where its contents start and where it ends.
\<close>

lemma header_at:
  assumes "rv_wf v" and "rv_Tag v < 31" and "data = pre @ rv_FullBytes v @ post"
    and "length data < 2 ^ 63" and "int (length pre + length (rv_FullBytes v)) \<le> limit"
  shows "readDERElementHeader data (int (length pre)) limit =
    Some \<lparr>der_tag = identifier_byte v,
          der_contentOffset = int (length pre + (length (rv_FullBytes v) - length (rv_Bytes v))),
          der_end = int (length pre + length (rv_FullBytes v))\<rparr>"
proof -
  have parse: "asn1_parseField None (rv_FullBytes v @ post) = Inr (v, post)"
    using rv_wf_at [OF assms(1)] by (simp add: asn1_Unmarshal_RawValue_def)
  then obtain t r where tr: "parseTagAndLength (rv_FullBytes v @ post) = Inr (t, r)"
    by (cases "parseTagAndLength (rv_FullBytes v @ post)") (auto simp: asn1_parseField_def split: if_splits)
  define n where "n = length (rv_FullBytes v @ post) - length r + tl_length t"
  from parse tr have "tl_length t \<le> length r" "post = drop (tl_length t) r"
    and eq: "\<lparr>rv_Class = tl_class t, rv_Tag = tl_tag t, rv_IsCompound = tl_isCompound t,
          rv_Bytes = take (tl_length t) r, rv_FullBytes = take n (rv_FullBytes v @ post)\<rparr> = v"
    unfolding asn1_parseField_def n_def by (simp_all split: if_splits)
  note t = tr this(1,2)
  have f: "rv_Bytes v = take (tl_length t) r" "rv_Class v = tl_class t" "rv_Tag v = tl_tag t"
    "rv_IsCompound v = tl_isCompound t"
    using arg_cong [OF eq, of rv_Bytes] arg_cong [OF eq, of rv_Class] arg_cong [OF eq, of rv_Tag]
      arg_cong [OF eq, of rv_IsCompound] by simp_all
  note t = t f
  obtain b bs where f: "rv_FullBytes v = b # bs"
    using rv_wf_full [OF assms(1)] by (metis append_is_Nil_conv list.exhaust list.size(3) not_numeral_le_zero)
  from assms(2) t(1,6) f have "b = identifier_byte v" and len: "asn1_length (bs @ post) = Inr (tl_length t, r)"
    using identifier_byte [of b "bs @ post" t r] t(5,7) by (simp_all add: identifier_byte_def)
  have data: "data = pre @ b # (bs @ post)" using assms(3) f by simp
  have r: "r = rv_Bytes v @ post" using t(3,4) by simp
  have l: "tl_length t = length (rv_Bytes v)" using t(2,4) by simp
  obtain h where "rv_FullBytes v = h @ rv_Bytes v" using assms(1) by (rule rv_wf_full)
  then have le: "length (rv_Bytes v) \<le> length (rv_FullBytes v)" by simp
  have e: "length data - length r + tl_length t = length pre + length (rv_FullBytes v)"
    "length data - length r = length pre + (length (rv_FullBytes v) - length (rv_Bytes v))"
    using le unfolding assms(3) r l by simp_all
  have lim: "int (length data - length r + tl_length t) \<le> limit" unfolding e(1) by (rule assms(5))
  show ?thesis
    using asn1_length_at [OF len t(2) data assms(4) lim] unfolding e(1) unfolding e(2) \<open>b = identifier_byte v\<close> .
qed

text \<open>The integer 3 has one encoding.\<close>

lemma parseInt64_small:
  assumes "parseInt64 bs = Inr (int k)" and "k < 128"
  shows "bs = [byte_of_nat k]"
proof -
  from assms(1) have c: "checkInteger bs = None"
    and v: "(if unat (hd bs) < 128 then int (be_nat bs) else int (be_nat bs) - 256 ^ length bs) = int k"
    by (auto simp: parseInt64_def split: option.splits if_splits)
  have "int (be_nat bs) < 256 ^ length bs"
    using be_nat_less [of bs] by (metis of_nat_less_iff of_nat_numeral of_nat_power)
  then have "int (be_nat bs) - 256 ^ length bs \<noteq> int k" by linarith
  with v have h: "unat (hd bs) < 128" and k: "be_nat bs = k"
    by (auto split: if_splits)
  show ?thesis
  proof (cases bs)
    case Nil
    with c show ?thesis by (simp add: checkInteger_def)
  next
    case (Cons b0 r)
    show ?thesis
    proof (cases r)
      case Nil
      with Cons k show ?thesis by (auto simp: be_nat_Cons)
    next
      case (Cons b1 r')
      with \<open>bs = b0 # r\<close> k have sum: "unat b0 * 256 ^ Suc (length r') + (unat b1 * 256 ^ length r' + be_nat r') = k"
        by (simp add: be_nat_Cons)
      have "(1::nat) \<le> 256 ^ length r'" by simp
      then have "256 \<le> unat b0 * 256 ^ Suc (length r')" if "unat b0 \<noteq> 0"
        using that mult_le_mono [of 1 "unat b0" 256 "256 ^ Suc (length r')"] by simp
      then have "unat b0 = 0"
        using sum assms(2) by (cases "unat b0 = 0") (simp, linarith)
      moreover from this c Cons \<open>bs = b0 # r\<close> have "b1 AND 0x80 \<noteq> 0"
        by (auto simp: checkInteger_def unsigned_eq_0_iff split: if_splits)
      then have "128 \<le> unat b1" by (simp add: byte_mask_tests)
      then have "128 * 1 \<le> unat b1 * 256 ^ length r'" by (intro mult_le_mono) simp_all
      ultimately show ?thesis using sum assms(2) by simp
    qed
  qed
qed

lemma rawOID_wf:
  assumes "rawOID v = Inr oid" and "rv_wf v"
  shows "rv_Class v = 0" "rv_Tag v = 6" "\<not> rv_IsCompound v"
    "asn1_Unmarshal_ObjectIdentifier (rv_FullBytes v) = Inr (oid, [])"
proof -
  show o: "asn1_Unmarshal_ObjectIdentifier (rv_FullBytes v) = Inr (oid, [])"
    using assms(1) by (simp add: rawOID_def)
  then obtain w where w: "asn1_parseField (Some 6) (rv_FullBytes v) = Inr (w, [])"
    by (auto simp: asn1_Unmarshal_ObjectIdentifier_def map_sum_eq_Inr split: sum.splits)
  with parseField_None [OF w] assms(2) show "rv_Class v = 0" "rv_Tag v = 6" "\<not> rv_IsCompound v"
    by (auto simp: rv_wf_def)
qed

lemma rawInteger_wf:
  assumes "rawInteger v = Inr i" and "rv_wf v"
  shows "rv_Class v = 0" "rv_Tag v = 2" "\<not> rv_IsCompound v" "parseInt64 (rv_Bytes v) = Inr i"
proof -
  obtain w where w: "asn1_parseField (Some 2) (rv_FullBytes v) = Inr (w, [])" "parseInt64 (rv_Bytes w) = Inr i"
    using assms(1) by (auto simp: rawInteger_def asn1_Unmarshal_int_def map_sum_eq_Inr split: sum.splits)
  with parseField_None [OF w(1)] assms(2) show "rv_Class v = 0" "rv_Tag v = 2" "\<not> rv_IsCompound v"
    "parseInt64 (rv_Bytes v) = Inr i"
    by (auto simp: rv_wf_def)
qed

text \<open>A sequence as an element of the data, with the elements it holds.\<close>

lemma element_sequence:
  assumes "rawSequenceElements (rv_FullBytes s) ctxt maximum = Inr es" and "rv_wf s"
  shows "rv_Bytes s = concat (map rv_FullBytes es)" "identifier_byte s = 0x30" "rv_Tag s = 16" "list_all rv_wf es"
    "\<exists>h. rv_FullBytes s = h @ concat (map rv_FullBytes es) \<and>
       length h = length (rv_FullBytes s) - length (rv_Bytes s)"
proof -
  from assms have s: "rv_Class s = 0" "rv_Tag s = 16" "rv_IsCompound s"
      "rv_Bytes s = concat (map rv_FullBytes es)" "list_all rv_wf es"
    by (auto simp: rawSequenceElements_def rv_wf_def dest!: raw_elements_partition split: sum.splits if_splits)
  then show "rv_Bytes s = concat (map rv_FullBytes es)" "rv_Tag s = 16" "list_all rv_wf es" by simp_all
  show "identifier_byte s = 0x30"
    using s by (simp add: identifier_byte_def byte_of_nat_def)
  obtain h where "rv_FullBytes s = h @ rv_Bytes s" using assms(2) by (rule rv_wf_full)
  with s(4) show "\<exists>h. rv_FullBytes s = h @ concat (map rv_FullBytes es) \<and>
      length h = length (rv_FullBytes s) - length (rv_Bytes s)"
    by auto
qed

lemma sequence_whole:
  assumes "rawSequenceElements data ctxt maximum = Inr es"
  obtains s where "rv_wf s" "rv_FullBytes s = data"
proof -
  from assms obtain s where s: "asn1_Unmarshal_RawValue data = Inr (s, [])"
    by (auto simp: rawSequenceElements_def split: sum.splits if_splits)
  from s obtain h where "data = rv_FullBytes s @ []" by (rule Unmarshal_RawValue_append)
  with s show thesis by (intro that [of s]) (auto simp: rv_wf_def)
qed

text \<open>
  The elements of a store the parser can open: the outer sequence \<open>s\<close> with the version \<open>x\<close> and the
  content info \<open>y\<close>, which holds the type \<open>p\<close> and the explicit content \<open>q\<close>; \<open>h\<close> and \<open>g\<close> are the headers of
  the two sequences and \<open>z\<close> is what follows.
\<close>

definition pfx_layout ::
  "bytes \<Rightarrow> raw_value \<Rightarrow> raw_value \<Rightarrow> raw_value \<Rightarrow> raw_value \<Rightarrow> raw_value \<Rightarrow> bytes \<Rightarrow> bytes \<Rightarrow> bytes \<Rightarrow> bool" where
  "pfx_layout data s x y p q h g z \<longleftrightarrow>
     list_all rv_wf [s, x, y, p, q] \<and> rv_FullBytes s = data \<and>
     data = h @ rv_FullBytes x @ rv_FullBytes y @ z \<and> length h = length data - length (rv_Bytes s) \<and>
     rv_FullBytes y = g @ rv_FullBytes p @ rv_FullBytes q \<and> length g = length (rv_FullBytes y) - length (rv_Bytes y) \<and>
     map rv_Tag [s, x, y, p, q] = [16, 2, 16, 6, 0] \<and> map identifier_byte [s, x, y, p, q] = [0x30, 0x02, 0x30, 0x06, 0xa0] \<and>
     rv_Bytes x = [byte_of_nat pkcs12Version] \<and>
     asn1_Unmarshal_ObjectIdentifier (rv_FullBytes p) = Inr (oidPKCS7Data, [])"

lemma version_element:
  assumes "rawInteger x = Inr (int pkcs12Version)" and "rv_wf x"
  shows "rv_Tag x = 2" "identifier_byte x = 0x02" "rv_Bytes x = [byte_of_nat pkcs12Version]"
  using rawInteger_wf [OF assms] parseInt64_small [of "rv_Bytes x"]
  by (simp_all add: pkcs12Version_def identifier_byte_def byte_of_nat_def)

lemma opened_layout:
  assumes "p12_contentInfos data = Inr contents"
  obtains s x y p q h g z where "pfx_layout data s x y p q h g z"
proof -
  from assms obtain outer v b where outer: "rawSequenceElements data ''PFX'' 3 = Inr outer" "2 \<le> length outer"
    and i: "rawInteger (outer ! 0) = Inr (int pkcs12Version)" and v: "parseContentInfo (outer ! 1) = Inr (oidPKCS7Data, v)"
    by (auto simp: p12_contentInfos_def split: sum.splits if_splits)
  then obtain x y zs where xy: "outer = x # y # zs"
    by (metis Suc_le_length_iff numeral_2_eq_2)
  from v obtain es where inner: "rawSequenceElements (rv_FullBytes y) ''ContentInfo'' 2 = Inr es"
    "length es = 2" "rawOID (es ! 0) = Inr oidPKCS7Data" "is_explicit_0 (es ! 1)"
    by (auto simp: parseContentInfo_def xy split: sum.splits if_splits)
  then obtain p q where pq: "es = [p, q]"
    by (metis One_nat_def Suc_1 length_0_conv length_Suc_conv)
  obtain s where s: "rv_wf s" "rv_FullBytes s = data"
    using outer(1) by (rule sequence_whole)
  note S = element_sequence [OF outer(1) [folded s(2)] s(1)]
  then have wf: "rv_wf x" "rv_wf y" using xy by simp_all
  note Y = element_sequence [OF inner(1) wf(2)]
  then have wfpq: "rv_wf p" "rv_wf q" using pq by simp_all
  obtain h where h: "data = h @ concat (map rv_FullBytes outer)" "length h = length data - length (rv_Bytes s)"
    using S(5) s(2) by metis
  obtain g where g: "rv_FullBytes y = g @ concat (map rv_FullBytes es)" "length g = length (rv_FullBytes y) - length (rv_Bytes y)"
    using Y(5) by blast
  have p: "rv_Tag p = 6" "identifier_byte p = 0x06" "identifier_byte q = 0xa0" "rv_Tag q = 0"
    "asn1_Unmarshal_ObjectIdentifier (rv_FullBytes p) = Inr (oidPKCS7Data, [])"
    using rawOID_wf [of p] inner(3,4) wfpq by (simp_all add: pq is_explicit_0_def identifier_byte_def byte_of_nat_def)
  have x: "rv_Tag x = 2" "identifier_byte x = 0x02" "rv_Bytes x = [byte_of_nat pkcs12Version]"
    using version_element [of x] i wf(1) by (simp_all add: xy)
  have split: "data = h @ rv_FullBytes x @ rv_FullBytes y @ concat (map rv_FullBytes zs)"
    "rv_FullBytes y = g @ rv_FullBytes p @ rv_FullBytes q"
    using h(1) g(1) by (simp_all add: xy pq)
  have "pfx_layout data s x y p q h g (concat (map rv_FullBytes zs))"
    unfolding pfx_layout_def
    by (intro conjI split h(2) g(2) x(3) p(5) s(2)) (simp_all add: wf wfpq s(1) x p S(2,3) Y(2,3))
  then show thesis by (rule that)
qed

text \<open>
  C11: the detector accepts every file that the parser can open, up to the contents of its
  authenticated safe. So no readable PKCS#12 store is passed over as if it were another kind
  of file. (A Go slice is shorter than \<open>2 ^ 63\<close> bytes.)
\<close>

theorem pkcs12_opened_is_detected:
  assumes "p12_contentInfos data = Inr contents" and "length data < 2 ^ 63"
  shows "detectPKCS12 data"
proof -
  obtain s x y p q h g z where layout: "pfx_layout data s x y p q h g z" by (rule opened_layout [OF assms(1)])
  then have wf: "rv_wf s" "rv_wf x" "rv_wf y" "rv_wf p" "rv_wf q" and s: "rv_FullBytes s = data"
    and h: "data = h @ rv_FullBytes x @ rv_FullBytes y @ z" "length h = length data - length (rv_Bytes s)"
    and g: "rv_FullBytes y = g @ rv_FullBytes p @ rv_FullBytes q" "length g = length (rv_FullBytes y) - length (rv_Bytes y)"
    and tags: "rv_Tag s = 16" "rv_Tag x = 2" "rv_Tag y = 16" "rv_Tag p = 6" "rv_Tag q = 0"
    and ids: "identifier_byte s = 0x30" "identifier_byte x = 0x02" "identifier_byte y = 0x30" "identifier_byte p = 0x06"
      "identifier_byte q = 0xa0"
    and three: "rv_Bytes x = [byte_of_nat pkcs12Version]"
    and oid: "asn1_Unmarshal_ObjectIdentifier (rv_FullBytes p) = Inr (oidPKCS7Data, [])"
    unfolding pfx_layout_def list.map list.pred_inject list.inject by blast+
  obtain hx where hx: "rv_FullBytes x = hx @ rv_Bytes x" using wf(2) by (rule rv_wf_full)
  note len = assms(2)
  have "int (length data) \<le> uint maxInt" using len unfolding uint_maxInt by simp
  then have A: "readDERElementHeader data 0 (uint maxInt) =
      Some \<lparr>der_tag = 0x30, der_contentOffset = int (length h), der_end = int (length data)\<rparr>"
    using header_at [OF wf(1), of data "[]" "[]" "uint maxInt"] tags ids s len h(2) by simp
  have B: "readDERElementHeader data (int (length h)) (int (length data)) =
      Some \<lparr>der_tag = 0x02, der_contentOffset = int (length (h @ hx)), der_end = int (length (h @ rv_FullBytes x))\<rparr>"
    using header_at [OF wf(2), of data h "rv_FullBytes y @ z" "int (length data)"] tags ids len h(1) hx by simp
  have C: "readDERElementHeader data (int (length (h @ rv_FullBytes x))) (int (length data)) =
      Some \<lparr>der_tag = 0x30, der_contentOffset = int (length (h @ rv_FullBytes x @ g)),
            der_end = int (length (h @ rv_FullBytes x @ rv_FullBytes y))\<rparr>"
    using header_at [OF wf(3), of data "h @ rv_FullBytes x" z "int (length data)"] tags ids len h(1) g(2) by simp
  have D: "readDERElementHeader data (int (length (h @ rv_FullBytes x @ g))) (int (length (h @ rv_FullBytes x @ rv_FullBytes y))) =
      Some \<lparr>der_tag = 0x06, der_contentOffset = int (length (h @ rv_FullBytes x @ g) + (length (rv_FullBytes p) - length (rv_Bytes p))),
            der_end = int (length (h @ rv_FullBytes x @ g @ rv_FullBytes p))\<rparr>"
    using header_at [OF wf(4), of data "h @ rv_FullBytes x @ g" "rv_FullBytes q @ z"
        "int (length (h @ rv_FullBytes x @ rv_FullBytes y))"] tags ids len h(1) g(1) by simp
  have E: "\<exists>k. readDERElementHeader data (int (length (h @ rv_FullBytes x @ g @ rv_FullBytes p)))
      (int (length (h @ rv_FullBytes x @ rv_FullBytes y))) = Some k \<and> der_tag k = 0xa0"
    using header_at [OF wf(5), of data "h @ rv_FullBytes x @ g @ rv_FullBytes p" z
        "int (length (h @ rv_FullBytes x @ rv_FullBytes y))"] tags ids len h(1) g(1) by simp
  have "data ! nat (int (length (h @ hx))) = byte_of_nat pkcs12Version"
    unfolding nat_int using h(1) hx three by (simp add: nth_append)
  moreover have "slice data (int (length (h @ rv_FullBytes x @ g))) (int (length (h @ rv_FullBytes x @ g @ rv_FullBytes p))) =
      rv_FullBytes p"
    using h(1) g(1) by (simp add: slice_def)
  moreover have "int (length (h @ rv_FullBytes x)) - int (length (h @ hx)) = 1" using hx three by simp
  moreover have "length (h @ rv_FullBytes x) \<le> length data" "length (h @ rv_FullBytes x @ g @ rv_FullBytes p) \<le> length data"
    using h(1) g(1) by simp_all
  ultimately show ?thesis
    using E unfolding detectPKCS12_def A B option.case der_element_header.simps C D by (auto simp: oid)
qed

end
