(* ===== verification/Pkcs12Spec.thy ===== *)
theory Pkcs12Spec
  imports Pkcs12Facts
begin

text \<open>
  What a PKCS#12 file says, without the parser's counters: the bags of its contents in the order in which
  they are written, nested ones in the place of the bag that holds them. The parser reports
  exactly what these bags give, and marks a truststore exactly when none of them holds a key.
\<close>

section \<open>The bags of a file\<close>

text \<open>The kinds of bags of RFC 7292, with the values of those that can be read.\<close>

definition bag_kind :: "raw_value \<Rightarrow> nat option" where
  "bag_kind bag =
     (case parseSafeBag bag of
        Inr (bagID, _, _) \<Rightarrow>
          (if take 8 bagID = [1, 2, 840, 113549, 1, 12, 10, 1] \<and> length bagID = 9 then Some (bagID ! 8) else None)
      | Inl e \<Rightarrow> None)"

definition bag_value :: "raw_value \<Rightarrow> raw_value \<times> raw_value option" where
  "bag_value bag = (case parseSafeBag bag of Inr (_, value, attributes) \<Rightarrow> (value, attributes) | Inl e \<Rightarrow> (bag, None))"

definition holds_key :: "raw_value \<Rightarrow> bool" where
  "holds_key bag \<longleftrightarrow> bag_kind bag = Some 1 \<or> bag_kind bag = Some 2 \<or> bag_kind bag = Some 5"

text \<open>The bags of a SafeContents with at most so many levels, in the order of the file.\<close>

primrec bags_in :: "nat \<Rightarrow> bytes \<Rightarrow> raw_value list" where
  "bags_in 0 encoded = []"
| "bags_in (Suc levels) encoded =
     (case rawSequenceElements encoded ''SafeContents'' (maxPKCS12Bags + 1) of
        Inl e \<Rightarrow> []
      | Inr bags \<Rightarrow> concat (map (\<lambda>bag. bag #
          (if bag_kind bag = Some 6 then bags_in levels (rv_Bytes (fst (bag_value bag))) else [])) bags))"

definition content_bags :: "raw_value \<Rightarrow> raw_value list" where
  "content_bags contentInfo =
     (case parseContentInfo contentInfo of
        Inl e \<Rightarrow> []
      | Inr (contentType, content) \<Rightarrow>
          if contentType \<noteq> oidPKCS7Data then []
          else (case explicitOctets content of Inl e \<Rightarrow> [] | Inr encoded \<Rightarrow>
            bags_in (maxPKCS12SafeContentsDepth + 1) encoded))"

text \<open>The first so many elements of several lists together.\<close>

fun first_of :: "nat \<Rightarrow> 'a list list \<Rightarrow> 'a list list" where
  "first_of n [] = []"
| "first_of n (xs # xss) = take n xs # first_of (n - length xs) xss"

text \<open>The bags of the contents of a file that are within the limit.\<close>

definition file_bags :: "bytes \<Rightarrow> raw_value list list" where
  "file_bags data =
     (case p12_contentInfos data of Inl e \<Rightarrow> [] | Inr contentInfos \<Rightarrow>
        first_of maxPKCS12Bags (map content_bags contentInfos))"

text \<open>
  The certificates in the bags of a content: the position of each is the number of certificate bags
  before it, readable or not.
\<close>

definition bag_certificate :: "x509_lib \<Rightarrow> nat \<times> raw_value \<times> raw_value option \<Rightarrow> pkcs12_certificate list" where
  "bag_certificate lib x =
     (case x of (position, value, attributes) \<Rightarrow>
        (case parsePKCS12CertificateBag value of
           Inl e \<Rightarrow> []
         | Inr der \<Rightarrow>
            (case ParseCertificate lib der of
               Inl e \<Rightarrow> []
             | Inr certificate \<Rightarrow>
                [\<lparr>p12c_certificate = certificate,
                  p12c_keystore = \<lparr>ks_Format = ''PKCS#12'', ks_Alias = [],
                    ks_FriendlyName = (case parseFriendlyName attributes of Inl e \<Rightarrow> [] | Inr name \<Rightarrow> name),
                    ks_EntryType = ''certBag'', ks_ChainIndex = int position, ks_Truststore = False\<rparr>\<rparr>])))"

definition certificate_bags :: "raw_value list \<Rightarrow> (raw_value \<times> raw_value option) list" where
  "certificate_bags bags = map bag_value (filter (\<lambda>bag. bag_kind bag = Some 3) bags)"

definition bag_certificates :: "x509_lib \<Rightarrow> nat \<Rightarrow> raw_value list \<Rightarrow> pkcs12_certificate list" where
  "bag_certificates lib start bags = concat (map (bag_certificate lib) (enumerate start (certificate_bags bags)))"

lemma certificate_bags_simps [simp]:
  "certificate_bags [] = []"
  "certificate_bags (bag # bags) =
     (if bag_kind bag = Some 3 then [bag_value bag] else []) @ certificate_bags bags"
  "certificate_bags (bs @ cs) = certificate_bags bs @ certificate_bags cs"
  by (simp_all add: certificate_bags_def)

lemma bag_certificates_simps [simp]:
  "bag_certificates lib n [] = []"
  "bag_certificates lib n (bag # bags) =
     (if bag_kind bag = Some 3 then bag_certificate lib (n, bag_value bag) @ bag_certificates lib (n + 1) bags
      else bag_certificates lib n bags)"
  "bag_certificates lib n (bs @ cs) =
     bag_certificates lib n bs @ bag_certificates lib (n + length (certificate_bags bs)) cs"
  by (simp_all add: bag_certificates_def enumerate_append_eq)


section \<open>The kinds as the loop tells them apart\<close>

lemmas bag_oids = oidPKCS12KeyBag_def oidPKCS12ShroudedKeyBag_def oidPKCS12SecretBag_def
  oidPKCS12CertBag_def oidPKCS12SafeContentsBag_def

lemma bag_kind_read:
  assumes "parseSafeBag bag = Inr (bagID, value, attributes)"
  shows "is_keyBag bagID \<longleftrightarrow> holds_key bag" and "bagID = oidPKCS12CertBag \<longleftrightarrow> bag_kind bag = Some 3"
    and "bagID = oidPKCS12SafeContentsBag \<longleftrightarrow> bag_kind bag = Some 6" and "bag_value bag = (value, attributes)"
proof -
  have "bagID = [1, 2, 840, 113549, 1, 12, 10, 1, n] \<longleftrightarrow> bag_kind bag = Some n" for n
  proof
    assume "bag_kind bag = Some n"
    with assms have b: "take 8 bagID = [1, 2, 840, 113549, 1, 12, 10, 1]" "length bagID = 9" "bagID ! 8 = n"
      by (auto simp: bag_kind_def split: if_splits)
    then have "bagID = take 8 bagID @ [bagID ! 8]" by (metis take_Suc_conv_app_nth lessI numeral_eq_Suc order_refl pred_numeral_simps(3) take_all arith_simps(2,3))
    with b show "bagID = [1, 2, 840, 113549, 1, 12, 10, 1, n]" by simp
  qed (simp add: bag_kind_def assms)
  then show "is_keyBag bagID \<longleftrightarrow> holds_key bag" "bagID = oidPKCS12CertBag \<longleftrightarrow> bag_kind bag = Some 3"
    "bagID = oidPKCS12SafeContentsBag \<longleftrightarrow> bag_kind bag = Some 6"
    by (simp_all add: is_keyBag_def holds_key_def bag_oids)
  show "bag_value bag = (value, attributes)" by (simp add: bag_value_def assms)
qed

lemma bag_kind_unread: "parseSafeBag bag = Inl e \<Longrightarrow> bag_kind bag = None"
  by (simp add: bag_kind_def)

lemma key_not_read [simp]: "bag_kind bag = Some 3 \<Longrightarrow> \<not> holds_key bag" "bag_kind bag = Some 6 \<Longrightarrow> \<not> holds_key bag"
  "bag_kind bag = None \<Longrightarrow> \<not> holds_key bag"
  by (simp_all add: holds_key_def)

section \<open>What the parser makes of a list of bags\<close>

abbreviation bags_left :: "pkcs12_parser \<Rightarrow> nat" where
  "bags_left p \<equiv> maxPKCS12Bags - p12_bagCount p"

definition bags_taken ::
  "x509_lib \<Rightarrow> raw_value list \<Rightarrow> nat \<Rightarrow> pkcs12_parser \<Rightarrow> nat \<Rightarrow> pkcs12_parser \<Rightarrow> bool" where
  "bags_taken lib bags ci p ci' p' \<longleftrightarrow>
     p12_certificates p' = p12_certificates p @ bag_certificates lib ci (take (bags_left p) bags) \<and>
     ci' = ci + length (certificate_bags (take (bags_left p) bags)) \<and>
     p12_keyBagCount p' = p12_keyBagCount p + length (filter holds_key (take (bags_left p) bags)) \<and>
     bags_left p' = bags_left p - length bags \<and> p12_encrypted p' = p12_encrypted p"

lemma bags_taken_Nil: "bags_taken lib [] ci p ci p"
  by (simp add: bags_taken_def)

lemma bags_taken_append:
  "bags_taken lib bs ci p ci1 p1 \<Longrightarrow> bags_taken lib cs ci1 p1 ci2 p2 \<Longrightarrow> bags_taken lib (bs @ cs) ci p ci2 p2"
  by (simp add: bags_taken_def)

lemma bags_taken_none: "bags_left p = 0 \<Longrightarrow> bags_taken lib bs ci p ci (p\<lparr>p12_bagCount := p12_bagCount p + 1\<rparr>)"
  by (simp add: bags_taken_def)

lemma bags_taken_count:
  "bag_kind bag \<noteq> Some 3 \<Longrightarrow> \<not> holds_key bag \<Longrightarrow> bags_taken lib [bag] ci p ci (p\<lparr>p12_bagCount := p12_bagCount p + 1\<rparr>)"
  by (cases "bags_left p") (simp_all add: bags_taken_def)

lemma bags_taken_key:
  "p12_bagCount p < maxPKCS12Bags \<Longrightarrow> holds_key bag \<Longrightarrow> bags_taken lib [bag] ci p ci
     (p\<lparr>p12_bagCount := p12_bagCount p + 1, p12_keyBagCount := p12_keyBagCount p + 1\<rparr>)"
  by (cases "bags_left p") (auto simp: bags_taken_def holds_key_def)

lemma bags_taken_certificate:
  assumes "p12_certBag lib bagIndex value attributes ci errs (p\<lparr>p12_bagCount := p12_bagCount p + 1\<rparr>) = (ci', errs', p')"
    and "p12_bagCount p < maxPKCS12Bags" and "bag_kind bag = Some 3" and "bag_value bag = (value, attributes)"
  shows "bags_taken lib [bag] ci p ci' p'"
  using assms by (cases "bags_left p")
    (auto simp: bags_taken_def bag_certificate_def p12_certBag_def Let_def split: sum.splits)

text \<open>The bags of a list of elements, with those nested in them.\<close>

definition bags_of :: "nat \<Rightarrow> raw_value list \<Rightarrow> raw_value list" where
  "bags_of levels bags = concat (map (\<lambda>bag. bag #
     (if bag_kind bag = Some 6 then bags_in levels (rv_Bytes (fst (bag_value bag))) else [])) bags)"

lemma bags_of_simps [simp]:
  "bags_of levels [] = []"
  "bag_kind bag \<noteq> Some 6 \<Longrightarrow> bags_of levels (bag # bags) = [bag] @ bags_of levels bags"
  "bag_kind bag = Some 6 \<Longrightarrow> bags_of levels (bag # bags) =
     [bag] @ bags_in levels (rv_Bytes (fst (bag_value bag))) @ bags_of levels bags"
  by (simp_all add: bags_of_def)

lemma bags_in_Suc:
  "bags_in (Suc levels) encoded =
     (case rawSequenceElements encoded ''SafeContents'' (maxPKCS12Bags + 1) of Inl e \<Rightarrow> [] | Inr bags \<Rightarrow> bags_of levels bags)"
  by (simp add: bags_of_def cong: sum.case_cong)

declare bags_in.simps(2) [simp del]

lemma contents_taken:
  "parseSafeContents lib encoded depth ci p = (e, ci', p') \<Longrightarrow>
     bags_taken lib (bags_in (17 - depth) encoded) ci p ci' p'"
  "depth \<le> 16 \<Longrightarrow> safe_bags lib depth bagIndex bags errs ci p = (e, ci', p') \<Longrightarrow>
     bags_taken lib (bags_of (16 - depth) bags) ci p ci' p'"
proof (induction lib encoded depth ci p and lib depth bagIndex bags errs ci p
    arbitrary: e ci' p' and e ci' p' rule: parseSafeContents_safe_bags.induct)
  case (1 lib encoded depth ci p)
  show ?case
  proof (cases "16 < depth")
    case True
    with "1.prems" show ?thesis
      by (simp add: parseSafeContents.simps maxPKCS12SafeContentsDepth_def bags_taken_Nil)
  next
    case False
    then have levels: "17 - depth = Suc (16 - depth)" by simp
    show ?thesis
      using "1.prems" "1.IH" False unfolding levels bags_in_Suc
      by (cases "rawSequenceElements encoded ''SafeContents'' (maxPKCS12Bags + 1)")
        (simp_all add: parseSafeContents.simps maxPKCS12SafeContentsDepth_def bags_taken_Nil)
  qed
next
  case (2 lib depth bagIndex errs ci p)
  then show ?case by (simp add: bags_taken_Nil)
next
  case (3 lib depth bagIndex bag bags errs ci p)
  define q where "q = p\<lparr>p12_bagCount := p12_bagCount p + 1\<rparr>"
  note IH = "3.IH" [OF q_def] and depth = "3.prems"(1)
  have lim: "p12_bagCount p < maxPKCS12Bags" if "\<not> maxPKCS12Bags < p12_bagCount q" using that by (simp add: q_def)
  from "3.prems"(2) q_def show ?case
  proof (cases rule: safe_bags_ConsE)
    case limit
    then have "bags_left p = 0" by (simp add: q_def)
    from bags_taken_none [OF this] limit(3,4) show ?thesis by (simp add: q_def)
  next
    case (unread err)
    note kind = bag_kind_unread [OF unread(2)]
    have "bags_taken lib [bag] ci p ci q" unfolding q_def using kind by (intro bags_taken_count) simp_all
    from bags_taken_append [OF this IH(1) [OF unread(1,2) depth unread(3)]] kind show ?thesis by simp
  next
    case (key i v as)
    note kind = bag_kind_read [OF key(2)]
    have "bags_taken lib [bag] ci p ci (q\<lparr>p12_keyBagCount := p12_keyBagCount q + 1\<rparr>)"
      using bags_taken_key [OF lim [OF key(1)]] key(3) kind(1) by (simp add: q_def)
    from bags_taken_append [OF this IH(2) [OF key(1,2) refl refl key(3) depth key(4)]] key(3) kind
    show ?thesis by (auto simp: holds_key_def)
  next
    case (cert i v as ci1 errs1 p1)
    note kind = bag_kind_read [OF cert(2)]
    have "bags_taken lib [bag] ci p ci1 p1"
      using cert(4) kind by (intro bags_taken_certificate [OF cert(5) [symmetric, unfolded q_def] lim [OF cert(1)]]) auto
    from bags_taken_append [OF this IH(3) [OF cert(1,2) refl refl cert(3-5) refl depth cert(6)]] cert(4) kind
    show ?thesis by simp
  next
    case (nested i v as e1 ci1 p1)
    note kind = bag_kind_read [OF nested(2)]
    have b: "bag_kind bag = Some 6" using nested(5) kind by simp
    have "bags_taken lib [bag] ci p ci q" unfolding q_def using b by (intro bags_taken_count) simp_all
    from bags_taken_append [OF this bags_taken_append [OF
        IH(4) [OF nested(1,2) refl refl nested(3-5) nested(6) [symmetric]]
        IH(5) [OF nested(1,2) refl refl nested(3-6) refl depth nested(7)]]] depth b kind(4)
    show ?thesis by simp
  next
    case (other i v as)
    note kind = bag_kind_read [OF other(2)]
    have "bags_taken lib [bag] ci p ci q" unfolding q_def using other kind by (intro bags_taken_count) simp_all
    from bags_taken_append [OF this IH(6) [OF other(1,2) refl refl other(3-5) depth other(6)]] other kind
    show ?thesis by simp
  qed
qed


section \<open>What the parser makes of a file\<close>

definition content_encrypted :: "nat \<times> raw_value \<Rightarrow> pkcs12_encrypted_content list" where
  "content_encrypted x =
     (case x of (contentIndex, contentInfo) \<Rightarrow>
        (case parseContentInfo contentInfo of
           Inl e \<Rightarrow> []
         | Inr (contentType, content) \<Rightarrow>
             if contentType \<noteq> oidPKCS7EncryptedData then []
             else (case parseEncryptedContent content contentIndex of Inl e \<Rightarrow> [] | Inr finding \<Rightarrow> [finding])))"

definition file_encrypted :: "bytes \<Rightarrow> pkcs12_encrypted_content list" where
  "file_encrypted data =
     (case p12_contentInfos data of Inl e \<Rightarrow> [] | Inr contentInfos \<Rightarrow>
        concat (map content_encrypted (enumerate 0 contentInfos)))"

abbreviation without_gaps :: "x509_lib \<Rightarrow> raw_value list \<Rightarrow> bool" where
  "without_gaps lib bags \<equiv> map p12_index (bag_certificates lib 0 bags) = map int [0..<length (certificate_bags bags)]"

lemma data_is_not_encrypted [simp]: "oidPKCS7Data \<noteq> oidPKCS7EncryptedData"
  by (simp add: oidPKCS7Data_def oidPKCS7EncryptedData_def)

lemma content_taken:
  fixes p contentInfo lib i
  defines "p' \<equiv> p12_content lib i contentInfo p" and "bags \<equiv> take (bags_left p) (content_bags contentInfo)"
  shows "p12_certificates p' = p12_certificates p @ bag_certificates lib 0 bags"
    and "p12_keyBagCount p' = p12_keyBagCount p + length (filter holds_key bags)"
    and "bags_left p' = bags_left p - length (content_bags contentInfo)"
    and "p12_encrypted p' = p12_encrypted p @ content_encrypted (i, contentInfo)"
    and "p12_errors p' = [] \<Longrightarrow> p12_errors p = [] \<and> without_gaps lib bags"
proof -
  consider (other) "content_bags contentInfo = []"
      "p12_certificates p' = p12_certificates p" "p12_keyBagCount p' = p12_keyBagCount p" "bags_left p' = bags_left p"
      "p12_encrypted p' = p12_encrypted p @ content_encrypted (i, contentInfo)" "p12_errors p' = [] \<Longrightarrow> p12_errors p = []"
    | (data) v b where "parseContentInfo contentInfo = Inr (oidPKCS7Data, v)" "explicitOctets v = Inr b"
  proof (cases "parseContentInfo contentInfo")
    case (Inl e)
    show thesis by (rule other) (simp_all add: content_bags_def content_encrypted_def p'_def p12_content_def Inl)
  next
    case (Inr x)
    then obtain ty v where x: "parseContentInfo contentInfo = Inr (ty, v)" by (cases x) auto
    show thesis
    proof (cases "ty = oidPKCS7Data")
      case True
      note x = x [unfolded True]
      show thesis
      proof (cases "explicitOctets v")
        case (Inl e)
        show thesis by (rule other) (simp_all add: content_bags_def content_encrypted_def p'_def p12_content_def Inl x)
      next
        case (Inr b)
        with x show thesis by (rule data)
      qed
    next
      case False
      show thesis
        by (rule other) (auto simp: content_bags_def content_encrypted_def p'_def p12_content_def x False
          split: sum.splits if_splits)
    qed
  qed
  then have "p12_certificates p' = p12_certificates p @ bag_certificates lib 0 bags \<and>
     p12_keyBagCount p' = p12_keyBagCount p + length (filter holds_key bags) \<and>
     bags_left p' = bags_left p - length (content_bags contentInfo) \<and>
     p12_encrypted p' = p12_encrypted p @ content_encrypted (i, contentInfo) \<and>
     (p12_errors p' = [] \<longrightarrow> p12_errors p = [] \<and> without_gaps lib bags)"
  proof cases
    case other
    then show ?thesis by (simp add: bags_def)
  next
    case data
    obtain e ci q where run: "parseSafeContents lib b 0 0 p = (e, ci, q)" by (metis prod_cases3)
    have cb: "content_bags contentInfo = bags_in 17 b"
      by (simp add: content_bags_def data maxPKCS12SafeContentsDepth_def)
    have enc: "content_encrypted (i, contentInfo) = []" by (simp add: content_encrypted_def data)
    have taken: "bags_taken lib (content_bags contentInfo) 0 p ci q"
      using contents_taken(1) [OF run] by (simp add: cb)
    have errors: "p12_errors q = p12_errors p"
      using safe_contents_run(1) [OF _ _ run, of b] by (simp add: p12_run_def)
    have p': "p' = (case e of None \<Rightarrow> q | Some e \<Rightarrow> p12_addError (Wrapf ''content %d SafeContents: %w'' [AInt (int i)] e) q)"
      by (simp add: p'_def p12_content_def data run split: option.split)
    have gaps: "without_gaps lib bags" if "e = None"
      using safe_contents_clean(1) [OF run [unfolded that]] taken by (auto simp: bags_taken_def bags_def)
    show ?thesis
      using taken errors gaps by (cases e) (simp_all add: p' enc bags_taken_def bags_def)
  qed
  then show "p12_certificates p' = p12_certificates p @ bag_certificates lib 0 bags"
    "p12_keyBagCount p' = p12_keyBagCount p + length (filter holds_key bags)"
    "bags_left p' = bags_left p - length (content_bags contentInfo)"
    "p12_encrypted p' = p12_encrypted p @ content_encrypted (i, contentInfo)"
    "p12_errors p' = [] \<Longrightarrow> p12_errors p = [] \<and> without_gaps lib bags"
    by simp_all
qed

lemma contents_of_file_taken:
  fixes p contentInfos lib i
  defines "p' \<equiv> p12_contents lib i contentInfos p" and "bagss \<equiv> first_of (bags_left p) (map content_bags contentInfos)"
  shows "p12_certificates p' = p12_certificates p @ concat (map (bag_certificates lib 0) bagss)"
    and "p12_keyBagCount p' = p12_keyBagCount p + length (filter holds_key (concat bagss))"
    and "p12_encrypted p' = p12_encrypted p @ concat (map content_encrypted (enumerate i contentInfos))"
    and "p12_errors p' = [] \<Longrightarrow> p12_errors p = [] \<and> list_all (without_gaps lib) bagss"
  unfolding p'_def bagss_def
proof (induction contentInfos arbitrary: i p)
  case (Cons c cs)
  case 1
  show ?case using Cons(1) [of "i + 1" "p12_content lib i c p"] by (simp add: content_taken(1,3))
next
  case (Cons c cs)
  case 2
  show ?case using Cons(2) [of "i + 1" "p12_content lib i c p"] by (simp add: content_taken(2,3))
next
  case (Cons c cs)
  case 3
  show ?case using Cons(3) [of "i + 1" "p12_content lib i c p"] by (simp add: content_taken(4))
next
  case (Cons c cs)
  case 4
  show ?case using Cons(4) [of "i + 1" "p12_content lib i c p"] 4 content_taken(5) [of lib i c p]
    by (simp add: content_taken(3))
qed simp_all

lemma bag_certificates_sorted:
  "sorted_wrt (<) (map p12_index (bag_certificates lib n bags)) \<and>
   (\<forall>c\<in>set (bag_certificates lib n bags). int n \<le> p12_index c)"
proof (induction bags arbitrary: n)
  case (Cons bag bags)
  have b: "bag_certificate lib (n, x) = [] \<or> (\<exists>c. bag_certificate lib (n, x) = [c] \<and> p12_index c = int n)" for x
    by (cases x) (simp add: bag_certificate_def split: sum.split)
  note IH = Cons [of n] Cons [of "n + 1"]
  show ?case
  proof (cases "bag_kind bag = Some 3")
    case True
    have "int n \<le> p12_index c \<and> int n < p12_index c" if "c \<in> set (bag_certificates lib (n + 1) bags)" for c
      using IH(2) that by fastforce
    with IH(2) b [of "bag_value bag"] True show ?thesis by (elim disjE exE) simp_all
  next
    case False
    with IH(1) show ?thesis by simp
  qed
qed simp

lemma setTruststore_bag_certificates [simp]:
  "map (p12_setTruststore False) (bag_certificates lib n bags) = bag_certificates lib n bags"
proof -
  have "map (p12_setTruststore False) (bag_certificate lib x) = bag_certificate lib x" for x
    by (cases x) (simp add: bag_certificate_def p12_setTruststore_def split: sum.split)
  then show ?thesis by (simp add: bag_certificates_def map_concat comp_def)
qed

text \<open>The parser on a whole file, in terms of the bags of the file.\<close>

lemma parsePKCS12_file:
  "fst (parsePKCS12 lib data) =
     map (p12_setTruststore (filter holds_key (concat (file_bags data)) = [] \<and> file_encrypted data = []))
       (concat (map (bag_certificates lib 0) (file_bags data)))"
  "fst (snd (parsePKCS12 lib data)) = file_encrypted data"
  "snd (snd (parsePKCS12 lib data)) = None \<Longrightarrow> list_all (without_gaps lib) (file_bags data)"
proof -
  let ?mark = "filter holds_key (concat (file_bags data)) = [] \<and> file_encrypted data = []"
  let ?found = "concat (map (bag_certificates lib 0) (file_bags data))"
  have "fst (parsePKCS12 lib data) = map (p12_setTruststore ?mark) ?found \<and>
    fst (snd (parsePKCS12 lib data)) = file_encrypted data \<and>
    (snd (snd (parsePKCS12 lib data)) = None \<longrightarrow> list_all (without_gaps lib) (file_bags data))"
  proof (cases "p12_contentInfos data")
    case (Inl e)
    then show ?thesis by (simp add: parsePKCS12_def file_bags_def file_encrypted_def)
  next
    case (Inr cs)
    define p where "p = p12_contents lib 0 cs p12_initial"
    have bags: "file_bags data = first_of (bags_left p12_initial) (map content_bags cs)"
      and enc: "file_encrypted data = concat (map content_encrypted (enumerate 0 cs))"
      by (simp_all add: file_bags_def file_encrypted_def Inr p12_initial_def)
    note taken = contents_of_file_taken [of lib 0 cs p12_initial, folded p_def bags enc]
    have p: "p12_certificates p = ?found" "p12_encrypted p = file_encrypted data"
      "p12_keyBagCount p = length (filter holds_key (concat (file_bags data)))"
      using taken(1-3) by (simp_all add: p12_initial_def)
    have gaps: "p12_errors p = [] \<Longrightarrow> list_all (without_gaps lib) (file_bags data)"
      using taken(4) by simp
    have "parsePKCS12 lib data =
        (map (p12_setTruststore (?found \<noteq> [] \<and> ?mark)) ?found, file_encrypted data, errors_Join_list (p12_errors p))"
      by (simp only: parsePKCS12_def Inr sum.case Let_def p_def [symmetric] p length_greater_0_conv length_0_conv conj_assoc)
    with gaps show ?thesis by (cases "?found = []") auto
  qed
  then show "fst (parsePKCS12 lib data) = map (p12_setTruststore ?mark) ?found"
    "fst (snd (parsePKCS12 lib data)) = file_encrypted data"
    "snd (snd (parsePKCS12 lib data)) = None \<Longrightarrow> list_all (without_gaps lib) (file_bags data)"
    by simp_all
qed

text \<open>
  C30: a PKCS#12 store is marked as a truststore exactly when none of the bags that are read in it,
  nested ones included, holds a key, a shrouded key or a secret, and none of its contents is
  encrypted; the mark is the same for all its certificates.
\<close>

theorem pkcs12_truststore_sound:
  "list_all (\<lambda>c. ks_Truststore (p12c_keystore c) \<longleftrightarrow>
       filter holds_key (concat (file_bags data)) = [] \<and> file_encrypted data = [])
     (fst (parsePKCS12 lib data)) \<and>
   fst (snd (parsePKCS12 lib data)) = file_encrypted data"
  by (auto simp: list_all_iff parsePKCS12_file(1,2))

text \<open>
  C31: the certificates of a PKCS#12 file are, content after content and in the order of their
  bags, those of the certificate bags that can be read, each with the number of certificate bags
  before it in the same content as its chain index. So the chain indices of a content increase
  strictly, and when no error is reported they are 0, 1, 2 up to the number of its certificate bags.
\<close>

theorem pkcs12_chain_positions:
  "map (p12_setTruststore False) (fst (parsePKCS12 lib data)) =
     concat (map (bag_certificates lib 0) (file_bags data)) \<and>
   list_all (\<lambda>bags. sorted_wrt (<) (map p12_index (bag_certificates lib 0 bags))) (file_bags data) \<and>
   (snd (snd (parsePKCS12 lib data)) = None \<longrightarrow>
      list_all (\<lambda>bags. map p12_index (bag_certificates lib 0 bags) = map int [0..<length (certificate_bags bags)])
        (file_bags data))"
proof -
  have "p12_setTruststore False (p12_setTruststore t c) = p12_setTruststore False c" for t c
    by (simp add: p12_setTruststore_def)
  then show ?thesis
    using bag_certificates_sorted parsePKCS12_file(3) [of lib data]
    by (simp add: parsePKCS12_file(1) list_all_iff map_concat comp_def)
qed

end
