(* ===== verification/Pkcs12Store.thy ===== *)
theory Pkcs12Store
  imports Pkcs12Detect Pkcs12Spec
begin

unbundle bit_operations_syntax

text \<open>
  What the PKCS#12 parser is for: a store as abstract contents and bags, its DER encoding, and
  the theorem that the parser recovers what can be read without a password. The encoder is the
  specification; nothing of it is in the source.
\<close>

section \<open>DER\<close>

fun length_bytes :: "nat \<Rightarrow> bytes" where
  "length_bytes n = (if n < 256 then [byte_of_nat n] else length_bytes (n div 256) @ [byte_of_nat (n mod 256)])"

declare length_bytes.simps [simp del]

definition der_length :: "nat \<Rightarrow> bytes" where
  "der_length n = (if n < 128 then [byte_of_nat n]
     else byte_of_nat (128 + length (length_bytes n)) # length_bytes n)"

definition tlv :: "nat \<Rightarrow> bytes \<Rightarrow> bytes" where
  "tlv ident bs = byte_of_nat ident # der_length (length bs) @ bs"

text \<open>The element that reading \<open>tlv ident bs\<close> gives.\<close>

definition element :: "nat \<Rightarrow> bytes \<Rightarrow> raw_value" where
  "element ident bs = \<lparr>rv_Class = ident div 64, rv_Tag = ident mod 32,
     rv_IsCompound = (ident div 32 mod 2 = 1), rv_Bytes = bs, rv_FullBytes = tlv ident bs\<rparr>"

lemma element_simps [simp]:
  "rv_Class (element ident bs) = ident div 64" "rv_Tag (element ident bs) = ident mod 32"
  "rv_IsCompound (element ident bs) = (ident div 32 mod 2 = 1)" "rv_Bytes (element ident bs) = bs"
  "rv_FullBytes (element ident bs) = tlv ident bs"
  by (simp_all add: element_def)

lemma length_bytes_pos: "0 < length (length_bytes n)"
  by (subst length_bytes.simps) simp

lemma long_length_append:
  "asn1_long_length (length xs + m) acc (xs @ q) =
     (case asn1_long_length (length xs) acc xs of Inl e \<Rightarrow> Inl e
      | Inr (len, rest) \<Rightarrow> asn1_long_length m len q)"
  by (induction xs arbitrary: acc) (auto simp: Let_def)

lemma long_length_at:
  assumes "0 < n" and "n < 2 ^ 31"
  shows "asn1_long_length (length (length_bytes n)) 0 (length_bytes n) = Inr (n, [])"
  using assms
proof (induction n rule: length_bytes.induct)
  case (1 n)
  show ?case
  proof (cases "n < 256")
    case True
    with 1 show ?thesis by (simp add: length_bytes.simps [of n])
  next
    case False
    then have "asn1_long_length (length (length_bytes (n div 256))) 0 (length_bytes (n div 256)) =
        Inr (n div 256, [])"
      using 1 by auto
    moreover have "n div 256 < 8388608" "n div 256 * 256 + n mod 256 = n" "0 < n"
      using 1(3) False by auto
    ultimately show ?thesis
      using False long_length_append [of "length_bytes (n div 256)" 1 0 "[byte_of_nat (n mod 256)]"]
      by (simp add: length_bytes.simps [of n])
  qed
qed

lemma length_length_bytes: "n < 256 ^ k \<Longrightarrow> 0 < k \<Longrightarrow> length (length_bytes n) \<le> k"
proof (induction k arbitrary: n)
  case (Suc k)
  then show ?case
    by (cases k; subst length_bytes.simps) (auto simp: less_mult_imp_div_less)
qed simp

lemma asn1_length_der:
  assumes "n < 2 ^ 31"
  shows "asn1_length (der_length n @ q) = Inr (n, q)"
proof (cases "n < 128")
  case True
  then show ?thesis
    by (simp add: der_length_def asn1_length_def byte_mask_tests unat_and_mask)
next
  case False
  let ?k = "length (length_bytes n)"
  have "n < 256 ^ 4" using assms by simp
  then have k: "?k \<le> 4" "0 < ?k"
    using length_length_bytes length_bytes_pos by simp_all
  have "asn1_long_length ?k 0 (length_bytes n) = Inr (n, [])"
    using False assms by (intro long_length_at) simp_all
  with long_length_append [of "length_bytes n" 0 0 q] have "asn1_long_length ?k 0 (length_bytes n @ q) = Inr (n, q)"
    by simp
  with False k show ?thesis
    by (simp add: der_length_def asn1_length_def Let_def byte_mask_tests unat_and_mask)
qed

lemma tlv_at:
  assumes "length bs < 2 ^ 31" and "ident < 256" and "ident mod 32 \<noteq> 31"
    and "expected = None \<or> (expected = Some ident \<and> ident < 31)"
  shows "asn1_parseField expected (tlv ident bs @ q) = Inr (element ident bs, q)"
proof -
  have "parseTagAndLength (tlv ident bs @ q) =
      Inr (\<lparr>tl_class = ident div 64, tl_tag = ident mod 32, tl_isCompound = (ident div 32 mod 2 = 1),
            tl_length = length bs\<rparr>, bs @ q)"
    using assms(2,3) asn1_length_der [OF assms(1)]
    by (simp add: tlv_def parseTagAndLength_def asn1_tag_def byte_bit_tests unat_and_mask)
  moreover have "tlv ident bs \<noteq> []" by (simp add: tlv_def)
  ultimately show ?thesis
    using assms(4) by (auto simp: asn1_parseField_def element_def tlv_def)
qed

lemma element_wf:
  assumes "length bs < 2 ^ 31" and "ident < 256" and "ident mod 32 \<noteq> 31"
  shows "rv_wf (element ident bs)"
  using tlv_at [OF assms, of None "[]"] by (simp add: rv_wf_def asn1_Unmarshal_RawValue_def)

lemma sequence_read:
  assumes "list_all rv_wf es" and "length es \<le> maximum" and "encoded = tlv 0x30 (concat (map rv_FullBytes es))"
    and "length encoded < 2 ^ 31"
  shows "rawSequenceElements encoded ctxt maximum = Inr es"
proof -
  let ?bs = "concat (map rv_FullBytes es)"
  have "length ?bs < 2 ^ 31" using assms(3,4) by (simp add: tlv_def)
  then have "asn1_Unmarshal_RawValue encoded = Inr (element 0x30 ?bs, [])"
    using tlv_at [of ?bs "0x30" None "[]"] assms(3) by (simp add: asn1_Unmarshal_RawValue_def)
  with assms(1,2) show ?thesis
    by (simp add: rawSequenceElements_def raw_elements_at)
qed

section \<open>Stores\<close>

datatype key_kind = PlainKey | ShroudedKey | SecretValue

datatype safe_bag =
    CertBag "rune list option" bytes x509_cert
  | KeyBag key_kind bytes
  | NestedBag "safe_bag list"
  | CRLBag bytes

datatype safe_content = DataContent "safe_bag list" | EncryptedContent bytes bytes

definition seq_of :: "raw_value list \<Rightarrow> raw_value" where
  "seq_of es = element 0x30 (concat (map rv_FullBytes es))"

definition explicit_of :: "raw_value list \<Rightarrow> raw_value" where
  "explicit_of es = element 0xa0 (concat (map rv_FullBytes es))"

definition set_of :: "raw_value list \<Rightarrow> raw_value" where
  "set_of es = element 0x31 (concat (map rv_FullBytes es))"

definition pkcs12_bag_oid :: "nat \<Rightarrow> raw_value" where
  "pkcs12_bag_oid k = element 6 [0x2a, 0x86, 0x48, 0x86, 0xf7, 0x0d, 0x01, 0x0c, 0x0a, 0x01, byte_of_nat k]"

definition pkcs7_oid :: "nat \<Rightarrow> raw_value" where
  "pkcs7_oid k = element 6 [0x2a, 0x86, 0x48, 0x86, 0xf7, 0x0d, 0x01, 0x07, byte_of_nat k]"

definition x509Certificate_oid :: raw_value where
  "x509Certificate_oid = element 6 [0x2a, 0x86, 0x48, 0x86, 0xf7, 0x0d, 0x01, 0x09, 0x16, 0x01]"

definition friendlyName_oid :: raw_value where
  "friendlyName_oid = element 6 [0x2a, 0x86, 0x48, 0x86, 0xf7, 0x0d, 0x01, 0x09, 0x14]"

definition utf16be_bytes :: "rune list \<Rightarrow> bytes" where
  "utf16be_bytes rs = concat (map (\<lambda>u. be_bytes 2 (unat u)) (utf16_encode rs))"

fun name_attributes :: "rune list option \<Rightarrow> raw_value list" where
  "name_attributes None = []"
| "name_attributes (Some rs) =
     [set_of [seq_of [friendlyName_oid, set_of [element 30 (utf16be_bytes rs)]]]]"

fun key_number :: "key_kind \<Rightarrow> nat" where
  "key_number PlainKey = 1" | "key_number ShroudedKey = 2" | "key_number SecretValue = 5"

fun bag_element :: "safe_bag \<Rightarrow> raw_value" where
  "bag_element (CertBag name der x) =
     seq_of ([pkcs12_bag_oid 3, explicit_of [seq_of [x509Certificate_oid, explicit_of [element 4 der]]]] @
       name_attributes name)"
| "bag_element (KeyBag kind blob) = seq_of [pkcs12_bag_oid (key_number kind), element 0xa0 blob]"
| "bag_element (NestedBag bags) = seq_of [pkcs12_bag_oid 6, explicit_of [seq_of (map bag_element bags)]]"
| "bag_element (CRLBag blob) = seq_of [pkcs12_bag_oid 4, element 0xa0 blob]"

fun content_element :: "safe_content \<Rightarrow> raw_value" where
  "content_element (DataContent bags) =
     seq_of [pkcs7_oid 1, explicit_of [element 4 (rv_FullBytes (seq_of (map bag_element bags)))]]"
| "content_element (EncryptedContent alg cipher) =
     seq_of [pkcs7_oid 6, explicit_of [seq_of [element 2 [0],
       seq_of [pkcs7_oid 1, seq_of [element 6 alg], element 0x80 cipher]]]]"

text \<open>A PFX with at most one more field, the integrity data, which is any element.\<close>

definition pfx_bytes :: "safe_content list \<Rightarrow> raw_value option \<Rightarrow> bytes" where
  "pfx_bytes contents mac = rv_FullBytes (seq_of ([element 2 [3], seq_of [pkcs7_oid 1,
     explicit_of [element 4 (rv_FullBytes (seq_of (map content_element contents)))]]] @ option_list mac))"

text \<open>What the parser is to find.\<close>

fun bag_certs :: "safe_bag \<Rightarrow> (string \<times> x509_cert) list" where
  "bag_certs (CertBag name der x) = [(case name of None \<Rightarrow> [] | Some rs \<Rightarrow> string_of_runes rs, x)]"
| "bag_certs (NestedBag bags) = concat (map bag_certs bags)"
| "bag_certs _ = []"

fun bag_count :: "safe_bag \<Rightarrow> nat" where
  "bag_count (NestedBag bags) = 1 + sum_list (map bag_count bags)"
| "bag_count _ = 1"

fun bag_keys :: "safe_bag \<Rightarrow> nat" where
  "bag_keys (KeyBag _ _) = 1"
| "bag_keys (NestedBag bags) = sum_list (map bag_keys bags)"
| "bag_keys _ = 0"

text \<open>\<open>bag_ok lib d b\<close>: nested at most \<open>d\<close> levels deep, with certificates the X.509 parser accepts.\<close>

fun bag_ok :: "x509_lib \<Rightarrow> nat \<Rightarrow> safe_bag \<Rightarrow> bool" where
  "bag_ok lib d (CertBag name der x) =
     (ParseCertificate lib der = Inr x \<and> pred_option (list_all is_scalar) name)"
| "bag_ok lib 0 (NestedBag bags) = False"
| "bag_ok lib (Suc d) (NestedBag bags) = list_all (bag_ok lib d) bags"
| "bag_ok lib d _ = True"

definition p12_report :: "bool \<Rightarrow> nat \<Rightarrow> string \<times> x509_cert \<Rightarrow> pkcs12_certificate" where
  "p12_report truststore i c = \<lparr>p12c_certificate = snd c,
     p12c_keystore = \<lparr>ks_Format = ''PKCS#12'', ks_Alias = [], ks_FriendlyName = fst c,
       ks_EntryType = ''certBag'', ks_ChainIndex = int i, ks_Truststore = truststore\<rparr>\<rparr>"

fun p12_reports :: "bool \<Rightarrow> nat \<Rightarrow> (string \<times> x509_cert) list \<Rightarrow> pkcs12_certificate list" where
  "p12_reports t i [] = []"
| "p12_reports t i (c # cs) = p12_report t i c # p12_reports t (i + 1) cs"

lemma p12_reports_append [simp]:
  "p12_reports t i (xs @ ys) = p12_reports t i xs @ p12_reports t (i + length xs) ys"
  by (induction xs arbitrary: i) simp_all

definition after_bags :: "safe_bag list \<Rightarrow> nat \<Rightarrow> pkcs12_parser \<Rightarrow> pkcs12_parser" where
  "after_bags bags ci p =
     p\<lparr>p12_certificates := p12_certificates p @ p12_reports False ci (concat (map bag_certs bags)),
       p12_bagCount := p12_bagCount p + sum_list (map bag_count bags),
       p12_keyBagCount := p12_keyBagCount p + sum_list (map bag_keys bags)\<rparr>"

section \<open>Reading the elements of a store\<close>

abbreviation small :: "raw_value \<Rightarrow> bool" where
  "small v \<equiv> length (rv_FullBytes v) < 2 ^ 31"

lemma small_parts:
  "small (element ident bs) \<Longrightarrow> length bs < 2 ^ 31"
  "small (seq_of es) \<Longrightarrow> list_all small es" "small (explicit_of es) \<Longrightarrow> list_all small es"
  "small (set_of es) \<Longrightarrow> list_all small es"
proof -
  have le: "length (rv_FullBytes v) \<le> length (concat (map rv_FullBytes es))" if "v \<in> set es" for v es
    using that by (induction es) auto
  show 1: "small (element ident bs) \<Longrightarrow> length bs < 2 ^ 31" for ident bs by (simp add: tlv_def)
  show "small (seq_of es) \<Longrightarrow> list_all small es" "small (explicit_of es) \<Longrightarrow> list_all small es"
    "small (set_of es) \<Longrightarrow> list_all small es"
    unfolding seq_of_def explicit_of_def set_of_def list_all_iff
    using le 1 by (blast intro: le_less_trans)+
qed

lemma element_wf_small:
  "small (element ident bs) \<Longrightarrow> ident < 256 \<Longrightarrow> ident mod 32 \<noteq> 31 \<Longrightarrow> rv_wf (element ident bs)"
  by (rule element_wf [OF small_parts(1)])

lemma seq_of_wf [simp]: "small (seq_of es) \<Longrightarrow> rv_wf (seq_of es)"
  by (simp add: seq_of_def element_wf_small del: element_simps)

lemma explicit_of_wf [simp]: "small (explicit_of es) \<Longrightarrow> rv_wf (explicit_of es)"
  by (simp add: explicit_of_def element_wf_small del: element_simps)

lemma set_of_wf [simp]: "small (set_of es) \<Longrightarrow> rv_wf (set_of es)"
  by (simp add: set_of_def element_wf_small del: element_simps)

lemma seq_of_read:
  assumes "small (seq_of es)" and "list_all rv_wf es" and "length es \<le> maximum"
  shows "rawSequenceElements (rv_FullBytes (seq_of es)) ctxt maximum = Inr es"
  using assms(1) by (intro sequence_read [OF assms(2,3)]) (simp_all add: seq_of_def)

lemma oids_read [simp]:
  "rawOID (pkcs12_bag_oid 1) = Inr oidPKCS12KeyBag" "rawOID (pkcs12_bag_oid 2) = Inr oidPKCS12ShroudedKeyBag"
  "rawOID (pkcs12_bag_oid 3) = Inr oidPKCS12CertBag" "rawOID (pkcs12_bag_oid 5) = Inr oidPKCS12SecretBag"
  "rawOID (pkcs12_bag_oid 4) = Inr [1, 2, 840, 113549, 1, 12, 10, 1, 4]"
  "rawOID (pkcs12_bag_oid 6) = Inr oidPKCS12SafeContentsBag"
  "rawOID (pkcs7_oid 1) = Inr oidPKCS7Data" "rawOID (pkcs7_oid 6) = Inr oidPKCS7EncryptedData"
  "rawOID x509Certificate_oid = Inr oidPKCS12X509Certificate"
  "rawOID friendlyName_oid = Inr oidPKCS12FriendlyName"
  "rawInteger (element 2 [3]) = Inr (int pkcs12Version)" "rawInteger (element 2 [0]) = Inr 0"
  by code_simp+

lemma oids_wf [simp]:
  "rv_wf (pkcs12_bag_oid k)" "rv_wf (pkcs7_oid k)" "rv_wf x509Certificate_oid" "rv_wf friendlyName_oid"
  "rv_wf (element 2 [i])"
  by (simp_all add: pkcs12_bag_oid_def pkcs7_oid_def x509Certificate_oid_def friendlyName_oid_def element_wf)

lemma oids_distinct [simp]:
  "is_keyBag oidPKCS12KeyBag" "is_keyBag oidPKCS12ShroudedKeyBag" "is_keyBag oidPKCS12SecretBag"
  "\<not> is_keyBag oidPKCS12CertBag" "\<not> is_keyBag oidPKCS12SafeContentsBag"
  "\<not> is_keyBag [1, 2, 840, 113549, 1, 12, 10, 1, 4]"
  "oidPKCS12SafeContentsBag \<noteq> oidPKCS12CertBag"
  "[1, 2, 840, 113549, 1, 12, 10, 1, 4] \<noteq> oidPKCS12CertBag"
  "[1, 2, 840, 113549, 1, 12, 10, 1, 4] \<noteq> oidPKCS12SafeContentsBag"
  "oidPKCS7EncryptedData \<noteq> oidPKCS7Data"
  by code_simp+

lemmas oids_Suc [simp] = oids_read [unfolded One_nat_def] oids_distinct [unfolded One_nat_def]

lemma is_explicit_0_of [simp]: "is_explicit_0 (explicit_of es)" "is_explicit_0 (element 0xa0 bs)"
  by (simp_all add: is_explicit_0_def explicit_of_def)

lemma octets_read:
  "length bs < 2 ^ 31 \<Longrightarrow> asn1_Unmarshal_bytes (rv_FullBytes (element 4 bs)) = Inr (bs, [])"
  using tlv_at [of bs 4 "Some 4" "[]"] by (simp add: asn1_Unmarshal_bytes_def)

lemma explicit_of_Bytes [simp]: "rv_Bytes (explicit_of [v]) = rv_FullBytes v"
  by (simp add: explicit_of_def)

lemma utf16be_units_bytes: "utf16be_units (concat (map (\<lambda>u. be_bytes 2 (unat u)) us)) = us"
proof (induction us)
  case (Cons u us)
  have "be_word [byte_of_nat (unat u div 256), byte_of_nat (unat u mod 256)] = u"
  proof -
    have "unat u div 256 < 256" using unat_unit_less [of u] by (simp only: less_mult_imp_div_less)
    then have "be_nat [byte_of_nat (unat u div 256), byte_of_nat (unat u mod 256)] = unat u"
      by (simp add: be_nat_def)
    then show ?thesis
      using unat_be_word [of "[byte_of_nat (unat u div 256), byte_of_nat (unat u mod 256)]", where 'a = 16]
      by (simp add: word_unat_eq_iff)
  qed
  moreover have "be_word [a, b] = (push_bit 8 (ucast a) OR ucast b :: 16 word)" for a b :: byte
    by (simp add: be_word_def)
  moreover have "be_bytes 2 (unat u) = [byte_of_nat (unat u div 256), byte_of_nat (unat u mod 256)]"
  proof -
    have "unat u div 256 mod 256 = unat u div 256"
      using unat_unit_less [of u] by (intro mod_less) (simp only: less_mult_imp_div_less)
    then show ?thesis by (simp add: numeral_2_eq_2)
  qed
  ultimately show ?case using Cons by simp
qed simp

lemma decodeUTF16BE_bytes:
  "list_all is_scalar rs \<Longrightarrow> decodeUTF16BE (utf16be_bytes rs) = Inr (string_of_runes rs)"
proof -
  assume rs: "list_all is_scalar rs"
  have "even (length (concat (map (\<lambda>u. be_bytes 2 (unat u)) us)))" for us :: "16 word list"
    by (induction us) simp_all
  then show ?thesis
    using decodeCodeUnits_encode [OF rs, of 0]
    by (simp add: decodeUTF16BE_def utf16be_bytes_def utf16be_units_bytes)
qed

lemma Unmarshal_one [simp]:
  "rv_wf v \<Longrightarrow> asn1_Unmarshal_RawValue (rv_FullBytes v) = Inr (v, [])"
  by (simp add: rv_wf_def)

lemma set_of_simps [simp]:
  "rv_Bytes (set_of [v]) = rv_FullBytes v" "rv_Class (set_of es) = 0" "rv_Tag (set_of es) = 17"
  "rv_IsCompound (set_of es)"
  by (simp_all add: set_of_def)

lemma rv_FullBytes_not_Nil: "rv_wf v \<Longrightarrow> rv_FullBytes v \<noteq> []"
  by (auto elim!: rv_wf_full)

lemma friendlyName_read:
  assumes "list_all is_scalar rs" and "small (set_of [seq_of [friendlyName_oid, set_of [element 30 (utf16be_bytes rs)]]])"
  shows "parseFriendlyName (Some (set_of [seq_of [friendlyName_oid, set_of [element 30 (utf16be_bytes rs)]]])) =
    Inr (string_of_runes rs)"
proof -
  let ?n = "element 30 (utf16be_bytes rs)"
  let ?s = "seq_of [friendlyName_oid, set_of [?n]]"
  have s: "small ?s" using small_parts(4) [OF assms(2)] by simp
  then have "small (set_of [?n])" using small_parts(2) [OF s] by simp
  then have n: "small ?n" and w: "rv_wf (set_of [?n])" using small_parts(4) [of "[?n]"] by auto
  have "rv_wf ?n" using n by (intro element_wf_small) simp_all
  then have name: "friendlyName_value (set_of [?n]) = Inr (string_of_runes rs)"
    using assms(1) by (simp add: friendlyName_value_def decodePKCS12String_def decodeUTF16BE_bytes
        del: element_simps(5))
  have "rawSequenceElements (rv_FullBytes ?s) ''attribute'' 2 = Inr [friendlyName_oid, set_of [?n]]"
    using s w by (intro seq_of_read) simp_all
  then show ?thesis
    using s name rv_FullBytes_not_Nil [OF seq_of_wf [OF s]]
    by (simp add: parseFriendlyName_def friendlyName_attributes.simps [of 0] maxPKCS12BagAttributes_def)
qed

lemma name_attributes_wf:
  "list_all small (name_attributes name) \<Longrightarrow> list_all rv_wf (name_attributes name)"
  by (cases name) simp_all

lemma certBag_read:
  assumes "small (seq_of [x509Certificate_oid, explicit_of [element 4 der]])"
  shows "parsePKCS12CertificateBag (explicit_of [seq_of [x509Certificate_oid, explicit_of [element 4 der]]]) = Inr der"
proof -
  have e: "small (explicit_of [element 4 der])" using small_parts(2) [OF assms] by simp
  then have "small (element 4 der)" using small_parts(3) [of "[element 4 der]"] by simp
  then have "asn1_Unmarshal_bytes (rv_FullBytes (element 4 der)) = Inr (der, [])"
    by (rule octets_read [OF small_parts(1)])
  moreover have "rawSequenceElements (rv_FullBytes (seq_of [x509Certificate_oid, explicit_of [element 4 der]]))
      ''CertBag'' 2 = Inr [x509Certificate_oid, explicit_of [element 4 der]]"
    using assms e by (intro seq_of_read) simp_all
  ultimately show ?thesis
    by (simp add: parsePKCS12CertificateBag_def del: element_simps(5))
qed

text \<open>The fields of a bag.\<close>

definition bag_elements :: "safe_bag \<Rightarrow> raw_value list" where
  "bag_elements b = (case b of
     CertBag name der x \<Rightarrow>
       [pkcs12_bag_oid 3, explicit_of [seq_of [x509Certificate_oid, explicit_of [element 4 der]]]] @
       name_attributes name
   | KeyBag kind blob \<Rightarrow> [pkcs12_bag_oid (key_number kind), element 0xa0 blob]
   | NestedBag bags \<Rightarrow> [pkcs12_bag_oid 6, explicit_of [seq_of (map bag_element bags)]]
   | CRLBag blob \<Rightarrow> [pkcs12_bag_oid 4, element 0xa0 blob])"

lemma bag_element_eq: "bag_element b = seq_of (bag_elements b)"
  by (cases b) (simp_all add: bag_elements_def)

definition bag_parts :: "safe_bag \<Rightarrow> oid \<times> raw_value \<times> raw_value option" where
  "bag_parts b = (case b of
     CertBag name der x \<Rightarrow> (oidPKCS12CertBag,
       explicit_of [seq_of [x509Certificate_oid, explicit_of [element 4 der]]],
       case name_attributes name of [] \<Rightarrow> None | a # _ \<Rightarrow> Some a)
   | KeyBag kind blob \<Rightarrow> (case kind of PlainKey \<Rightarrow> oidPKCS12KeyBag
       | ShroudedKey \<Rightarrow> oidPKCS12ShroudedKeyBag | SecretValue \<Rightarrow> oidPKCS12SecretBag, element 0xa0 blob, None)
   | NestedBag bags \<Rightarrow> (oidPKCS12SafeContentsBag, explicit_of [seq_of (map bag_element bags)], None)
   | CRLBag blob \<Rightarrow> ([1, 2, 840, 113549, 1, 12, 10, 1, 4], element 0xa0 blob, None))"

lemma bag_elements_wf:
  assumes "list_all small (bag_elements b)"
  shows "list_all rv_wf (bag_elements b)" and "length (bag_elements b) \<le> 3"
proof -
  have blob: "rv_wf (element 0xa0 bl)" if "small (element 0xa0 bl)" for bl
    using that by (intro element_wf_small) simp_all
  show "list_all rv_wf (bag_elements b)"
    using assms blob name_attributes_wf
    by (auto simp: bag_elements_def simp del: element_simps(5) split: safe_bag.splits)
  have "length (name_attributes name) \<le> 1" for name by (cases name) simp_all
  then show "length (bag_elements b) \<le> 3"
    by (auto simp: bag_elements_def split: safe_bag.split)
qed

lemma bag_read:
  assumes "small (bag_element b)"
  shows "parseSafeBag (bag_element b) = Inr (bag_parts b)"
proof -
  have sm: "small (seq_of (bag_elements b))" using assms by (simp add: bag_element_eq)
  note wf = bag_elements_wf [OF small_parts(2) [OF sm]]
  have "rawSequenceElements (rv_FullBytes (bag_element b)) ''SafeBag'' 3 = Inr (bag_elements b)"
    unfolding bag_element_eq using sm wf by (intro seq_of_read) simp_all
  then show ?thesis
  proof (cases b)
    case (CertBag name der x)
    with \<open>rawSequenceElements _ _ _ = _\<close> show ?thesis
      by (cases name) (simp_all add: parseSafeBag_def bag_elements_def bag_parts_def)
  next
    case (KeyBag kind blob)
    with \<open>rawSequenceElements _ _ _ = _\<close> show ?thesis
      by (cases kind) (simp_all add: parseSafeBag_def bag_elements_def bag_parts_def)
  qed (simp_all add: parseSafeBag_def bag_elements_def bag_parts_def)
qed

section \<open>The loops on the bags they expect\<close>

lemma after_bags_Nil [simp]: "after_bags [] ci p = p"
  by (simp add: after_bags_def)

lemma after_bags_Cons:
  "after_bags (b # bs) ci p = after_bags bs (ci + length (bag_certs b)) (after_bags [b] ci p)"
  by (simp add: after_bags_def add.assoc)

lemma after_bags_count [simp]:
  "p12_bagCount (after_bags bs ci p) = p12_bagCount p + sum_list (map bag_count bs)"
  by (simp add: after_bags_def)

lemma bag_count_pos: "0 < bag_count b"
  by (cases b) simp_all

lemma length_le_count: "length bs \<le> sum_list (map bag_count bs)"
proof (induction bs)
  case (Cons b bs)
  with bag_count_pos [of b] show ?case by simp
qed simp

text \<open>What reading one bag does, as a statement about the loop at that bag.\<close>

definition bag_runs :: "x509_lib \<Rightarrow> safe_bag \<Rightarrow> bool" where
  "bag_runs lib b \<longleftrightarrow> (\<forall>d depth i rest ci p.
     bag_ok lib d b \<and> depth + d \<le> maxPKCS12SafeContentsDepth \<and> small (bag_element b) \<and>
     p12_bagCount p + bag_count b \<le> maxPKCS12Bags \<longrightarrow>
     safe_bags lib depth i (bag_element b # rest) [] ci p =
       safe_bags lib depth (i + 1) rest [] (ci + length (bag_certs b)) (after_bags [b] ci p))"

lemma bags_run:
  assumes "\<forall>b\<in>set bs. bag_runs lib b" and "list_all (bag_ok lib d) bs"
    and "depth + d \<le> maxPKCS12SafeContentsDepth" and "list_all small (map bag_element bs)"
    and "p12_bagCount p + sum_list (map bag_count bs) \<le> maxPKCS12Bags"
  shows "safe_bags lib depth i (map bag_element bs) [] ci p =
    (None, ci + length (concat (map bag_certs bs)), after_bags bs ci p)"
  using assms
proof (induction bs arbitrary: i ci p)
  case Nil
  then show ?case by simp
next
  case (Cons b bs)
  then have "safe_bags lib depth i (bag_element b # map bag_element bs) [] ci p =
      safe_bags lib depth (i + 1) (map bag_element bs) [] (ci + length (bag_certs b)) (after_bags [b] ci p)"
    by (auto simp: bag_runs_def)
  also have "\<dots> = (None, ci + length (concat (map bag_certs (b # bs))), after_bags (b # bs) ci p)"
    using Cons.prems by (subst Cons.IH) (simp_all add: after_bags_Cons [of b bs] add.assoc)
  finally show ?case by simp
qed

lemma contents_run:
  assumes "\<forall>b\<in>set bs. bag_runs lib b" and "list_all (bag_ok lib d) bs"
    and "depth + d \<le> maxPKCS12SafeContentsDepth" and "small (seq_of (map bag_element bs))"
    and "p12_bagCount p + sum_list (map bag_count bs) \<le> maxPKCS12Bags"
  shows "parseSafeContents lib (rv_FullBytes (seq_of (map bag_element bs))) depth ci p =
    (None, ci + length (concat (map bag_certs bs)), after_bags bs ci p)"
proof -
  have sm: "list_all small (map bag_element bs)" using assms(4) by (rule small_parts(2))
  then have "list_all rv_wf (map bag_element bs)"
    by (auto simp: list_all_iff bag_element_eq)
  then have "rawSequenceElements (rv_FullBytes (seq_of (map bag_element bs))) ''SafeContents''
      (maxPKCS12Bags + 1) = Inr (map bag_element bs)"
    using assms(5) length_le_count [of bs] by (intro seq_of_read [OF assms(4)]) simp_all
  with bags_run [OF assms(1-3) sm assms(5)] assms(3) show ?thesis
    by (simp add: parseSafeContents.simps)
qed

lemma p12_certBag_at:
  assumes "ParseCertificate lib der = Inr x" and "pred_option (list_all is_scalar) name"
    and "small (bag_element (CertBag name der x))"
  shows "p12_certBag lib i (explicit_of [seq_of [x509Certificate_oid, explicit_of [element 4 der]]])
      (case name_attributes name of [] \<Rightarrow> None | a # _ \<Rightarrow> Some a) ci [] p =
    (ci + 1, [], p\<lparr>p12_certificates := p12_certificates p @
       p12_reports False ci (bag_certs (CertBag name der x))\<rparr>)"
proof -
  have sm: "list_all small (bag_elements (CertBag name der x))"
    using assms(3) by (intro small_parts(2)) (simp only: bag_element_eq)
  then have "small (seq_of [x509Certificate_oid, explicit_of [element 4 der]])"
    using small_parts(3) [of "[seq_of [x509Certificate_oid, explicit_of [element 4 der]]]"]
    by (simp add: bag_elements_def)
  note cert = certBag_read [OF this]
  show ?thesis
  proof (cases name)
    case None
    with assms(1) show ?thesis
      by (simp add: p12_certBag_def cert parseFriendlyName_def p12_report_def)
  next
    case (Some rs)
    with sm have "small (set_of [seq_of [friendlyName_oid, set_of [element 30 (utf16be_bytes rs)]]])"
      by (simp add: bag_elements_def)
    from friendlyName_read [OF _ this] Some assms(1,2) show ?thesis
      by (simp add: p12_certBag_def cert p12_report_def)
  qed
qed

lemma bag_runsI:
  assumes "\<And>d depth i rest ci p. \<lbrakk>bag_ok lib d b; depth + d \<le> maxPKCS12SafeContentsDepth; small (bag_element b);
      p12_bagCount p + bag_count b \<le> maxPKCS12Bags; parseSafeBag (bag_element b) = Inr (bag_parts b)\<rbrakk> \<Longrightarrow>
    safe_bags lib depth i (bag_element b # rest) [] ci (p :: pkcs12_parser) =
      safe_bags lib depth (i + 1) rest [] (ci + length (bag_certs b)) (after_bags [b] ci p)"
  shows "bag_runs lib b"
  unfolding bag_runs_def using assms bag_read by blast

lemma CertBag_runs: "bag_runs lib (CertBag name der x)"
proof (rule bag_runsI)
  fix d depth i rest ci and p :: pkcs12_parser
  assume ok: "bag_ok lib d (CertBag name der x)" and sm: "small (bag_element (CertBag name der x))"
    and n: "p12_bagCount p + bag_count (CertBag name der x) \<le> maxPKCS12Bags"
    and r: "parseSafeBag (bag_element (CertBag name der x)) = Inr (bag_parts (CertBag name der x))"
  from ok have c: "ParseCertificate lib der = Inr x" "pred_option (list_all is_scalar) name" by simp_all
  show "safe_bags lib depth i (bag_element (CertBag name der x) # rest) [] ci p =
    safe_bags lib depth (i + 1) rest [] (ci + length (bag_certs (CertBag name der x)))
      (after_bags [CertBag name der x] ci p)"
    unfolding safe_bags.simps(2) r
    using n p12_certBag_at [OF c sm] by (cases p) (simp add: Let_def bag_parts_def after_bags_def)
qed

lemma KeyBag_runs: "bag_runs lib (KeyBag kind blob)"
proof (rule bag_runsI)
  fix d depth i rest ci and p :: pkcs12_parser
  assume n: "p12_bagCount p + bag_count (KeyBag kind blob) \<le> maxPKCS12Bags"
    and r: "parseSafeBag (bag_element (KeyBag kind blob)) = Inr (bag_parts (KeyBag kind blob))"
  show "safe_bags lib depth i (bag_element (KeyBag kind blob) # rest) [] ci p =
    safe_bags lib depth (i + 1) rest [] (ci + length (bag_certs (KeyBag kind blob)))
      (after_bags [KeyBag kind blob] ci p)"
    unfolding safe_bags.simps(2) r
    using n by (cases kind) (simp_all add: Let_def bag_parts_def after_bags_def)
qed

lemma nested_bag_runs:
  assumes "\<And>b. b \<in> set bags \<Longrightarrow> bag_runs lib b"
  shows "bag_runs lib (NestedBag bags)"
proof (rule bag_runsI)
  fix d depth i rest ci and p :: pkcs12_parser
  assume ok: "bag_ok lib d (NestedBag bags)" and depth: "depth + d \<le> maxPKCS12SafeContentsDepth"
    and sm: "small (bag_element (NestedBag bags))"
    and n: "p12_bagCount p + bag_count (NestedBag bags) \<le> maxPKCS12Bags"
    and r: "parseSafeBag (bag_element (NestedBag bags)) = Inr (bag_parts (NestedBag bags))"
  obtain d' where d: "d = Suc d'" "list_all (bag_ok lib d') bags"
    using ok by (cases d) simp_all
  have "list_all small (bag_elements (NestedBag bags))"
    using sm by (intro small_parts(2)) (simp only: bag_element_eq)
  then have "small (seq_of (map bag_element bags))"
    using small_parts(3) [of "[seq_of (map bag_element bags)]"] by (simp add: bag_elements_def)
  then have "parseSafeContents lib (rv_FullBytes (seq_of (map bag_element bags))) (depth + 1) ci
      (p\<lparr>p12_bagCount := p12_bagCount p + 1\<rparr>) =
    (None, ci + length (concat (map bag_certs bags)), after_bags bags ci (p\<lparr>p12_bagCount := p12_bagCount p + 1\<rparr>))"
    using assms d depth n by (intro contents_run [where d = d']) simp_all
  then show "safe_bags lib depth i (bag_element (NestedBag bags) # rest) [] ci p =
    safe_bags lib depth (i + 1) rest [] (ci + length (bag_certs (NestedBag bags)))
      (after_bags [NestedBag bags] ci p)"
    unfolding safe_bags.simps(2) r
    using n by (simp add: Let_def bag_parts_def after_bags_def)
qed

lemma CRLBag_runs: "bag_runs lib (CRLBag blob)"
proof (rule bag_runsI)
  fix d depth i rest ci and p :: pkcs12_parser
  assume n: "p12_bagCount p + bag_count (CRLBag blob) \<le> maxPKCS12Bags"
    and r: "parseSafeBag (bag_element (CRLBag blob)) = Inr (bag_parts (CRLBag blob))"
  show "safe_bags lib depth i (bag_element (CRLBag blob) # rest) [] ci p =
    safe_bags lib depth (i + 1) rest [] (ci + length (bag_certs (CRLBag blob)))
      (after_bags [CRLBag blob] ci p)"
    unfolding safe_bags.simps(2) r
    using n by (simp add: Let_def bag_parts_def after_bags_def)
qed

lemma every_bag_runs: "bag_runs lib b"
  by (induction b) (simp_all add: CertBag_runs KeyBag_runs CRLBag_runs nested_bag_runs)

section \<open>The whole store\<close>

fun content_certs :: "safe_content \<Rightarrow> (string \<times> x509_cert) list" where
  "content_certs (DataContent bags) = concat (map bag_certs bags)"
| "content_certs (EncryptedContent alg cipher) = []"

fun content_bags :: "safe_content \<Rightarrow> safe_bag list" where
  "content_bags (DataContent bags) = bags"
| "content_bags (EncryptedContent alg cipher) = []"

fun content_ok :: "x509_lib \<Rightarrow> safe_content \<Rightarrow> bool" where
  "content_ok lib (DataContent bags) = list_all (bag_ok lib 16) bags"
| "content_ok lib (EncryptedContent alg cipher) = (\<exists>oid. parseObjectIdentifier alg = Inr oid)"

fun content_findings :: "nat \<Rightarrow> safe_content list \<Rightarrow> pkcs12_encrypted_content list" where
  "content_findings i [] = []"
| "content_findings i (DataContent bags # cs) = content_findings (i + 1) cs"
| "content_findings i (EncryptedContent alg cipher # cs) =
     (case parseObjectIdentifier alg of
        Inl e \<Rightarrow> []
      | Inr oid \<Rightarrow> [\<lparr>enc_Path = [], enc_ArchiveEntries = [], enc_ContentIndex = int i,
          enc_Algorithm = pkcs12AlgorithmName oid, enc_AlgorithmOID = oid_String oid,
          enc_BagCount = None\<rparr>]) @ content_findings (i + 1) cs"

definition store_truststore :: "safe_content list \<Rightarrow> bool" where
  "store_truststore cs \<longleftrightarrow>
     concat (map content_certs cs) \<noteq> [] \<and> content_findings 0 cs = [] \<and>
     (\<forall>c\<in>set cs. \<forall>b\<in>set (content_bags c). bag_keys b = 0)"

definition pkcs12_fits :: "x509_lib \<Rightarrow> safe_content list \<Rightarrow> raw_value option \<Rightarrow> bool" where
  "pkcs12_fits lib cs mac \<longleftrightarrow>
     list_all (content_ok lib) cs \<and> length cs \<le> 256 \<and> length (pfx_bytes cs mac) < 2 ^ 31 \<and>
     pred_option rv_wf mac \<and> sum_list (map (\<lambda>c. sum_list (map bag_count (content_bags c))) cs) \<le> 10000"

lemma explicit_octets_read:
  assumes "small (explicit_of [element 4 bs])"
  shows "explicitOctets (explicit_of [element 4 bs]) = Inr bs" and "length bs < 2 ^ 31"
proof -
  have "small (element 4 bs)" using small_parts(3) [OF assms] by simp
  then show l: "length bs < 2 ^ 31" by (rule small_parts(1))
  show "explicitOctets (explicit_of [element 4 bs]) = Inr bs"
    using octets_read [OF l] by (simp add: explicitOctets_def del: element_simps(5))
qed

lemma contentInfo_read:
  assumes "small (seq_of [pkcs7_oid k, explicit_of es])" and "rawOID (pkcs7_oid k) = Inr oid"
  shows "parseContentInfo (seq_of [pkcs7_oid k, explicit_of es]) = Inr (oid, explicit_of es)"
proof -
  have "small (explicit_of es)" using small_parts(2) [OF assms(1)] by simp
  then have "rawSequenceElements (rv_FullBytes (seq_of [pkcs7_oid k, explicit_of es])) ''ContentInfo'' 2 =
      Inr [pkcs7_oid k, explicit_of es]"
    using assms(1) by (intro seq_of_read) simp_all
  with assms(2) show ?thesis
    by (simp add: parseContentInfo_def)
qed

lemma encrypted_read:
  assumes "small (content_element (EncryptedContent alg cipher))" and "parseObjectIdentifier alg = Inr oid"
  shows "parseEncryptedContent (explicit_of [seq_of [element 2 [0],
      seq_of [pkcs7_oid 1, seq_of [element 6 alg], element 0x80 cipher]]]) i =
    Inr \<lparr>enc_Path = [], enc_ArchiveEntries = [], enc_ContentIndex = int i,
      enc_Algorithm = pkcs12AlgorithmName oid, enc_AlgorithmOID = oid_String oid, enc_BagCount = None\<rparr>"
proof -
  let ?info = "[pkcs7_oid 1, seq_of [element 6 alg], element 0x80 cipher]"
  have "small (explicit_of [seq_of [element 2 [0], seq_of ?info]])"
    using small_parts(2) assms(1) by (metis content_element.simps(2) list.pred_inject(2))
  then have d: "small (seq_of [element 2 [0], seq_of ?info])"
    using small_parts(3) by (metis list.pred_inject(2))
  then have info: "small (seq_of ?info)"
    using small_parts(2) by (metis list.pred_inject(2))
  then have parts: "small (seq_of [element 6 alg])" "small (element 0x80 cipher)"
    using small_parts(2) by (metis list.pred_inject(2))+
  have alg: "small (element 6 alg)"
    using small_parts(2) [OF parts(1)] by simp
  have wf: "rv_wf (element 6 alg)" "rv_wf (element 0x80 cipher)"
    using alg parts(2) by (auto intro: element_wf_small)
  have "asn1_parseField (Some 6) (rv_FullBytes (element 6 alg)) = Inr (element 6 alg, [])"
    using tlv_at [OF small_parts(1) [OF alg], of 6 "Some 6" "[]"] by simp
  then have oid: "rawOID (element 6 alg) = Inr oid"
    using assms(2) by (simp add: rawOID_def asn1_Unmarshal_ObjectIdentifier_def)
  have "rawSequenceElements (rv_FullBytes (seq_of [element 2 [0], seq_of ?info])) ''EncryptedData'' 3 =
      Inr [element 2 [0], seq_of ?info]"
    using d info by (intro seq_of_read) simp_all
  moreover have "rawSequenceElements (rv_FullBytes (seq_of ?info)) ''EncryptedContentInfo'' 3 = Inr ?info"
    using info parts wf by (intro seq_of_read) simp_all
  moreover have "rawSequenceElements (rv_FullBytes (seq_of [element 6 alg])) ''content encryption algorithm'' 2 =
      Inr [element 6 alg]"
    using parts wf by (intro seq_of_read) simp_all
  ultimately show ?thesis
    using oid by (simp add: parseEncryptedContent_def encryptedContentInfo_algorithm_def del: element_simps(5))
qed

definition after_content :: "nat \<Rightarrow> safe_content \<Rightarrow> pkcs12_parser \<Rightarrow> pkcs12_parser" where
  "after_content i c p = (case c of
     DataContent bags \<Rightarrow> after_bags bags 0 p
   | EncryptedContent alg cipher \<Rightarrow> p\<lparr>p12_encrypted := p12_encrypted p @ content_findings i [c]\<rparr>)"

lemma content_at:
  assumes "content_ok lib c" and "small (content_element c)"
    and "p12_bagCount p + sum_list (map bag_count (content_bags c)) \<le> maxPKCS12Bags"
  shows "p12_content lib i (content_element c) p = after_content i c p"
proof (cases c)
  case (DataContent bags)
  let ?b = "rv_FullBytes (seq_of (map bag_element bags))"
  have sm: "small (seq_of [pkcs7_oid 1, explicit_of [element 4 ?b]])"
    using assms(2) DataContent by simp
  then have e: "small (explicit_of [element 4 ?b])"
    using small_parts(2) [OF sm] by simp
  note o = explicit_octets_read [OF e]
  have "parseSafeContents lib ?b 0 0 p = (None, length (concat (map bag_certs bags)), after_bags bags 0 p)"
    using contents_run [of bags lib 16 0 p 0] every_bag_runs assms(1,3) o(2) DataContent
    by (simp add: maxPKCS12SafeContentsDepth_def)
  then show ?thesis
    using contentInfo_read [OF sm oids_read(7)] o(1) DataContent
    by (simp add: p12_content_def after_content_def)
next
  case (EncryptedContent alg cipher)
  from assms(1) EncryptedContent obtain oid where oid: "parseObjectIdentifier alg = Inr oid" by auto
  have sm: "small (content_element (EncryptedContent alg cipher))"
    using assms(2) EncryptedContent by simp
  have "small (seq_of [pkcs7_oid 6, explicit_of [seq_of [element 2 [0],
       seq_of [pkcs7_oid 1, seq_of [element 6 alg], element 0x80 cipher]]]])"
    using sm by simp
  from contentInfo_read [OF this oids_read(8)] encrypted_read [OF sm oid, of i] oid show ?thesis
    by (simp add: EncryptedContent p12_content_def after_content_def)
qed

lemma contents_at:
  assumes "list_all (content_ok lib) cs" and "list_all small (map content_element cs)"
    and "p12_bagCount p + sum_list (map (\<lambda>c. sum_list (map bag_count (content_bags c))) cs) \<le> maxPKCS12Bags"
    and "p' = p12_contents lib i (map content_element cs) p"
  shows "p12_certificates p' = p12_certificates p @ concat (map (\<lambda>c. p12_reports False 0 (content_certs c)) cs) \<and>
    p12_encrypted p' = p12_encrypted p @ content_findings i cs \<and>
    p12_keyBagCount p' = p12_keyBagCount p + sum_list (map (\<lambda>c. sum_list (map bag_keys (content_bags c))) cs) \<and>
    p12_errors p' = p12_errors p"
  using assms
proof (induction cs arbitrary: i p)
  case Nil
  then show ?case by simp
next
  case (Cons c cs)
  let ?q = "after_content i c p"
  have step: "p12_content lib i (content_element c) p = ?q"
    using Cons.prems by (intro content_at) simp_all
  have q: "p12_bagCount ?q = p12_bagCount p + sum_list (map bag_count (content_bags c))"
    "p12_certificates ?q = p12_certificates p @ p12_reports False 0 (content_certs c)"
    "p12_encrypted ?q = p12_encrypted p @ content_findings i [c]"
    "p12_keyBagCount ?q = p12_keyBagCount p + sum_list (map bag_keys (content_bags c))"
    "p12_errors ?q = p12_errors p"
    by (cases c; simp add: after_content_def after_bags_def)+
  have f: "content_findings i (c # cs) = content_findings i [c] @ content_findings (i + 1) cs"
    by (cases c) simp_all
  have "list_all (content_ok lib) cs" "list_all small (map content_element cs)"
    "p12_bagCount ?q + sum_list (map (\<lambda>c. sum_list (map bag_count (content_bags c))) cs) \<le> maxPKCS12Bags"
    "p' = p12_contents lib (i + 1) (map content_element cs) ?q"
    using Cons.prems q(1) step by simp_all
  from Cons.IH [OF this] show ?case
    using q f by simp
qed

lemma reports_truststore:
  "map (p12_setTruststore t) (p12_reports f i cs) = p12_reports t i cs"
  by (induction cs arbitrary: i) (simp_all add: p12_report_def p12_setTruststore_def)

lemma reports_Nil [simp]: "p12_reports t i cs = [] \<longleftrightarrow> cs = []"
  by (cases cs) simp_all

lemma contentInfos_at:
  assumes "pkcs12_fits lib cs mac"
  shows "p12_contentInfos (pfx_bytes cs mac) = Inr (map content_element cs)"
    and "list_all small (map content_element cs)"
proof -
  let ?b = "rv_FullBytes (seq_of (map content_element cs))"
  let ?safe = "seq_of [pkcs7_oid 1, explicit_of [element 4 ?b]]"
  let ?outer = "[element 2 [3], ?safe] @ option_list mac"
  have sm: "small (seq_of ?outer)" and n: "length cs \<le> 256" and mac: "pred_option rv_wf mac"
    using assms by (simp_all add: pkcs12_fits_def pfx_bytes_def)
  then have safe: "small ?safe" using small_parts(2) [OF sm] by simp
  then have "small (explicit_of [element 4 ?b])" using small_parts(2) [OF safe] by simp
  note o = explicit_octets_read [OF this]
  show es: "list_all small (map content_element cs)" by (rule small_parts(2) [OF o(2)])
  have w: "rv_wf (content_element c)" if "small (content_element c)" for c
  proof -
    obtain es where "content_element c = seq_of es"
      by (cases c) (simp_all only: content_element.simps)
    with that show ?thesis by (simp only: seq_of_wf)
  qed
  have "small (content_element c)" if "c \<in> set cs" for c
    using es that unfolding list_all_iff by simp
  then have wf: "list_all rv_wf (map content_element cs)"
    unfolding list_all_iff set_map using w by (auto simp only:)
  have outer: "rawSequenceElements (pfx_bytes cs mac) ''PFX'' 3 = Inr ?outer"
    unfolding pfx_bytes_def using sm safe mac
    by (intro seq_of_read) (cases mac; simp)+
  have "rawSequenceElements ?b ''AuthenticatedSafe'' maxPKCS12ContentInfos = Inr (map content_element cs)"
    using wf n o(2) by (intro seq_of_read) (simp_all add: maxPKCS12ContentInfos_def)
  then show "p12_contentInfos (pfx_bytes cs mac) = Inr (map content_element cs)"
    unfolding p12_contentInfos_def outer
    using contentInfo_read [OF safe oids_read(7)] o(1) by (cases mac) simp_all
qed

text \<open>
  C4: parsing the DER encoding of a PKCS#12 store gives back the certificates of its unencrypted
  contents, nested bags included, in order and with friendly names and positions; one finding
  with the algorithm for every encrypted content; no error; and the truststore mark exactly
  when there are certificates, no key bag and no encrypted content. The bytes of keys, of
  encrypted contents and of the integrity data do not matter.
\<close>

theorem pkcs12_roundtrip:
  assumes "pkcs12_fits lib cs mac"
  shows "parsePKCS12 lib (pfx_bytes cs mac) =
    (concat (map (\<lambda>c. p12_reports (store_truststore cs) 0 (content_certs c)) cs),
     content_findings 0 cs, None)"
proof -
  have ok: "list_all (content_ok lib) cs"
    and n: "sum_list (map (\<lambda>c. sum_list (map bag_count (content_bags c))) cs) \<le> maxPKCS12Bags"
    using assms by (simp_all add: pkcs12_fits_def maxPKCS12Bags_def)
  have n0: "p12_bagCount p12_initial + sum_list (map (\<lambda>c. sum_list (map bag_count (content_bags c))) cs) \<le> maxPKCS12Bags"
    using n by (simp add: p12_initial_def)
  note q = contents_at [OF ok contentInfos_at(2) [OF assms] n0 refl, of 0]
  note p = q [THEN conjunct1] q [THEN conjunct2, THEN conjunct1]
    q [THEN conjunct2, THEN conjunct2, THEN conjunct1] q [THEN conjunct2, THEN conjunct2, THEN conjunct2]
  have "(p12_keyBagCount (p12_contents lib 0 (map content_element cs) p12_initial) = 0) =
      (\<forall>c\<in>set cs. \<forall>b\<in>set (content_bags c). bag_keys b = 0)"
    unfolding p(3) by (auto simp: p12_initial_def)
  then have "(length (p12_certificates (p12_contents lib 0 (map content_element cs) p12_initial)) > 0 \<and>
      p12_keyBagCount (p12_contents lib 0 (map content_element cs) p12_initial) = 0 \<and>
      length (p12_encrypted (p12_contents lib 0 (map content_element cs) p12_initial)) = 0) = store_truststore cs"
    unfolding p store_truststore_def by (auto simp: p12_initial_def)
  then show ?thesis
    unfolding parsePKCS12_def contentInfos_at(1) [OF assms]
    by (simp add: Let_def p) (simp add: p12_initial_def map_concat reports_truststore comp_def)
qed

section \<open>Witnesses\<close>

text \<open>
  A store with a named certificate, a nested bag with a certificate and a key, and contents
  encrypted with PBES2; and a truststore with one certificate.
\<close>

definition sample_store :: "safe_content list" where
  "sample_store =
     [DataContent [CertBag (Some [97, 0x1F600]) [7] (sample_cert [7]),
        NestedBag [CertBag None [8] (sample_cert [8]), KeyBag ShroudedKey [1, 2, 3]]],
      EncryptedContent [0x2a, 0x86, 0x48, 0x86, 0xf7, 0x0d, 0x01, 0x05, 0x0d] [9, 9]]"

definition sample_truststore :: "safe_content list" where
  "sample_truststore = [DataContent [CertBag None [7] (sample_cert [7])]]"

lemma sample_stores_fit:
  "pkcs12_fits sample_lib sample_store None" "pkcs12_fits sample_lib sample_truststore None"
proof -
  have "parseObjectIdentifier [0x2a, 0x86, 0x48, 0x86, 0xf7, 0x0d, 0x01, 0x05, 0x0d] = Inr oidPBES2"
    by code_simp
  moreover have "length (pfx_bytes sample_store None) < 2 ^ 31" "length (pfx_bytes sample_truststore None) < 2 ^ 31"
    by code_simp+
  moreover have "bag_ok sample_lib 16 (NestedBag bags) = list_all (bag_ok sample_lib 15) bags" for bags
    using bag_ok.simps(3) [of sample_lib 15 bags] by simp
  ultimately show "pkcs12_fits sample_lib sample_store None" "pkcs12_fits sample_lib sample_truststore None"
    by (simp_all add: pkcs12_fits_def sample_store_def sample_truststore_def sample_ParseCertificate_def
        is_scalar_def)
qed

lemma sample_truststore_parsed:
  "parsePKCS12 sample_lib (pfx_bytes sample_truststore None) =
     ([p12_report True 0 ([], sample_cert [7])], [], None)"
  by code_simp

theorem pkcs12_roundtrip_witness:
  "length (fst (parsePKCS12 sample_lib (pfx_bytes sample_store None))) = 2 \<and>
   map enc_Algorithm (fst (snd (parsePKCS12 sample_lib (pfx_bytes sample_store None)))) = [''PBES2'']"
proof -
  have "map enc_Algorithm (content_findings 0 sample_store) = [''PBES2'']" by code_simp
  then show ?thesis
    unfolding pkcs12_roundtrip [OF sample_stores_fit(1)] by (simp add: sample_store_def)
qed

theorem pkcs12_reported_wf_witness:
  "p12_certificate_wf sample_lib (pfx_bytes sample_truststore None) (p12_report True 0 ([], sample_cert [7]))"
  by (rule pkcs12_reported_wf) (simp add: sample_truststore_parsed)

theorem pkcs12_opened_is_detected_witness:
  "detectPKCS12 (pfx_bytes sample_truststore None)"
proof (rule pkcs12_opened_is_detected)
  show "p12_contentInfos (pfx_bytes sample_truststore None) = Inr (map content_element sample_truststore)"
    by (rule contentInfos_at(1) [OF sample_stores_fit(2)])
  show "length (pfx_bytes sample_truststore None) < 2 ^ 63"
    by code_simp
qed

theorem pkcs12_chain_positions_witness:
  "list_all (\<lambda>bags. map p12_index (bag_certificates sample_lib 0 bags) = map int [0..<length (certificate_bags bags)])
     (file_bags (pfx_bytes sample_truststore None)) \<and>
   concat (map (bag_certificates sample_lib 0) (file_bags (pfx_bytes sample_truststore None))) =
     [p12_report False 0 ([], sample_cert [7])]"
  using pkcs12_chain_positions [of sample_lib "pfx_bytes sample_truststore None"]
  by (simp add: sample_truststore_parsed p12_setTruststore_def p12_report_def)

end
