(* ===== verification/Content.thy ===== *)
theory Content
  imports Jks Pkcs12
begin

unbundle bit_operations_syntax

text \<open>
  The classification of a file's bytes (scanner.go): Java keystore, PKCS#12, PEM or DER, and the
  description of a certificate as a finding. Parsing a certificate, decoding a PEM block and
  the cryptographic functions are parameters (\<open>x509_lib\<close>).
\<close>

section \<open>The description of a certificate\<close>

text \<open>\<^verbatim>\<open>hex.EncodeToString\<close>.\<close>

definition hex_EncodeToString :: "bytes \<Rightarrow> string" where
  "hex_EncodeToString bs = concat (map (\<lambda>b. [digit_char (unat b div 16), digit_char (unat b mod 16)]) bs)"

text \<open>\<^verbatim>\<open>big.Int.Text(16)\<close>.\<close>

definition big_Text16 :: "int \<Rightarrow> string" where
  "big_Text16 i = (if i < 0 then CHR ''-'' # show_base 16 (nat (- i)) else show_base 16 (nat i))"

definition formatSerialNumber :: "x509_cert \<Rightarrow> string" where
  "formatSerialNumber certificate =
     (case x_SerialNumber certificate of None \<Rightarrow> [] | Some n \<Rightarrow> big_Text16 n)"

definition isSelfSigned :: "x509_lib \<Rightarrow> x509_cert \<Rightarrow> bool" where
  "isSelfSigned lib certificate =
     (if x_RawSubject certificate \<noteq> x_RawIssuer certificate then False
      else CheckSignature lib certificate = None)"

definition publicKeyAlgorithmName :: "string option \<Rightarrow> string" where
  "publicKeyAlgorithmName algorithm = (case algorithm of None \<Rightarrow> ''unknown'' | Some s \<Rightarrow> s)"

definition signatureAlgorithmName :: "string option \<Rightarrow> string" where
  "signatureAlgorithmName algorithm = (case algorithm of None \<Rightarrow> ''unknown'' | Some s \<Rightarrow> s)"

definition describePublicKey :: "x509_cert \<Rightarrow> string \<times> int \<times> string" where
  "describePublicKey certificate =
     (publicKeyAlgorithmName (x_PublicKeyAlgorithm certificate),
      (case x_PublicKey certificate of RSAKey (Some bits) \<Rightarrow> int bits | _ \<Rightarrow> 0),
      (case x_PublicKey certificate of ECDSAKey (Some curve) \<Rightarrow> curve | _ \<Rightarrow> []))"

definition keyUsageNames :: "(64 word \<times> string) list" where
  "keyUsageNames =
     [(1, ''digital-signature''), (2, ''content-commitment''), (4, ''key-encipherment''),
      (8, ''data-encipherment''), (16, ''key-agreement''), (32, ''certificate-signing''),
      (64, ''crl-signing''), (128, ''encipher-only''), (256, ''decipher-only'')]"

definition formatKeyUsage :: "64 word \<Rightarrow> string list" where
  "formatKeyUsage usage = map snd (filter (\<lambda>(value, name). usage AND value \<noteq> 0) keyUsageNames)"

fun extendedKeyUsageName :: "ext_key_usage \<Rightarrow> string" where
  "extendedKeyUsageName ExtKeyUsageAny = ''any''"
| "extendedKeyUsageName ExtKeyUsageServerAuth = ''server''"
| "extendedKeyUsageName ExtKeyUsageClientAuth = ''client''"
| "extendedKeyUsageName ExtKeyUsageCodeSigning = ''code-signing''"
| "extendedKeyUsageName ExtKeyUsageEmailProtection = ''email-protection''"
| "extendedKeyUsageName ExtKeyUsageIPSECEndSystem = ''ipsec-end-system''"
| "extendedKeyUsageName ExtKeyUsageIPSECTunnel = ''ipsec-tunnel''"
| "extendedKeyUsageName ExtKeyUsageIPSECUser = ''ipsec-user''"
| "extendedKeyUsageName ExtKeyUsageTimeStamping = ''timestamping''"
| "extendedKeyUsageName ExtKeyUsageOCSPSigning = ''ocsp-signing''"
| "extendedKeyUsageName ExtKeyUsageMicrosoftServerGatedCrypto = ''microsoft-server-gated-crypto''"
| "extendedKeyUsageName ExtKeyUsageNetscapeServerGatedCrypto = ''netscape-server-gated-crypto''"
| "extendedKeyUsageName ExtKeyUsageMicrosoftCommercialCodeSigning = ''microsoft-commercial-code-signing''"
| "extendedKeyUsageName ExtKeyUsageMicrosoftKernelCodeSigning = ''microsoft-kernel-code-signing''"
| "extendedKeyUsageName (ExtKeyUsageOther n) = ''unknown:'' @ itoa n"

definition formatExtendedKeyUsage :: "x509_cert \<Rightarrow> string list \<times> bool" where
  "formatExtendedKeyUsage certificate =
     (sort (map extendedKeyUsageName (x_ExtKeyUsage certificate) @
            map (\<lambda>usage. ''oid:'' @ oid_String usage) (x_UnknownExtKeyUsage certificate)),
      \<not> list_ex (\<lambda>extension. oid_String extension = ''2.5.29.37'') (x_Extensions certificate) \<or>
      List.member (x_ExtKeyUsage certificate) ExtKeyUsageAny)"

definition formatSANs ::
  "x509_lib \<Rightarrow> string list \<Rightarrow> bytes list \<Rightarrow> string list \<Rightarrow> string list \<Rightarrow> string list" where
  "formatSANs lib dnsNames ipAddresses emailAddresses uris =
     sort (map (\<lambda>name. ''DNS:'' @ name) dnsNames @
           map (\<lambda>address. ''IP:'' @ IP_String lib address) ipAddresses @
           map (\<lambda>address. ''email:'' @ address) emailAddresses @
           map (\<lambda>uri. ''URI:'' @ uri) uris)"

definition describe :: "x509_lib \<Rightarrow> string \<Rightarrow> nat \<Rightarrow> x509_cert \<Rightarrow> certificate" where
  "describe lib path index certificate =
     (let (usages, unrestricted) = formatExtendedKeyUsage certificate;
          (publicKeyAlgorithm, publicKeyBits, publicKeyCurve) = describePublicKey certificate
      in \<lparr>cert_Path = path, cert_Index = int index, cert_Subject = x_Subject certificate,
          cert_Issuer = x_Issuer certificate, cert_SerialNumber = formatSerialNumber certificate,
          cert_IsCA = x_IsCA certificate, cert_SelfSigned = isSelfSigned lib certificate,
          cert_SANs = formatSANs lib (x_DNSNames certificate) (x_IPAddresses certificate)
            (x_EmailAddresses certificate) (x_URIs certificate),
          cert_KeyUsage = formatKeyUsage (x_KeyUsage certificate),
          cert_ExtendedKeyUsage = usages, cert_ExtendedKeyUsageUnrestricted = unrestricted,
          cert_PublicKeyAlgorithm = publicKeyAlgorithm, cert_PublicKeyBits = publicKeyBits,
          cert_PublicKeyCurve = publicKeyCurve,
          cert_SignatureAlgorithm = signatureAlgorithmName (x_SignatureAlgorithm certificate),
          cert_SHA1Fingerprint = hex_EncodeToString (sha1_Sum lib (x_Raw certificate)),
          cert_SHA256Fingerprint = hex_EncodeToString (sha256_Sum lib (x_Raw certificate)),
          cert_SPKISHA256Fingerprint =
            hex_EncodeToString (sha256_Sum lib (x_RawSubjectPublicKeyInfo certificate)),
          cert_NotBefore = x_NotBefore certificate, cert_NotAfter = x_NotAfter certificate,
          cert_Keystore = None, cert_Verification = None, cert_ArchiveEntries = [],
          cert_dnsNames = x_DNSNames certificate, cert_ipAddresses = x_IPAddresses certificate,
          cert_parsed = Some certificate\<rparr>)"

section \<open>PEM\<close>

definition pemBegin :: bytes where
  "pemBegin = bytes_of_string ''-----BEGIN CERTIFICATE-----''"

text \<open>\<^verbatim>\<open>bytes.Index\<close>: what is left from the first occurrence of the pattern on.\<close>

fun bytes_from :: "bytes \<Rightarrow> bytes \<Rightarrow> bytes option" where
  "bytes_from pat [] = (if pat = [] then Some [] else None)"
| "bytes_from pat (b # bs) =
     (if take (length pat) (b # bs) = pat then Some (b # bs) else bytes_from pat bs)"

text \<open>
  The loop of \<^verbatim>\<open>parsePEM\<close>. \<^verbatim>\<open>pem.Decode\<close> is a parameter, so the number of iterations is
  bounded by \<open>fuel\<close>; one more than the length of the data is enough for a \<^verbatim>\<open>pem.Decode\<close>
  that consumes what it decodes (shown in \<^verbatim>\<open>ContentFacts\<close>, with the loop of the code).
\<close>

fun parsePEM_loop :: "x509_lib \<Rightarrow> nat \<Rightarrow> x509_cert list \<Rightarrow> bytes \<Rightarrow> x509_cert list" where
  "parsePEM_loop lib 0 certificates data = certificates"
| "parsePEM_loop lib (Suc fuel) certificates data =
     (case bytes_from pemBegin data of
        None \<Rightarrow> certificates
      | Some data \<Rightarrow>
         (case pem_Decode lib data of
            None \<Rightarrow> parsePEM_loop lib fuel certificates (drop (length pemBegin) data)
          | Some (block, rest) \<Rightarrow>
             if pem_Type block \<noteq> ''CERTIFICATE'' then parsePEM_loop lib fuel certificates rest
             else
               (case ParseCertificate lib (pem_Bytes block) of
                  Inl e \<Rightarrow> parsePEM_loop lib fuel certificates rest
                | Inr certificate \<Rightarrow> parsePEM_loop lib fuel (certificates @ [certificate]) rest)))"

definition parsePEM :: "x509_lib \<Rightarrow> bytes \<Rightarrow> x509_cert list" where
  "parsePEM lib data = parsePEM_loop lib (Suc (length data)) [] data"

section \<open>The classification\<close>

text \<open>The loop that describes the entries of a keystore, skipping those without certificate.\<close>

fun describe_entries ::
  "x509_lib \<Rightarrow> string \<Rightarrow> nat \<Rightarrow> (x509_cert option \<times> keystore_info) list \<Rightarrow> certificate list" where
  "describe_entries lib path index [] = []"
| "describe_entries lib path index ((None, keystore) # es) = describe_entries lib path (index + 1) es"
| "describe_entries lib path index ((Some certificate, keystore) # es) =
     (describe lib path index certificate)\<lparr>cert_Keystore := Some keystore\<rparr> #
     describe_entries lib path (index + 1) es"

fun describe_all :: "x509_lib \<Rightarrow> string \<Rightarrow> nat \<Rightarrow> x509_cert list \<Rightarrow> certificate list" where
  "describe_all lib path index [] = []"
| "describe_all lib path index (c # cs) = describe lib path index c # describe_all lib path (index + 1) cs"

definition scanContentData :: "x509_lib \<Rightarrow> string \<Rightarrow> bytes \<Rightarrow> bool \<Rightarrow> outcome \<times> bool" where
  "scanContentData lib path data complete =
     (if detectJavaKeystore data \<noteq> None then
        if \<not> complete then (empty_outcome, True)
        else
          (case parseJavaKeystore lib data of
             (parsed, parseErr) \<Rightarrow>
               (scanOutcome (describe_entries lib path 0
                  (map (\<lambda>c. (jc_certificate c, jc_keystore c)) parsed)) [] False parseErr, False))
      else if detectPKCS12 data then
        if \<not> complete then (empty_outcome, True)
        else
          (case parsePKCS12 lib data of
             (parsed, encryptedContents, parseErr) \<Rightarrow>
               (scanOutcome (describe_entries lib path 0
                  (map (\<lambda>c. (Some (p12c_certificate c), p12c_keystore c)) parsed))
                  (map (\<lambda>e. e\<lparr>enc_Path := path\<rparr>) encryptedContents) False parseErr, False))
      else
        let parsed = parsePEM lib data in
        if 0 < length parsed \<and> \<not> complete then
          (scanOutcome (describe_all lib path 0 parsed) [] False None, True)
        else
          let parsed = (if length parsed = 0 \<and> complete
                then (case ParseCertificates lib data of Inl e \<Rightarrow> parsed | Inr certificates \<Rightarrow> certificates)
                else parsed)
          in (scanOutcome (describe_all lib path 0 parsed) [] (\<not> complete) None, False))"

end
