(* ===== verification/GoIO.thy ===== *)
theory GoIO
  imports GoLib
begin

text \<open>
  Go's \<^verbatim>\<open>io.Reader\<close>, as far as the scanner uses it. A reader is a function from the length
  of the buffer and its state to the bytes it stores, its error and its new state. What a
  reader delivers in total is the contract \<open>io_reader\<close>: the bytes left and the error behind
  them, whatever the sizes of the buffers. \<^verbatim>\<open>io.LimitReader\<close> and \<^verbatim>\<open>io.ReadAll\<close> are the
  definitions of the library; the contract is what \<^verbatim>\<open>io.ReadAll\<close> returns.
\<close>

section \<open>Streams\<close>

text \<open>
  The source of bytes: an open file, an archive entry, a decompressor. \<open>sm_err\<close> is the error
  after the last byte, \<open>io_EOF\<close> for a regular end; \<open>sm_joint\<close> tells whether it is returned
  with the last bytes or by the next call, which Go allows both. \<open>sm_chunks\<close> bounds how much
  each call returns, at least one byte.
\<close>

record stream =
  sm_data :: bytes
  sm_err :: go_error
  sm_joint :: bool
  sm_chunks :: "nat list"

type_synonym 's read_fun = "nat \<Rightarrow> 's \<Rightarrow> (bytes \<times> go_error option) \<times> 's"

definition stream_Read :: "stream read_fun" where
  "stream_Read n s =
     (let k = (case sm_chunks s of [] \<Rightarrow> n | c # _ \<Rightarrow> min n (Suc c));
          b = take k (sm_data s); rest = drop k (sm_data s)
      in if sm_data s = [] then (([], Some (sm_err s)), s)
         else if rest = [] \<and> sm_joint s then ((b, Some (sm_err s)), s\<lparr>sm_data := []\<rparr>)
         else ((b, None), s\<lparr>sm_data := rest, sm_chunks := tl (sm_chunks s)\<rparr>))"

definition stream_of :: "bytes \<Rightarrow> stream" where
  "stream_of data = \<lparr>sm_data = data, sm_err = io_EOF, sm_joint = False, sm_chunks = []\<rparr>"

section \<open>The contract of a reader\<close>

locale io_reader =
  fixes Read :: "'s read_fun"
    and content :: "'s \<Rightarrow> bytes \<times> go_error"
    and joint :: "'s \<Rightarrow> bool"
  assumes read_end: "\<lbrakk>0 < n; content s = ([], err)\<rbrakk> \<Longrightarrow>
      \<exists>s'. Read n s = (([], Some err), s')"
    and read_some: "\<lbrakk>0 < n; content s = (d, err); d \<noteq> []\<rbrakk> \<Longrightarrow>
      \<exists>b d' s'. d = b @ d' \<and> b \<noteq> [] \<and> length b \<le> n \<and>
        (if d' = [] \<and> joint s then Read n s = ((b, Some err), s')
         else Read n s = ((b, None), s') \<and> content s' = (d', err) \<and> joint s' = joint s)"

interpretation stream_r: io_reader stream_Read "\<lambda>s. (sm_data s, sm_err s)" sm_joint
proof
  fix n :: nat and s :: stream and err
  assume "0 < n" "(sm_data s, sm_err s) = ([], err)"
  then show "\<exists>s'. stream_Read n s = (([], Some err), s')"
    by (simp add: stream_Read_def)
next
  fix n :: nat and s :: stream and d err
  assume *: "0 < n" "(sm_data s, sm_err s) = (d, err)" "d \<noteq> []"
  define k where "k = (case sm_chunks s of [] \<Rightarrow> n | c # _ \<Rightarrow> min n (Suc c))"
  have k: "0 < k" "k \<le> n" using * by (auto simp: k_def split: list.split)
  show "\<exists>b d' s'. d = b @ d' \<and> b \<noteq> [] \<and> length b \<le> n \<and>
      (if d' = [] \<and> sm_joint s then stream_Read n s = ((b, Some err), s')
       else stream_Read n s = ((b, None), s') \<and> (sm_data s', sm_err s') = (d', err) \<and>
         sm_joint s' = sm_joint s)"
    using * k
    by (intro exI [of _ "take k d"] exI [of _ "drop k d"]
        exI [of _ "snd (stream_Read n s)"])
      (auto simp: stream_Read_def Let_def k_def [symmetric])
qed

section \<open>io.LimitReader\<close>

definition limit_Read :: "'s read_fun \<Rightarrow> (int \<times> 's) read_fun" where
  "limit_Read Read n st =
     (case st of (N, s) \<Rightarrow>
        if N \<le> 0 then (([], Some io_EOF), (N, s))
        else (case Read (if N < int n then nat N else n) s of
          ((b, e), s') \<Rightarrow> ((b, e), (N - int (length b), s'))))"

definition limit_content :: "('s \<Rightarrow> bytes \<times> go_error) \<Rightarrow> ('s \<Rightarrow> bool) \<Rightarrow> int \<times> 's \<Rightarrow> bytes \<times> go_error" where
  "limit_content content joint st =
     (case st of (N, s) \<Rightarrow>
        (case content s of (d, err) \<Rightarrow>
          if N < int (length d) \<or> N \<le> 0 \<or> (N = int (length d) \<and> \<not> joint s)
          then (take (nat N) d, io_EOF) else (d, err)))"

definition limit_joint :: "('s \<Rightarrow> bytes \<times> go_error) \<Rightarrow> ('s \<Rightarrow> bool) \<Rightarrow> int \<times> 's \<Rightarrow> bool" where
  "limit_joint content joint st =
     (case st of (N, s) \<Rightarrow> joint s \<and> int (length (fst (content s))) \<le> N)"

text \<open>After a read that is not the last one, the limit and the content shrink by the same bytes.\<close>

lemma limit_content_step:
  assumes "content s = (b @ d', e)" "content s' = (d', e)" "joint s' = joint s"
    and "0 < N" "int (length b) \<le> N" and "\<not> (d' = [] \<and> joint s)"
  obtains ld' where "limit_content content joint (N, s) = (b @ ld', snd (limit_content content joint (N, s)))"
    and "limit_content content joint (N - int (length b), s') = (ld', snd (limit_content content joint (N, s)))"
    and "\<not> (ld' = [] \<and> limit_joint content joint (N, s))"
    and "limit_joint content joint (N - int (length b), s') = limit_joint content joint (N, s)"
proof -
  have "take (nat N) (b @ d') = b @ take (nat (N - int (length b))) d'"
    using assms(5) by (simp add: nat_diff_distrib)
  then show thesis
    using assms by (intro that [of "fst (limit_content content joint (N - int (length b), s'))"])
      (auto simp: limit_content_def limit_joint_def)
qed

text \<open>A limited reader is a reader again, over any reader.\<close>

context io_reader begin

lemma limit_read_end:
  assumes n: "0 < n" and c: "limit_content content joint st = ([], err)"
  shows "\<exists>st'. limit_Read Read n st = (([], Some err), st')"
proof -
  obtain N s where st: "st = (N, s)" by (cases st)
  obtain d e where d: "content s = (d, e)" by (cases "content s")
  show ?thesis
  proof (cases "N \<le> 0")
    case True
    with c st d show ?thesis by (auto simp: limit_Read_def limit_content_def)
  next
    case False
    with c st d have "d = []" "err = e"
      by (auto simp: limit_content_def split: if_splits)
    moreover have "0 < (if N < int n then nat N else n)" using False n by simp
    ultimately obtain s' where "Read (if N < int n then nat N else n) s = (([], Some err), s')"
      using read_end d by blast
    with False st show ?thesis by (simp add: limit_Read_def limit_content_def)
  qed
qed

lemma limit_read_some:
  assumes n: "0 < n" and c: "limit_content content joint st = (ld, err)" and ne: "ld \<noteq> []"
  shows "\<exists>b ld' st'. ld = b @ ld' \<and> b \<noteq> [] \<and> length b \<le> n \<and>
      (if ld' = [] \<and> limit_joint content joint st then limit_Read Read n st = ((b, Some err), st')
       else limit_Read Read n st = ((b, None), st') \<and> limit_content content joint st' = (ld', err) \<and>
         limit_joint content joint st' = limit_joint content joint st)"
proof -
  obtain N s where st: "st = (N, s)" by (cases st)
  obtain d e where d: "content s = (d, e)" by (cases "content s")
  have N: "0 < N" and d_ne: "d \<noteq> []"
    using c ne st d by (auto simp: limit_content_def split: if_splits)
  define m where "m = (if N < int n then nat N else n)"
  have m: "0 < m" "m \<le> n" "int m \<le> N" using n N by (auto simp: m_def)
  obtain b d' s' where r: "d = b @ d'" "b \<noteq> []" "length b \<le> m"
    "if d' = [] \<and> joint s then Read m s = ((b, Some e), s')
     else Read m s = ((b, None), s') \<and> content s' = (d', e) \<and> joint s' = joint s"
    using read_some [OF m(1) d d_ne] by blast
  have lb: "int (length b) \<le> N" using r(3) m(3) by linarith
  show ?thesis
  proof (cases "d' = [] \<and> joint s")
    case True
    with r N lb c st d have "ld = b" "err = e" "limit_joint content joint st"
      by (auto simp: limit_content_def limit_joint_def split: if_splits)
    with True r N st m show ?thesis
      by (intro exI [of _ b] exI [of _ "[]"] exI [of _ "(N - int (length b), s')"])
        (auto simp: limit_Read_def m_def [symmetric])
  next
    case False
    then have R: "Read m s = ((b, None), s')" "content s' = (d', e)" "joint s' = joint s"
      using r(4) by auto
    obtain ld' where "ld = b @ ld'" "limit_content content joint (N - int (length b), s') = (ld', err)"
      "\<not> (ld' = [] \<and> limit_joint content joint st)"
      "limit_joint content joint (N - int (length b), s') = limit_joint content joint st"
      using limit_content_step [OF d [unfolded r(1)] R(2,3) N lb False] c unfolding st
      by (metis fst_conv snd_conv)
    moreover have "limit_Read Read n st = ((b, None), (N - int (length b), s'))"
      using R(1) N st by (simp add: limit_Read_def m_def)
    ultimately show ?thesis
      using r(2,3) m(2)
      by (intro exI [of _ b] exI [of _ ld'] exI [of _ "(N - int (length b), s')"]) auto
  qed
qed

lemma limit_reader:
  "io_reader (limit_Read Read) (limit_content content joint) (limit_joint content joint)"
  by unfold_locales (rule limit_read_end limit_read_some; assumption)+

end

section \<open>io.ReadAll\<close>

text \<open>
  \<^verbatim>\<open>io.ReadAll\<close> reads into the free part of a growing buffer until an error, and turns
  \<^verbatim>\<open>io.EOF\<close> into no error. How much is free is the allocator's choice, at least one byte:
  \<open>room\<close> gives it for the number of bytes read so far. \<open>fuel\<close> bounds the number of calls;
  one more than the bytes left is enough (\<open>ReadAll_content\<close>).
\<close>

fun io_ReadAll :: "'s read_fun \<Rightarrow> (nat \<Rightarrow> nat) \<Rightarrow> nat \<Rightarrow> bytes \<Rightarrow> 's \<Rightarrow> (bytes \<times> go_error option) \<times> 's" where
  "io_ReadAll Read room 0 acc s = ((acc, Some (ErrNew ''fuel'')), s)"
| "io_ReadAll Read room (Suc fuel) acc s =
     (case Read (Suc (room (length acc))) s of
        ((b, None), s') \<Rightarrow> io_ReadAll Read room fuel (acc @ b) s'
      | ((b, Some e), s') \<Rightarrow> ((acc @ b, if e = io_EOF then None else Some e), s'))"

definition read_result :: "bytes \<times> go_error \<Rightarrow> bytes \<times> go_error option" where
  "read_result c = (fst c, if snd c = io_EOF then None else Some (snd c))"

context io_reader begin

lemma ReadAll_content:
  assumes "content s = (d, err)" and "length d < fuel"
  shows "\<exists>s'. io_ReadAll Read room fuel acc s = ((acc @ d, if err = io_EOF then None else Some err), s')"
  using assms
proof (induction fuel arbitrary: d acc s)
  case 0
  then show ?case by simp
next
  case (Suc fuel)
  show ?case
  proof (cases "d = []")
    case True
    with read_end [of "Suc (room (length acc))"] Suc.prems show ?thesis by fastforce
  next
    case False
    obtain b d' s' where r: "d = b @ d'" "b \<noteq> []"
      "if d' = [] \<and> joint s then Read (Suc (room (length acc))) s = ((b, Some err), s')
       else Read (Suc (room (length acc))) s = ((b, None), s') \<and> content s' = (d', err) \<and> joint s' = joint s"
      using read_some [OF _ Suc.prems(1) False, of "Suc (room (length acc))"] by blast
    have len: "length d' < fuel" using r(1,2) Suc.prems(2) by (cases b) simp_all
    show ?thesis
    proof (cases "d' = [] \<and> joint s")
      case False
      with r(3) have "content s' = (d', err)" by auto
      from Suc.IH [OF this len, of "acc @ b"] r(1,3) False show ?thesis by auto
    qed (use r in auto)
  qed
qed

lemma ReadAll_result:
  "length (fst (content s)) < fuel \<Longrightarrow> fst (io_ReadAll Read room fuel [] s) = read_result (content s)"
  using ReadAll_content [of s "fst (content s)" "snd (content s)" fuel room "[]"]
  by (auto simp: read_result_def)

end

text \<open>
  A reader that returned its error together with the last bytes has no bytes left and the same
  error behind them.
\<close>

locale settled_reader = io_reader +
  assumes read_last: "\<lbrakk>0 < n; content s = (d, err); d \<noteq> []; Read n s = ((b, Some e), s')\<rbrakk> \<Longrightarrow>
      content s' = ([], err)"
begin

text \<open>
  Reading through a limit not above the content stops after exactly that many bytes, and the
  reader is left with the others.
\<close>

lemma limit_ReadAll_rest:
  assumes "content s = (d, err)" and "0 \<le> N" and "N \<le> int (length d)" and "nat N < fuel"
    and "N = int (length d) \<Longrightarrow> joint s \<Longrightarrow> err = io_EOF"
  shows "\<exists>N' s'. io_ReadAll (limit_Read Read) room fuel acc (N, s) = ((acc @ take (nat N) d, None), (N', s')) \<and>
    content s' = (drop (nat N) d, err)"
  using assms
proof (induction fuel arbitrary: d acc s N)
  case 0
  then show ?case by simp
next
  case (Suc fuel)
  show ?case
  proof (cases "N = 0")
    case True
    with Suc.prems show ?thesis by (simp add: limit_Read_def)
  next
    case False
    with Suc.prems have N: "0 < N" and d: "d \<noteq> []" by auto
    define n where "n = Suc (room (length acc))"
    define m where "m = (if N < int n then nat N else n)"
    have m: "0 < m" "int m \<le> N" using N by (auto simp: m_def n_def)
    obtain b d' s' where r: "d = b @ d'" "b \<noteq> []" "length b \<le> m"
      "if d' = [] \<and> joint s then Read m s = ((b, Some err), s')
       else Read m s = ((b, None), s') \<and> content s' = (d', err) \<and> joint s' = joint s"
      using read_some [OF m(1) Suc.prems(1) d] by blast
    have lb: "int (length b) \<le> N" "0 < length b" using r(2,3) m(2) by simp_all
    have limited: "limit_Read Read n (N, s) = ((b, e), (N - int (length b), s'))"
      if "Read m s = ((b, e), s')" for e
      using N that by (simp add: limit_Read_def m_def)
    show ?thesis
    proof (cases "d' = [] \<and> joint s")
      case True
      then have R: "Read m s = ((b, Some err), s')" using r(4) by simp
      have N_len: "N = int (length d)" using lb(1) Suc.prems(3) r(1) True by simp
      then have "err = io_EOF" using Suc.prems(5) True by simp
      with R limited [OF R] N_len True r(1) read_last [OF m(1) Suc.prems(1) d R] show ?thesis
        by (simp add: n_def)
    next
      case False
      then have R: "Read m s = ((b, None), s')" and c': "content s' = (d', err)" "joint s' = joint s"
        using r(4) by auto
      have nat_N: "nat N = length b + nat (N - int (length b))" using lb(1) by simp
      have *: "0 \<le> N - int (length b)" "N - int (length b) \<le> int (length d')"
        using lb(1) Suc.prems(3) r(1) by simp_all
      have fuel: "nat (N - int (length b)) < fuel"
        using nat_N lb(2) Suc.prems(4) by linarith
      have eof: "err = io_EOF" if "N - int (length b) = int (length d')" "joint s'"
        using Suc.prems(5) that c'(2) r(1) by simp
      have "take (nat N) d = b @ take (nat (N - int (length b))) d'"
        "drop (nat N) d = drop (nat (N - int (length b))) d'"
        by (simp_all add: nat_N r(1))
      with Suc.IH [OF c'(1) * fuel eof, of "acc @ b"] limited [OF R] show ?thesis
        by (simp add: n_def)
    qed
  qed
qed

end

interpretation stream_s: settled_reader stream_Read "\<lambda>s. (sm_data s, sm_err s)" sm_joint
  by unfold_locales (auto simp: stream_Read_def Let_def split: if_splits)

section \<open>What reading does to the state\<close>

text \<open>
  A relation between the states before and after a read and the number of bytes read, closed
  under composition, relates the states around \<^verbatim>\<open>io.ReadAll\<close>.
\<close>

locale reader_step =
  fixes Read :: "'s read_fun"
    and rel :: "'s \<Rightarrow> nat \<Rightarrow> 's \<Rightarrow> bool"
  assumes step: "Read n s = ((b, e), s') \<Longrightarrow> rel s (length b) s'"
    and rel_refl: "rel s 0 s"
    and rel_trans: "rel s m t \<Longrightarrow> rel t n u \<Longrightarrow> rel s (m + n) u"
begin

lemma ReadAll_rel:
  "io_ReadAll Read room fuel acc s = ((d, e), s') \<Longrightarrow> \<exists>k. length d = length acc + k \<and> rel s k s'"
proof (induction fuel arbitrary: acc s)
  case 0
  then show ?case using rel_refl by auto
next
  case (Suc fuel)
  obtain b e1 s1 where R: "Read (Suc (room (length acc))) s = ((b, e1), s1)"
    by (metis surj_pair)
  note r1 = step [OF R]
  show ?case
  proof (cases e1)
    case None
    with Suc.prems R have "io_ReadAll Read room fuel (acc @ b) s1 = ((d, e), s')" by simp
    from Suc.IH [OF this] obtain k where "length d = length (acc @ b) + k" "rel s1 k s'" by blast
    with rel_trans [OF r1, of k s'] show ?thesis by (auto intro!: exI [of _ "length b + k"])
  next
    case (Some e2)
    with Suc.prems R r1 show ?thesis by auto
  qed
qed

lemma limit_step: "reader_step (limit_Read Read) (\<lambda>x k y. rel (snd x) k (snd y))"
proof
  fix n :: nat and s s' b e
  assume "limit_Read Read n s = ((b, e), s')"
  then show "rel (snd s) (length b) (snd s')"
    using step rel_refl by (auto simp: limit_Read_def split: prod.splits if_splits)
qed (auto intro: rel_refl rel_trans)

end

end
