(* ===== verification/GoPath.thy ===== *)
theory GoPath
  imports GoText
begin

text \<open>
  The functions of Go's \<^verbatim>\<open>strings\<close>, \<^verbatim>\<open>path\<close> and \<^verbatim>\<open>path/filepath\<close> on slash-separated
  paths. The model is of a Unix system: \<^verbatim>\<open>filepath.ToSlash\<close> is the identity and a path is
  absolute when it starts with a slash.
\<close>

section \<open>Strings\<close>

definition strings_HasPrefix :: "string \<Rightarrow> string \<Rightarrow> bool" where
  "strings_HasPrefix s p \<longleftrightarrow> take (length p) s = p"

definition strings_HasSuffix :: "string \<Rightarrow> string \<Rightarrow> bool" where
  "strings_HasSuffix s p \<longleftrightarrow> length p \<le> length s \<and> drop (length s - length p) s = p"

definition strings_TrimPrefix :: "string \<Rightarrow> string \<Rightarrow> string" where
  "strings_TrimPrefix s p = (if strings_HasPrefix s p then drop (length p) s else s)"

definition strings_TrimSuffix :: "string \<Rightarrow> string \<Rightarrow> string" where
  "strings_TrimSuffix s p = (if strings_HasSuffix s p then take (length s - length p) s else s)"

lemma strings_HasPrefix_prefix: "strings_HasPrefix s p \<longleftrightarrow> prefix p s"
  by (auto simp: strings_HasPrefix_def prefix_def) (metis append_take_drop_id)

fun strings_Join :: "string list \<Rightarrow> string \<Rightarrow> string" where
  "strings_Join [] sep = []"
| "strings_Join [s] sep = s"
| "strings_Join (s # t # r) sep = s @ sep @ strings_Join (t # r) sep"

section \<open>Components\<close>

text \<open>The components of a path: what is between its slashes.\<close>

fun split_on :: "char \<Rightarrow> string \<Rightarrow> string list" where
  "split_on c [] = [[]]"
| "split_on c (x # xs) =
     (if x = c then [] # split_on c xs
      else (case split_on c xs of [] \<Rightarrow> [[x]] | w # ws \<Rightarrow> (x # w) # ws))"

abbreviation slash :: char where "slash \<equiv> CHR ''/''"

lemma split_on_not_Nil [simp]: "split_on c s \<noteq> []"
  by (induction s) (auto split: list.split)

lemma split_on_no_sep: "w \<in> set (split_on c s) \<Longrightarrow> c \<notin> set w"
  by (induction s arbitrary: w) (auto split: if_splits list.splits)

section \<open>path.Clean\<close>

text \<open>
  The components of the result, innermost first: empty components and \<^verbatim>\<open>.\<close> are dropped,
  \<^verbatim>\<open>..\<close> removes the component before it, is kept at the start of a relative path and
  dropped at the start of an absolute one.
\<close>

fun clean_components :: "bool \<Rightarrow> string list \<Rightarrow> string list \<Rightarrow> string list" where
  "clean_components rooted out [] = out"
| "clean_components rooted out (c # cs) =
     (if c = [] \<or> c = ''.'' then clean_components rooted out cs
      else if c = ''..'' then
        (case out of
           [] \<Rightarrow> clean_components rooted (if rooted then [] else [''..'']) cs
         | d # ds \<Rightarrow> clean_components rooted (if d = ''..'' then ''..'' # out else ds) cs)
      else clean_components rooted (c # out) cs)"

definition path_Clean :: "string \<Rightarrow> string" where
  "path_Clean p =
     (let rooted = strings_HasPrefix p ''/'';
          out = rev (clean_components rooted [] (split_on slash p))
      in if rooted then ''/'' @ strings_Join out ''/''
         else if out = [] then ''.'' else strings_Join out ''/'')"

definition path_IsAbs :: "string \<Rightarrow> bool" where
  "path_IsAbs p \<longleftrightarrow> strings_HasPrefix p ''/''"

text \<open>\<^verbatim>\<open>path.Join\<close> of two elements: empty ones are ignored, the result is cleaned.\<close>

definition path_Join :: "string \<Rightarrow> string \<Rightarrow> string" where
  "path_Join a b =
     (if a = [] \<and> b = [] then []
      else if a = [] then path_Clean b
      else if b = [] then path_Clean a
      else path_Clean (a @ ''/'' @ b))"

definition path_Base :: "string \<Rightarrow> string" where
  "path_Base p =
     (if p = [] then ''.''
      else let q = rev (dropWhile (\<lambda>c. c = slash) (rev p)) in
        if q = [] then ''/'' else last (split_on slash q))"

text \<open>\<^verbatim>\<open>filepath.Ext\<close>: from the last dot of the last component on.\<close>

definition filepath_Ext :: "string \<Rightarrow> string" where
  "filepath_Ext p =
     (let b = last (split_on slash p) in
      if CHR ''.'' \<in> set b then CHR ''.'' # rev (takeWhile (\<lambda>c. c \<noteq> CHR ''.'') (rev b)) else [])"

section \<open>Facts about clean paths\<close>

definition clean_stack :: "bool \<Rightarrow> string list \<Rightarrow> bool" where
  "clean_stack rooted out \<longleftrightarrow>
     (\<forall>c\<in>set out. c \<noteq> [] \<and> c \<noteq> ''.'' \<and> slash \<notin> set c) \<and>
     set (dropWhile (\<lambda>c. c \<noteq> ''..'') out) \<subseteq> {''..''} \<and>
     (rooted \<longrightarrow> ''..'' \<notin> set out)"

lemma clean_stack_Nil [simp]: "clean_stack rooted []"
  by (simp add: clean_stack_def)

lemma clean_stack_Cons: "c \<noteq> [] \<Longrightarrow> c \<noteq> ''.'' \<Longrightarrow> c \<noteq> ''..'' \<Longrightarrow> slash \<notin> set c \<Longrightarrow>
    clean_stack rooted out \<Longrightarrow> clean_stack rooted (c # out)"
  by (simp add: clean_stack_def)

lemma clean_stack_tl: "clean_stack rooted (d # ds) \<Longrightarrow> d \<noteq> ''..'' \<Longrightarrow> clean_stack rooted ds"
  by (simp add: clean_stack_def)

lemma clean_stack_up: "clean_stack False (''..'' # ds) \<Longrightarrow> clean_stack False (''..'' # ''..'' # ds)"
  by (simp add: clean_stack_def)

lemma clean_stack_rooted_up: "\<not> clean_stack True (''..'' # ds)"
  by (simp add: clean_stack_def)

lemma clean_stack_single_up: "clean_stack False [''..'']"
  by (simp add: clean_stack_def)

lemma clean_stack_components:
  "clean_stack rooted out \<Longrightarrow> \<forall>c\<in>set cs. slash \<notin> set c \<Longrightarrow>
     clean_stack rooted (clean_components rooted out cs)"
proof (induction cs arbitrary: out)
  case Nil
  then show ?case by simp
next
  case (Cons c cs)
  note IH = Cons.IH and out = Cons.prems(1)
  have cs: "\<forall>c\<in>set cs. slash \<notin> set c" and c: "slash \<notin> set c" using Cons.prems(2) by simp_all
  consider "c = [] \<or> c = ''.''" | "c = ''..''" "out = []" | d ds where "c = ''..''" "out = d # ds"
    | "c \<noteq> []" "c \<noteq> ''.''" "c \<noteq> ''..''"
    by (cases out) auto
  then show ?case
  proof cases
    case 1
    with IH [OF out cs] show ?thesis by auto
  next
    case 2
    have "clean_stack rooted (if rooted then [] else [''..''])"
      by (simp add: clean_stack_single_up)
    with 2 IH [OF this cs] show ?thesis by simp
  next
    case 3
    have "clean_stack rooted (if d = ''..'' then ''..'' # out else ds)"
      using out 3(2) clean_stack_tl clean_stack_up clean_stack_rooted_up by (cases rooted) auto
    with 3 IH [OF this cs] show ?thesis by (cases "d = ''..''") simp_all
  next
    case 4
    with IH [OF clean_stack_Cons [OF 4 c out] cs] show ?thesis by simp
  qed
qed

end
