(* ===== verification/Archive.thy ===== *)
theory Archive
  imports Content GoIO GoPath
begin

unbundle bit_operations_syntax

text \<open>
  Archives (archive.go): ZIP, TAR and gzip, nested in each other. The readers of Go's \<^verbatim>\<open>archive/zip\<close>,
  \<^verbatim>\<open>archive/tar\<close> and \<^verbatim>\<open>compress/gzip\<close> are parameters: what they make of an archive is a
  list of entries with their contents as streams. The scanner's limits, its state, the
  recursion into nested archives and the merging of the results are the definitions below.
\<close>

section \<open>The archive readers\<close>

text \<open>An \<^verbatim>\<open>io.ReaderAt\<close>: the bytes of a full read at an offset, or the error.\<close>

type_synonym read_at = "int \<Rightarrow> nat \<Rightarrow> bytes go_result"

text \<open>\<^verbatim>\<open>bytes.Reader.ReadAt\<close>; the source reads at least one byte.\<close>

definition bytes_ReadAt :: "bytes \<Rightarrow> read_at" where
  "bytes_ReadAt data off n =
     (if off < 0 then Inl (ErrNew ''bytes.Reader.ReadAt: negative offset'')
      else if length data - nat off < n then Inl io_EOF
      else Inr (take n (drop (nat off) data)))"

record zip_entry =
  ze_Name :: string
  ze_IsDir :: bool
  ze_IsRegular :: bool
  ze_Flags :: "16 word"
  ze_Open :: "stream go_result"
  ze_Close :: "go_error option"

record tar_entry =
  te_Name :: string
  te_IsRegular :: bool
  te_content :: stream

record gzip_reader =
  gz_Name :: string
  gz_content :: stream
  gz_Close :: "go_error option"

text \<open>
  \<^verbatim>\<open>tar.Reader\<close> is the entries \<^verbatim>\<open>Next\<close> returns and the error behind the last of them,
  \<open>io_EOF\<close> at the end of the archive. \<open>ReadAll_room\<close> is the allocation in
  \<^verbatim>\<open>io.ReadAll\<close>.
\<close>

record archive_lib =
  zip_NewReader :: "read_at \<Rightarrow> int \<Rightarrow> zip_entry list go_result"
  tar_NewReader :: "stream \<Rightarrow> tar_entry list \<times> go_error"
  gzip_NewReader :: "stream \<Rightarrow> gzip_reader go_result"
  ReadAll_room :: "nat \<Rightarrow> nat"

section \<open>The state\<close>

datatype archiveFormat = archiveFormatNone | archiveFormatZIP | archiveFormatTAR | archiveFormatGZIP

definition errArchiveDecompressedBytes :: go_error where
  "errArchiveDecompressedBytes = ErrSentinel ''archive decompressed byte limit exceeded''"

text \<open>
  The struct \<^verbatim>\<open>archiveScanner\<close>: its constant fields, with the parameters, are \<open>archive_env\<close>;
  the fields that change are \<open>archive_scanner\<close>. \<open>as_progress\<close> is the calls of the callback
  so far, \<open>None\<close> for the nil callback.
\<close>

record archive_env =
  ae_lib :: archive_lib
  ae_x509 :: x509_lib
  ae_outerPath :: string
  ae_options :: options

record archive_scanner =
  as_bytesRead :: int
  as_entries :: int
  as_progress :: "(int \<times> int \<times> int) list option"

definition detectArchiveFormat :: "bytes \<Rightarrow> archiveFormat" where
  "detectArchiveFormat data =
     (if length data \<ge> 4 \<and> take 4 data = [0x50, 0x4B, 3, 4] \<or>
         length data \<ge> 4 \<and> take 4 data = [0x50, 0x4B, 5, 6] \<or>
         length data \<ge> 4 \<and> take 4 data = [0x50, 0x4B, 7, 8] then archiveFormatZIP
      else if length data \<ge> 2 \<and> data ! 0 = 0x1F \<and> data ! 1 = 0x8B then archiveFormatGZIP
      else if length data \<ge> 263 \<and>
         (take 6 (drop 257 data) = bytes_of_string ''ustar'' @ [0] \<or>
          take 6 (drop 257 data) = bytes_of_string ''ustar '') then archiveFormatTAR
      else archiveFormatNone)"

section \<open>Reading within the budget\<close>

text \<open>\<^verbatim>\<open>archiveBudgetReader.Read\<close>, with the scanner it points to in its state.\<close>

definition byteLimitError :: "archive_env \<Rightarrow> go_error" where
  "byteLimitError env =
     Wrapf ''%w (maximum %d bytes)'' [AInt (opt_ArchiveMaxBytes (ae_options env))] errArchiveDecompressedBytes"

definition budget_Read :: "archive_env \<Rightarrow> (archive_scanner \<times> stream) read_fun" where
  "budget_Read env n st =
     (case st of (scanner, reader) \<Rightarrow>
        let remaining = opt_ArchiveMaxBytes (ae_options env) - as_bytesRead scanner in
        if remaining \<le> 0 then
          (case stream_Read 1 reader of
             ((b, err), reader) \<Rightarrow>
               if length b > 0 then (([], Some (byteLimitError env)), (scanner, reader))
               else (([], err), (scanner, reader)))
        else
          (case stream_Read (if int n > remaining then nat remaining else n) reader of
             ((b, err), reader) \<Rightarrow>
               ((b, err), (scanner\<lparr>as_bytesRead := as_bytesRead scanner + int (length b)\<rparr>, reader))))"

text \<open>
  \<^verbatim>\<open>readPrefix\<close>. The calls of \<^verbatim>\<open>Read\<close> are bounded by one more than the bytes of
  the entry, which is enough (\<open>readPrefix_spec\<close>).
\<close>

definition readPrefix ::
  "archive_env \<Rightarrow> archive_scanner \<Rightarrow> stream \<Rightarrow>
     (bytes \<times> bytes \<times> bool \<times> go_error option) \<times> (archive_scanner \<times> stream)" where
  "readPrefix env scanner reader =
     (let MaxBytes = opt_MaxBytes (ae_options env);
          room = ReadAll_room (ae_lib env);
          fuel = Suc (length (sm_data reader))
      in if MaxBytes = 0 then
           (case io_ReadAll (budget_Read env) room fuel [] (scanner, reader) of
              ((data, err), st) \<Rightarrow> ((data, [], err = None, err), st))
         else
           let prefixLimit = (if MaxBytes < 2 ^ 63 - 1 then MaxBytes + 1 else MaxBytes) in
           (case io_ReadAll (limit_Read (budget_Read env)) room fuel [] (prefixLimit, scanner, reader) of
              ((data, err), (_, st)) \<Rightarrow>
                if err \<noteq> None then ((data, [], False, err), st)
                else if int (length data) \<le> MaxBytes then ((data, [], True, None), st)
                else ((take (nat MaxBytes) data, drop (nat MaxBytes) data, False, None), st)))"

definition readFullEntry ::
  "archive_env \<Rightarrow> archive_scanner \<Rightarrow> bytes \<Rightarrow> bytes \<Rightarrow> stream \<Rightarrow>
     (bytes \<times> go_error option) \<times> (archive_scanner \<times> stream)" where
  "readFullEntry env scanner pre overflow reader =
     (case io_ReadAll (budget_Read env) (ReadAll_room (ae_lib env)) (Suc (length (sm_data reader))) []
         (scanner, reader) of
        ((remainder, err), st) \<Rightarrow> ((pre @ overflow @ remainder, err), st))"

section \<open>Entries and outcomes\<close>

definition report_progress :: "int \<times> int \<times> int \<Rightarrow> archive_scanner \<Rightarrow> archive_scanner" where
  "report_progress p scanner = scanner\<lparr>as_progress := map_option (\<lambda>l. l @ [p]) (as_progress scanner)\<rparr>"

definition beginEntry :: "archive_env \<Rightarrow> archive_scanner \<Rightarrow> go_error option \<times> archive_scanner" where
  "beginEntry env scanner =
     (let scanner = scanner\<lparr>as_entries := as_entries scanner + 1\<rparr>;
          scanner = report_progress (1, 0, 0) scanner
      in (if as_entries scanner > opt_ArchiveMaxEntries (ae_options env)
          then Some (Errorf ''archive entry count exceeds %d'' [AInt (opt_ArchiveMaxEntries (ae_options env))])
          else None, scanner))"

definition finishEntry :: "bool \<Rightarrow> archive_scanner \<Rightarrow> archive_scanner" where
  "finishEntry capped scanner = report_progress (0, 1, if capped then 1 else 0) scanner"

definition errorOutcome :: "string list \<Rightarrow> go_error \<Rightarrow> outcome" where
  "errorOutcome entries err =
     scanOutcome [] [] False
       (Some (if length entries > 0
              then Wrapf ''archive entry %q: %w'' [AStr (strings_Join entries '':'')] err else err))"

text \<open>\<^verbatim>\<open>errors.Join\<close> of two errors that are not nil is \<open>ErrJoin\<close> of both.\<close>

definition mergeScanOutcomes :: "outcome \<Rightarrow> outcome \<Rightarrow> outcome" where
  "mergeScanOutcomes target source =
     (let target = target\<lparr>oc_certificates := oc_certificates target @ oc_certificates source,
                          oc_pkcs12Encrypted := oc_pkcs12Encrypted target @ oc_pkcs12Encrypted source\<rparr>
      in case oc_err source of
           None \<Rightarrow> target
         | Some e \<Rightarrow>
            (case oc_err target of
               None \<Rightarrow> target\<lparr>oc_err := Some \<lparr>fe_Path = [], fe_Err = fe_Err e\<rparr>\<rparr>
             | Some t \<Rightarrow> target\<lparr>oc_err := Some (t\<lparr>fe_Err := ErrJoin [fe_Err t, fe_Err e]\<rparr>)\<rparr>))"

definition attachArchiveEntries :: "outcome \<Rightarrow> string list \<Rightarrow> outcome" where
  "attachArchiveEntries result entries =
     result\<lparr>oc_certificates := map (\<lambda>c. c\<lparr>cert_ArchiveEntries := entries\<rparr>) (oc_certificates result),
            oc_pkcs12Encrypted := map (\<lambda>e. e\<lparr>enc_ArchiveEntries := entries\<rparr>) (oc_pkcs12Encrypted result)\<rparr>"

definition appendArchiveEntry :: "string list \<Rightarrow> string \<Rightarrow> string list" where
  "appendArchiveEntry parents name =
     (let name = path_Clean name;
          name = (if name = ''.'' \<or> name = [] then ''(unnamed)'' else name)
      in parents @ [name])"

text \<open>The suffix is compared in lower case; only ASCII letters have the lower cases \<^verbatim>\<open>g\<close> and \<^verbatim>\<open>z\<close>.\<close>

definition has_gz_suffix :: "string \<Rightarrow> bool" where
  "has_gz_suffix name \<longleftrightarrow> strings_HasSuffix (map ascii_lower name) ''.gz''"

definition defaultGZIPEntryName :: "string \<Rightarrow> string list \<Rightarrow> string" where
  "defaultGZIPEntryName outerPath parents =
     (let name = (if length parents > 0 then path_Base (last parents) else path_Base outerPath);
          name = (if has_gz_suffix name then take (length name - 3) name else name)
      in if name = [] \<or> name = ''.'' then ''content'' else name)"

section \<open>The entry count of a ZIP archive\<close>

definition end_record_at :: "bytes \<Rightarrow> nat \<Rightarrow> bool" where
  "end_record_at tail offset \<longleftrightarrow>
     (le_word (take 4 (drop offset tail)) :: 32 word) = 0x06054b50 \<and>
     offset + 22 + unat (le_word (take 2 (drop (offset + 20) tail)) :: 16 word) = length tail"

text \<open>The loop over the offsets, downwards.\<close>

fun find_end_record :: "bytes \<Rightarrow> nat \<Rightarrow> nat option" where
  "find_end_record tail 0 = (if end_record_at tail 0 then Some 0 else None)"
| "find_end_record tail (Suc offset) =
     (if end_record_at tail (Suc offset) then Some (Suc offset) else find_end_record tail offset)"

definition readZIP64EntryCount :: "read_at \<Rightarrow> int \<Rightarrow> 64 word go_result" where
  "readZIP64EntryCount ReadAt endRecordOffset =
     (if endRecordOffset < 20 then Inl (ErrNew ''ZIP64 locator is missing'')
      else (case ReadAt (endRecordOffset - 20) 20 of
        Inl err \<Rightarrow> Inl err
      | Inr locator \<Rightarrow>
         if (le_word (take 4 locator) :: 32 word) \<noteq> 0x07064b50 then Inl (ErrNew ''ZIP64 locator is missing'')
         else
           let encodedOffset = (le_word (take 8 (drop 8 locator)) :: 64 word) in
           if encodedOffset > 0x7FFFFFFFFFFFFFFF
           then Inl (ErrNew ''ZIP64 directory offset exceeds the supported file size'')
           else (case ReadAt (sint encodedOffset) 56 of
             Inl err \<Rightarrow> Inl err
           | Inr endRecord \<Rightarrow>
              if (le_word (take 4 endRecord) :: 32 word) \<noteq> 0x06064b50
              then Inl (ErrNew ''ZIP64 end-of-central-directory record is missing'')
              else Inr (le_word (take 8 (drop 32 endRecord))))))"

definition checkZIPEntryCount :: "archive_env \<Rightarrow> archive_scanner \<Rightarrow> read_at \<Rightarrow> int \<Rightarrow> go_error option" where
  "checkZIPEntryCount env scanner ReadAt fileSize =
     (let tailSize = min fileSize (22 + 65535) in
      if tailSize < 22 then Some (ErrNew ''ZIP end-of-central-directory record is missing'')
      else (case ReadAt (fileSize - tailSize) (nat tailSize) of
        Inl err \<Rightarrow> Some (Wrapf ''read ZIP directory footer: %w'' [] err)
      | Inr tail \<Rightarrow>
         (case find_end_record tail (length tail - 22) of
            None \<Rightarrow> Some (ErrNew ''ZIP end-of-central-directory record is missing'')
          | Some offset \<Rightarrow>
              let entryCount = (ucast (le_word (take 2 (drop (offset + 10) tail)) :: 16 word) :: 64 word);
                  entryCount = (if entryCount = 0xFFFF
                    then (case readZIP64EntryCount ReadAt (fileSize - tailSize + int offset) of
                      Inl err \<Rightarrow> entryCount | Inr zip64Count \<Rightarrow> zip64Count)
                    else entryCount);
                  remainingEntries = opt_ArchiveMaxEntries (ae_options env) - as_entries scanner;
                  remainingEntryLimit = (word_of_int remainingEntries :: 64 word)
              in if entryCount > remainingEntryLimit
                 then Some (Errorf ''ZIP entry count %d exceeds remaining archive entry limit %d''
                   [AInt (uint entryCount), AInt remainingEntries])
                 else None)))"

section \<open>The recursion into an archive\<close>

text \<open>The test after each entry that ends the scan of the archive.\<close>

definition limit_reached :: "outcome \<Rightarrow> bool" where
  "limit_reached result \<longleftrightarrow>
     (case oc_err result of None \<Rightarrow> False | Some e \<Rightarrow> errors_Is (fe_Err e) errArchiveDecompressedBytes)"

text \<open>
  The five functions that call each other; \<open>result\<close> is the outcome the loops of
  \<^verbatim>\<open>scanZIP\<close> and \<^verbatim>\<open>scanTAR\<close> accumulate, \<open>empty_outcome\<close> at their start. They end
  because every nested archive is one level deeper.
\<close>

function
  scanEntry :: "archive_env \<Rightarrow> archive_scanner \<Rightarrow> stream \<Rightarrow> string list \<Rightarrow> int \<Rightarrow>
    (outcome \<times> bool) \<times> archive_scanner"
  and scanArchiveBytes :: "archive_env \<Rightarrow> archive_scanner \<Rightarrow> bytes \<Rightarrow> archiveFormat \<Rightarrow> string list \<Rightarrow> int \<Rightarrow>
    outcome \<times> archive_scanner"
  and scanZIP :: "archive_env \<Rightarrow> archive_scanner \<Rightarrow> zip_entry list \<Rightarrow> string list \<Rightarrow> int \<Rightarrow> outcome \<Rightarrow>
    outcome \<times> archive_scanner"
  and scanTAR :: "archive_env \<Rightarrow> archive_scanner \<Rightarrow> tar_entry list \<Rightarrow> go_error \<Rightarrow> string list \<Rightarrow> int \<Rightarrow> outcome \<Rightarrow>
    outcome \<times> archive_scanner"
  and scanGZIP :: "archive_env \<Rightarrow> archive_scanner \<Rightarrow> stream \<Rightarrow> string list \<Rightarrow> int \<Rightarrow>
    outcome \<times> archive_scanner"
where
  "scanEntry env scanner reader entries depth =
     (case readPrefix env scanner reader of ((pre, overflow, complete, err), (scanner, reader)) \<Rightarrow>
        case err of
          Some e \<Rightarrow>
            let partial = fst (scanContentData (ae_x509 env) (ae_outerPath env) pre False);
                partial = attachArchiveEntries partial entries
            in ((mergeScanOutcomes partial (errorOutcome entries e), False), scanner)
        | None \<Rightarrow>
            let format = detectArchiveFormat pre in
            if format \<noteq> archiveFormatNone then
              if depth \<ge> opt_ArchiveMaxDepth (ae_options env) then
                ((errorOutcome entries (Errorf ''archive nesting depth exceeds %d''
                    [AInt (opt_ArchiveMaxDepth (ae_options env))]), False), scanner)
              else
                (case (if complete then ((pre, None), (scanner, reader))
                       else readFullEntry env scanner pre overflow reader) of
                   ((data, readErr), (scanner, _)) \<Rightarrow>
                     case readErr of
                       Some e \<Rightarrow> ((errorOutcome entries e, False), scanner)
                     | None \<Rightarrow>
                        (case scanArchiveBytes env scanner data format entries (depth + 1) of
                           (result, scanner) \<Rightarrow> ((result, False), scanner)))
            else
              (case scanContentData (ae_x509 env) (ae_outerPath env) pre complete of (result, needsFullRead) \<Rightarrow>
                 if needsFullRead then
                   (case readFullEntry env scanner pre overflow reader of
                      ((data, readErr), (scanner, _)) \<Rightarrow>
                        case readErr of
                          Some e \<Rightarrow>
                            let result = attachArchiveEntries result entries
                            in ((mergeScanOutcomes result (errorOutcome entries e), False), scanner)
                        | None \<Rightarrow>
                            let result = fst (scanContentData (ae_x509 env) (ae_outerPath env) data True)
                            in ((attachArchiveEntries result entries, \<not> complete \<and> \<not> needsFullRead), scanner))
                 else ((attachArchiveEntries result entries, \<not> complete \<and> \<not> needsFullRead), scanner)))"
| "scanArchiveBytes env scanner data format parents depth =
     (case format of
        archiveFormatZIP \<Rightarrow>
          (case checkZIPEntryCount env scanner (bytes_ReadAt data) (int (length data)) of
             Some err \<Rightarrow> (errorOutcome parents (Wrapf ''parse ZIP archive: %w'' [] err), scanner)
           | None \<Rightarrow>
              (case zip_NewReader (ae_lib env) (bytes_ReadAt data) (int (length data)) of
                 Inl err \<Rightarrow> (errorOutcome parents (Wrapf ''parse ZIP archive: %w'' [] err), scanner)
               | Inr files \<Rightarrow> scanZIP env scanner files parents depth empty_outcome))
      | archiveFormatTAR \<Rightarrow>
          (case tar_NewReader (ae_lib env) (stream_of data) of
             (headers, end) \<Rightarrow> scanTAR env scanner headers end parents depth empty_outcome)
      | archiveFormatGZIP \<Rightarrow> scanGZIP env scanner (stream_of data) parents depth
      | archiveFormatNone \<Rightarrow> (errorOutcome parents (ErrNew ''unsupported nested archive format''), scanner))"
| "scanZIP env scanner [] parents depth result = (result, scanner)"
| "scanZIP env scanner (entry # files) parents depth result =
     (let entries = appendArchiveEntry parents (ze_Name entry) in
      case beginEntry env scanner of
        (Some err, scanner) \<Rightarrow> (mergeScanOutcomes result (errorOutcome entries err), scanner)
      | (None, scanner) \<Rightarrow>
          if ze_IsDir entry \<or> \<not> ze_IsRegular entry then scanZIP env scanner files parents depth result
          else if ze_Flags entry AND 1 \<noteq> 0 then
            scanZIP env (finishEntry False scanner) files parents depth
              (mergeScanOutcomes result (errorOutcome entries (ErrNew ''encrypted ZIP entry is unsupported'')))
          else (case ze_Open entry of
            Inl err \<Rightarrow>
              scanZIP env (finishEntry False scanner) files parents depth
                (mergeScanOutcomes result (errorOutcome entries (Wrapf ''open ZIP entry: %w'' [] err)))
          | Inr content \<Rightarrow>
              (case scanEntry env scanner content entries depth of ((entryResult, capped), scanner) \<Rightarrow>
                 let entryResult = (case ze_Close entry of
                         None \<Rightarrow> entryResult
                       | Some closeErr \<Rightarrow> mergeScanOutcomes entryResult
                           (errorOutcome entries (Wrapf ''close ZIP entry: %w'' [] closeErr)));
                     scanner = finishEntry capped scanner;
                     result = mergeScanOutcomes result entryResult
                 in if limit_reached entryResult then (result, scanner)
                    else scanZIP env scanner files parents depth result)))"
| "scanTAR env scanner [] err parents depth result =
     (if errors_Is err io_EOF then (result, scanner)
      else (mergeScanOutcomes result (errorOutcome parents (Wrapf ''parse TAR archive: %w'' [] err)), scanner))"
| "scanTAR env scanner (header # headers) end parents depth result =
     (let entries = appendArchiveEntry parents (te_Name header) in
      case beginEntry env scanner of
        (Some err, scanner) \<Rightarrow> (mergeScanOutcomes result (errorOutcome entries err), scanner)
      | (None, scanner) \<Rightarrow>
          if \<not> te_IsRegular header then scanTAR env scanner headers end parents depth result
          else
            (case scanEntry env scanner (te_content header) entries depth of ((entryResult, capped), scanner) \<Rightarrow>
               let scanner = finishEntry capped scanner;
                   result = mergeScanOutcomes result entryResult
               in if limit_reached entryResult then (result, scanner)
                  else scanTAR env scanner headers end parents depth result))"
| "scanGZIP env scanner reader parents depth =
     (case gzip_NewReader (ae_lib env) reader of
        Inl err \<Rightarrow> (errorOutcome parents (Wrapf ''parse gzip archive: %w'' [] err), scanner)
      | Inr gzipReader \<Rightarrow>
          let name = (if gz_Name gzipReader = [] then defaultGZIPEntryName (ae_outerPath env) parents
                      else gz_Name gzipReader);
              entries = appendArchiveEntry parents name
          in case beginEntry env scanner of
               (Some err, scanner) \<Rightarrow> (errorOutcome entries err, scanner)
             | (None, scanner) \<Rightarrow>
                 (case scanEntry env scanner (gz_content gzipReader) entries depth of ((result, capped), scanner) \<Rightarrow>
                    let result = (case gz_Close gzipReader of
                          None \<Rightarrow> result
                        | Some err \<Rightarrow> mergeScanOutcomes result
                            (errorOutcome entries (Wrapf ''close gzip archive: %w'' [] err)))
                    in (result, finishEntry capped scanner)))"
  by pat_completeness auto
termination
proof (relation "measures
    [case_sum
       (case_sum (\<lambda>(env, _, _, _, depth). nat (opt_ArchiveMaxDepth (ae_options env) - depth))
         (\<lambda>(env, _, _, _, _, depth). nat (opt_ArchiveMaxDepth (ae_options env) - depth)))
       (case_sum (\<lambda>(env, _, _, _, depth, _). nat (opt_ArchiveMaxDepth (ae_options env) - depth))
         (case_sum (\<lambda>(env, _, _, _, _, depth, _). nat (opt_ArchiveMaxDepth (ae_options env) - depth))
           (\<lambda>(env, _, _, _, depth). nat (opt_ArchiveMaxDepth (ae_options env) - depth)))),
     case_sum (case_sum (\<lambda>_. 0) (\<lambda>_. 2)) (\<lambda>_. 1),
     case_sum (\<lambda>_. 0) (case_sum (\<lambda>(_, _, files, _). length files)
       (case_sum (\<lambda>(_, _, headers, _). length headers) (\<lambda>_. 0)))]")
qed simp_all

declare scanEntry.simps [simp del] scanArchiveBytes.simps [simp del] scanGZIP.simps [simp del]
  scanZIP.simps [simp del] scanTAR.simps [simp del]

section \<open>The outer archive\<close>

text \<open>
  An open file: its bytes from the start, as the first read gets them, and again after
  \<^verbatim>\<open>Seek\<close>; a file that changes in between is two different streams.
\<close>

record os_file =
  of_stream :: stream
  of_Seek :: "stream go_result"
  of_Stat :: "int go_result"
  of_ReadAt :: read_at

definition new_archiveScanner :: "bool \<Rightarrow> archive_scanner" where
  "new_archiveScanner progress =
     \<lparr>as_bytesRead = 0, as_entries = 0, as_progress = (if progress then Some [] else None)\<rparr>"

definition scanArchiveFile ::
  "archive_env \<Rightarrow> os_file \<Rightarrow> archiveFormat \<Rightarrow> bool \<Rightarrow> outcome \<times> archive_scanner" where
  "scanArchiveFile env file format progress =
     (let scanner = new_archiveScanner progress in
      case format of
        archiveFormatZIP \<Rightarrow>
          (case of_Stat file of
             Inl err \<Rightarrow> (scanOutcome [] [] False (Some err), scanner)
           | Inr fileSize \<Rightarrow>
              (case checkZIPEntryCount env scanner (of_ReadAt file) fileSize of
                 Some err \<Rightarrow>
                   (scanOutcome [] [] False (Some (Wrapf ''parse ZIP archive: %w'' [] err)), scanner)
               | None \<Rightarrow>
                  (case zip_NewReader (ae_lib env) (of_ReadAt file) fileSize of
                     Inl err \<Rightarrow>
                       (scanOutcome [] [] False (Some (Wrapf ''parse ZIP archive: %w'' [] err)), scanner)
                   | Inr files \<Rightarrow> scanZIP env scanner files [] 1 empty_outcome)))
      | archiveFormatTAR \<Rightarrow>
          (case tar_NewReader (ae_lib env) (of_stream file) of
             (headers, end) \<Rightarrow> scanTAR env scanner headers end [] 1 empty_outcome)
      | archiveFormatGZIP \<Rightarrow> scanGZIP env scanner (of_stream file) [] 1
      | archiveFormatNone \<Rightarrow>
          (scanOutcome [] [] False (Some (ErrNew ''unsupported archive format'')), scanner))"

end
