(* ===== verification/ArchiveRead.thy ===== *)
theory ArchiveRead
  imports Archive
begin

text \<open>
  Reading an archive entry: the budget reader and the limited reader on top of it keep the
  contract of a reader, so what \<open>readPrefix\<close> and \<open>readFullEntry\<close> return does not depend on
  how the bytes arrive, and every byte is accounted for.
\<close>

section \<open>The budget reader\<close>

definition budget_left :: "archive_env \<Rightarrow> archive_scanner \<Rightarrow> nat" where
  "budget_left env scanner = nat (opt_ArchiveMaxBytes (ae_options env) - as_bytesRead scanner)"

text \<open>What is left of an entry within the budget: its bytes, and the error behind them.\<close>

definition budget_content :: "archive_env \<Rightarrow> archive_scanner \<times> stream \<Rightarrow> bytes \<times> go_error" where
  "budget_content env st =
     (case st of (scanner, reader) \<Rightarrow>
        if length (sm_data reader) \<le> budget_left env scanner then (sm_data reader, sm_err reader)
        else (take (budget_left env scanner) (sm_data reader), byteLimitError env))"

definition budget_joint :: "archive_env \<Rightarrow> archive_scanner \<times> stream \<Rightarrow> bool" where
  "budget_joint env st =
     (case st of (scanner, reader) \<Rightarrow>
        sm_joint reader \<and> length (sm_data reader) \<le> budget_left env scanner)"

lemma budget_read_end:
  assumes n: "0 < n" and c: "budget_content env st = ([], err)"
  shows "\<exists>st'. budget_Read env n st = (([], Some err), st')"
proof -
  obtain sc s where st: "st = (sc, s)" by (cases st)
  define r where "r = opt_ArchiveMaxBytes (ae_options env) - as_bytesRead sc"
  show ?thesis
  proof (cases "sm_data s = []")
    case True
    then have e: "err = sm_err s" using c st by (simp add: budget_content_def)
    have "stream_Read m s = (([], Some (sm_err s)), s)" for m
      using True by (simp add: stream_Read_def)
    then show ?thesis
      by (simp add: st e budget_Read_def Let_def)
  next
    case False
    then have r: "r \<le> 0" and e: "err = byteLimitError env"
      using c st by (auto simp: budget_content_def budget_left_def r_def split: if_splits)
    obtain b e' s' where R: "stream_Read 1 s = ((b, e'), s')" by (metis surj_pair)
    then have "b \<noteq> []"
      using False by (auto simp: stream_Read_def Let_def split: if_splits list.splits)
    with R show ?thesis
      using r by (simp add: st e budget_Read_def Let_def r_def)
  qed
qed

lemma budget_read_some:
  assumes n: "0 < n" and c: "budget_content env st = (d, err)" and d: "d \<noteq> []"
  shows "\<exists>b d' st'. d = b @ d' \<and> b \<noteq> [] \<and> length b \<le> n \<and>
      (if d' = [] \<and> budget_joint env st then budget_Read env n st = ((b, Some err), st')
       else budget_Read env n st = ((b, None), st') \<and> budget_content env st' = (d', err) \<and>
         budget_joint env st' = budget_joint env st)"
proof -
  obtain sc s where st: "st = (sc, s)" by (cases st)
  define r where "r = opt_ArchiveMaxBytes (ae_options env) - as_bytesRead sc"
  define m where "m = (if int n > r then nat r else n)"
  have "length d \<le> nat r" and s: "sm_data s \<noteq> []"
    using c d st by (auto simp: budget_content_def budget_left_def r_def split: if_splits)
  then have r: "0 < r" using d by (cases d) auto
  have m: "0 < m" "m \<le> n" "m \<le> nat r" using r n by (auto simp: m_def)
  obtain b x s' where x: "sm_data s = b @ x" "b \<noteq> []" "length b \<le> m"
    "if x = [] \<and> sm_joint s then stream_Read m s = ((b, Some (sm_err s)), s')
     else stream_Read m s = ((b, None), s') \<and> (sm_data s', sm_err s') = (x, sm_err s) \<and> sm_joint s' = sm_joint s"
    using stream_r.read_some [OF m(1) refl s] by blast
  define sc' where "sc' = sc\<lparr>as_bytesRead := as_bytesRead sc + int (length b)\<rparr>"
  have left: "budget_left env sc = nat r" "budget_left env sc' = nat r - length b"
    using x(3) m(3) by (auto simp: budget_left_def r_def sc'_def)
  have lb: "length b \<le> nat r" using x(3) m(3) by simp
  have reads: "budget_Read env n st = ((b, e), (sc', s'))" if "stream_Read m s = ((b, e), s')" for e
    unfolding st budget_Read_def prod.case Let_def r_def [symmetric] m_def [symmetric] that sc'_def
    using r by simp
  show ?thesis
  proof (cases "x = [] \<and> sm_joint s")
    case True
    with x have R: "stream_Read m s = ((b, Some (sm_err s)), s')" by simp
    have "d = b" "err = sm_err s" "budget_joint env st"
      using True x(1) lb c st left by (auto simp: budget_content_def budget_joint_def)
    moreover have "budget_Read env n st = ((b, Some (sm_err s)), (sc', s'))"
      using R by (rule reads)
    ultimately show ?thesis
      using x(2,3) m(2) by (intro exI [of _ b] exI [of _ "[]"] exI [of _ "(sc', s')"]) auto
  next
    case False
    with x have R: "stream_Read m s = ((b, None), s')"
      and s': "sm_data s' = x" "sm_err s' = sm_err s" "sm_joint s' = sm_joint s" by auto
    have read: "budget_Read env n st = ((b, None), (sc', s'))"
      using R by (rule reads)
    have fits: "length x \<le> nat r - length b \<longleftrightarrow> length (sm_data s) \<le> nat r"
      using lb x(1) by auto
    define d' where "d' = fst (budget_content env (sc', s'))"
    have "budget_content env (sc', s') = (d', err)" "d = b @ d'"
      using c fits s' lb by (auto simp: st budget_content_def left d'_def x(1) split: if_splits)
    moreover have "budget_joint env (sc', s') = budget_joint env st"
      using fits s' by (simp add: st budget_joint_def left)
    moreover have "\<not> (d' = [] \<and> budget_joint env st)"
      using False fits s' by (auto simp: st budget_joint_def left d'_def budget_content_def split: if_splits)
    ultimately show ?thesis
      using read x(2,3) m(2) by (intro exI [of _ b] exI [of _ d'] exI [of _ "(sc', s')"]) auto
  qed
qed

interpretation budget_r: io_reader "budget_Read env" "budget_content env" "budget_joint env" for env
  by unfold_locales (rule budget_read_end budget_read_some; assumption)+

interpretation budget_t: settled_reader "budget_Read env" "budget_content env" "budget_joint env" for env
proof
  fix n :: nat and st st' d err b e
  assume n: "0 < n" and c: "budget_content env st = (d, err)" and d: "d \<noteq> []"
    and read: "budget_Read env n st = ((b, Some e), st')"
  have j: "budget_joint env st"
    using budget_r.read_some [OF n c d] read by (auto split: if_splits)
  obtain sc s where st: "st = (sc, s)" by (cases st)
  with j c have fits: "d = sm_data s" "err = sm_err s" "length d \<le> budget_left env sc"
    by (auto simp: budget_joint_def budget_content_def)
  moreover have "0 < length d" using d by simp
  ultimately have "0 < budget_left env sc" by linarith
  define r where "r = opt_ArchiveMaxBytes (ae_options env) - as_bytesRead sc"
  define m where "m = (if int n > r then nat r else n)"
  have r: "0 < r" using \<open>0 < budget_left env sc\<close> by (simp add: budget_left_def r_def)
  have "0 < m" using r n by (simp add: m_def)
  moreover have "stream_Read m s = ((b, Some e), snd st')"
    using read r unfolding st budget_Read_def prod.case Let_def r_def [symmetric] m_def [symmetric]
    by (auto split: prod.splits)
  ultimately have m: "0 < m" "stream_Read m s = ((b, Some e), snd st')" by simp_all
  have "sm_data (snd st') = []" "sm_err (snd st') = sm_err s"
    using stream_s.read_last [OF m(1) refl _ m(2)] d fits(1) by simp_all
  then show "budget_content env st' = ([], err)"
    by (cases st') (simp add: budget_content_def fits(2))
qed

text \<open>The only thing a read changes in the scanner is the byte count, and it stays in the budget.\<close>

definition bytes_read :: "archive_env \<Rightarrow> archive_scanner \<Rightarrow> nat \<Rightarrow> archive_scanner \<Rightarrow> bool" where
  "bytes_read env scanner n scanner' \<longleftrightarrow>
     scanner' = scanner\<lparr>as_bytesRead := as_bytesRead scanner + int n\<rparr> \<and>
     (as_bytesRead scanner \<le> opt_ArchiveMaxBytes (ae_options env) \<longrightarrow>
      as_bytesRead scanner' \<le> opt_ArchiveMaxBytes (ae_options env))"

lemma stream_Read_length: "stream_Read n s = ((b, e), s') \<Longrightarrow> length b \<le> n"
  by (auto simp: stream_Read_def Let_def split: if_splits list.splits)

interpretation budget_s: reader_step "budget_Read env" "\<lambda>x n y. bytes_read env (fst x) n (fst y)" for env
proof
  fix n :: nat and s s' b e
  assume "budget_Read env n s = ((b, e), s')"
  then show "bytes_read env (fst s) (length b) (fst s')"
    by (auto simp: budget_Read_def bytes_read_def Let_def split: prod.splits if_splits
        dest!: stream_Read_length)
qed (auto simp: bytes_read_def)

section \<open>The prefix and the whole entry\<close>

interpretation limit_budget_r: io_reader "limit_Read (budget_Read env)"
    "limit_content (budget_content env) (budget_joint env)" "limit_joint (budget_content env) (budget_joint env)"
  for env
  by (rule budget_r.limit_reader)

interpretation limit_budget_s: reader_step "limit_Read (budget_Read env)"
    "\<lambda>x n y. bytes_read env (fst (snd x)) n (fst (snd y))" for env
  using budget_s.limit_step [of env] .

lemma budget_content_length: "length (fst (budget_content env (scanner, reader))) \<le> length (sm_data reader)"
  by (simp add: budget_content_def)

text \<open>
  What \<^verbatim>\<open>readPrefix\<close> returns for an entry whose budgeted content is \<open>d\<close> with the error
  \<open>e\<close> behind it: all of it when it is not longer than the limit, otherwise the prefix and
  the one byte more that was read. (An error that comes in the same read as the byte behind the
  limit is returned with everything read.)
\<close>

definition prefix_spec :: "int \<Rightarrow> bytes \<Rightarrow> go_error option \<Rightarrow> bool \<Rightarrow> bytes \<times> bytes \<times> bool \<times> go_error option" where
  "prefix_spec limit d e together =
     (if limit = 0 \<or> int (length d) \<le> limit \<or> int (length d) = limit + 1 \<and> together \<and> e \<noteq> None
      then (d, [], e = None, e)
      else (take (nat limit) d, [d ! nat limit], False, None))"

lemma take_Suc_split: "n < length d \<Longrightarrow> drop n (take (Suc n) d) = [d ! n]"
  by (simp add: take_Suc_conv_app_nth)

text \<open>What is read through the limit of one byte more than the prefix, and how it is split.\<close>

lemma prefix_of_limited:
  assumes "content s = (d, err)" and "0 < M"
    and "read_result (limit_content content joint (M + 1, s)) = (data, e)"
  shows "(if e \<noteq> None then (data, [], False, e)
      else if int (length data) \<le> M then (data, [], True, None)
      else (take (nat M) data, drop (nat M) data, False, None)) =
    prefix_spec M d (if err = io_EOF then None else Some err) (joint s)"
proof -
  have nat_M: "nat (M + 1) = Suc (nat M)" using assms(2) by simp
  consider "int (length d) \<le> M" | "int (length d) = M + 1" "joint s"
    | "M < int (length d)" "int (length d) = M + 1 \<longrightarrow> \<not> joint s"
    by fastforce
  then show ?thesis
  proof cases
    case 3
    then have "limit_content content joint (M + 1, s) = (take (nat (M + 1)) d, io_EOF)"
      using assms(1,2) by (auto simp: limit_content_def)
    with 3 assms nat_M show ?thesis
      using take_Suc_split [of "nat M" d] by (auto simp: prefix_spec_def read_result_def)
  qed (use assms nat_M take_Suc_split [of "nat M" d] in
      \<open>auto simp: limit_content_def prefix_spec_def read_result_def\<close>)
qed

text \<open>
  How much of an archive entry is sniffed depends on its bytes, the limits and the bytes
  already spent, not on how the reader splits them, where its errors fall, or how the buffer
  of \<^verbatim>\<open>io.ReadAll\<close> grows.
\<close>

theorem readPrefix_spec:
  assumes "budget_content env (scanner, reader) = (d, err)"
    and "0 \<le> opt_MaxBytes (ae_options env)" and "opt_MaxBytes (ae_options env) < 2 ^ 63 - 1"
  shows "fst (readPrefix env scanner reader) =
    prefix_spec (opt_MaxBytes (ae_options env)) d (if err = io_EOF then None else Some err)
      (budget_joint env (scanner, reader))"
proof -
  let ?M = "opt_MaxBytes (ae_options env)" and ?e = "if err = io_EOF then None else Some err"
  define room where "room = ReadAll_room (ae_lib env)"
  define fuel where "fuel = Suc (length (sm_data reader))"
  have len: "length d < fuel"
    using budget_content_length [of env scanner reader] assms(1) by (simp add: fuel_def)
  show ?thesis
  proof (cases "?M = 0")
    case True
    obtain st where "io_ReadAll (budget_Read env) room fuel [] (scanner, reader) = ((d, ?e), st)"
      using budget_r.ReadAll_content [OF assms(1) len, of room "[]"] by auto
    with True show ?thesis
      by (simp add: readPrefix_def prefix_spec_def Let_def room_def fuel_def)
  next
    case M: False
    define c where "c = limit_content (budget_content env) (budget_joint env) (?M + 1, scanner, reader)"
    have "length (fst c) < fuel"
      using len assms(1) by (auto simp: c_def limit_content_def split: if_splits)
    then obtain st where st: "io_ReadAll (limit_Read (budget_Read env)) room fuel [] (?M + 1, scanner, reader) =
        (read_result c, st)"
      using limit_budget_r.ReadAll_result [of env "(?M + 1, scanner, reader)" fuel room]
      by (metis c_def prod.collapse)
    obtain data e where r: "read_result c = (data, e)" by (cases "read_result c")
    have "fst (readPrefix env scanner reader) =
        (if e \<noteq> None then (data, [], False, e)
         else if int (length data) \<le> ?M then (data, [], True, None)
         else (take (nat ?M) data, drop (nat ?M) data, False, None))"
      using st r M assms(3)
      by (simp add: readPrefix_def Let_def room_def fuel_def split: prod.splits)
    also have "\<dots> = prefix_spec ?M d ?e (budget_joint env (scanner, reader))"
      using M assms(2) by (intro prefix_of_limited [OF assms(1) _ r [unfolded c_def]]) simp
    finally show ?thesis .
  qed
qed

lemma readPrefix_rest:
  assumes "readPrefix env scanner reader = ((pre, overflow, False, None), st)"
    and "0 \<le> opt_MaxBytes (ae_options env)" and "opt_MaxBytes (ae_options env) < 2 ^ 63 - 1"
    and c: "budget_content env (scanner, reader) = (d, err)"
  shows "d = pre @ overflow @ fst (budget_content env st)" and "snd (budget_content env st) = err"
proof -
  let ?M = "opt_MaxBytes (ae_options env)"
  define room where "room = ReadAll_room (ae_lib env)"
  define fuel where "fuel = Suc (length (sm_data reader))"
  have spec: "prefix_spec ?M d (if err = io_EOF then None else Some err) (budget_joint env (scanner, reader)) =
      (pre, overflow, False, None)"
    using readPrefix_spec [OF c assms(2,3)] assms(1) by simp
  then have M: "?M \<noteq> 0" "?M < int (length d)" and po: "pre = take (nat ?M) d" "overflow = [d ! nat ?M]"
    and eof: "\<not> (int (length d) = ?M + 1 \<and> budget_joint env (scanner, reader) \<and> err \<noteq> io_EOF)"
    by (auto simp: prefix_spec_def split: if_splits)
  have len: "length d < fuel"
    using budget_content_length [of env scanner reader] c by (simp add: fuel_def)
  have bounds: "0 \<le> ?M + 1" "?M + 1 \<le> int (length d)" "nat (?M + 1) < fuel"
    using M(2) assms(2) len by linarith+
  have eof': "err = io_EOF" if "?M + 1 = int (length d)" "budget_joint env (scanner, reader)"
    using eof that by auto
  obtain N' s' where run: "io_ReadAll (limit_Read (budget_Read env)) room fuel [] (?M + 1, scanner, reader) =
      (([] @ take (nat (?M + 1)) d, None), (N', s'))" and s': "budget_content env s' = (drop (nat (?M + 1)) d, err)"
    using budget_t.limit_ReadAll_rest [OF c bounds eof', of room "[]"] by blast
  have "st = s'"
    using assms(1,3) run M
    by (auto simp: readPrefix_def Let_def room_def fuel_def split: if_splits)
  moreover have "nat (?M + 1) = Suc (nat ?M)" using assms(2) by simp
  moreover have "d = take (nat ?M) d @ d ! nat ?M # drop (Suc (nat ?M)) d"
    using M(2) assms(2) by (simp add: id_take_nth_drop)
  ultimately show "d = pre @ overflow @ fst (budget_content env st)" "snd (budget_content env st) = err"
    using s' po by simp_all
qed

lemma full_entry_read:
  assumes "readPrefix env scanner reader = ((pre, overflow, False, None), (scanner', reader'))"
    and "0 \<le> opt_MaxBytes (ae_options env)" and "opt_MaxBytes (ae_options env) < 2 ^ 63 - 1"
  shows "fst (readFullEntry env scanner' pre overflow reader') =
    read_result (budget_content env (scanner, reader))"
proof -
  obtain d err where c: "budget_content env (scanner, reader) = (d, err)" by (cases "budget_content env (scanner, reader)")
  note rest = readPrefix_rest [OF assms c]
  define c' where "c' = budget_content env (scanner', reader')"
  have "length (fst c') < Suc (length (sm_data reader'))"
    using budget_content_length [of env scanner' reader'] by (simp add: c'_def)
  from budget_r.ReadAll_result [OF this [unfolded c'_def], of "ReadAll_room (ae_lib env)"]
  show ?thesis
    using rest c by (auto simp: readFullEntry_def read_result_def split: prod.splits)
qed

section \<open>The byte count\<close>

lemma readPrefix_bytes:
  assumes "readPrefix env scanner reader = ((pre, overflow, complete, err), (scanner', reader'))"
  shows "bytes_read env scanner (length (pre @ overflow)) scanner'"
proof -
  define room where "room = ReadAll_room (ae_lib env)"
  define fuel where "fuel = Suc (length (sm_data reader))"
  show ?thesis
  proof (cases "opt_MaxBytes (ae_options env) = 0")
    case True
    with assms show ?thesis
      using budget_s.ReadAll_rel [of env room fuel "[]" "(scanner, reader)" pre err "(scanner', reader')"]
      by (auto simp: readPrefix_def Let_def room_def fuel_def split: prod.splits)
  next
    case False
    define N where "N = (if opt_MaxBytes (ae_options env) < 2 ^ 63 - 1 then opt_MaxBytes (ae_options env) + 1
      else opt_MaxBytes (ae_options env))"
    obtain data e N' st where run: "io_ReadAll (limit_Read (budget_Read env)) room fuel [] (N, scanner, reader) =
        ((data, e), (N', st))"
      by (metis surj_pair)
    then have "pre @ overflow = data" "st = (scanner', reader')"
      using assms False by (auto simp: readPrefix_def Let_def room_def fuel_def N_def split: if_splits)
    with limit_budget_s.ReadAll_rel [OF run] show ?thesis by auto
  qed
qed

lemma readFullEntry_bytes:
  assumes "readFullEntry env scanner pre overflow reader = ((data, err), (scanner', reader'))"
  obtains rest where "data = pre @ overflow @ rest" "bytes_read env scanner (length rest) scanner'"
proof -
  obtain rest e st where run: "io_ReadAll (budget_Read env) (ReadAll_room (ae_lib env))
      (Suc (length (sm_data reader))) [] (scanner, reader) = ((rest, e), st)"
    by (metis surj_pair)
  with assms budget_s.ReadAll_rel [OF run] show thesis
    by (intro that) (auto simp: readFullEntry_def)
qed

text \<open>
  C19: when the scanner sniffs the prefix of an entry and then reads on, the bytes it gets are the
  whole content of the entry within the budget, with the same error at the end: none is
  lost, none is read twice, what was sniffed comes first, and each of them is counted once
  against the budget of the archive.
\<close>

theorem entry_read_in_full:
  assumes "readPrefix env scanner reader = ((pre, overflow, False, None), (scanner', reader'))"
    and "0 \<le> opt_MaxBytes (ae_options env)" and "opt_MaxBytes (ae_options env) < 2 ^ 63 - 1"
  shows "case readFullEntry env scanner' pre overflow reader' of (result, scanner2, reader2) \<Rightarrow>
    result = read_result (budget_content env (scanner, reader)) \<and> prefix (pre @ overflow) (fst result) \<and>
    scanner2 = scanner\<lparr>as_bytesRead := as_bytesRead scanner + int (length (fst result))\<rparr>"
proof -
  obtain data err scanner2 reader2 where f: "readFullEntry env scanner' pre overflow reader' = ((data, err), (scanner2, reader2))"
    by (metis surj_pair)
  obtain rest where rest: "data = pre @ overflow @ rest" "bytes_read env scanner' (length rest) scanner2"
    by (rule readFullEntry_bytes [OF f])
  have "read_result (budget_content env (scanner, reader)) = (data, err)" using full_entry_read [OF assms] f by simp
  moreover have "scanner2 = scanner\<lparr>as_bytesRead := as_bytesRead scanner + int (length data)\<rparr>"
    using readPrefix_bytes [OF assms(1)] rest by (simp add: bytes_read_def add.assoc)
  ultimately show ?thesis using f rest(1) by (simp add: prefix_def)
qed

end
