(* ===== verification/ContentFacts.thy ===== *)
theory ContentFacts
  imports Content Samples
begin

unbundle bit_operations_syntax

text \<open>
  Facts about the classification of a file's bytes: the numbering of the findings, what a partial
  read may report, the loop over PEM blocks, and the names of the key usages.
\<close>

section \<open>The numbering of the findings\<close>

lemma describe_simps [simp]:
  "cert_Path (describe lib path i x) = path" "cert_Index (describe lib path i x) = int i"
  "cert_ArchiveEntries (describe lib path i x) = []" "cert_Keystore (describe lib path i x) = None"
  "cert_parsed (describe lib path i x) = Some x" "cert_Verification (describe lib path i x) = None"
  by (simp_all add: describe_def split: prod.splits)

text \<open>A list of findings of one file: all carry its path and are numbered from \<open>i\<close>.\<close>

definition numbered :: "string \<Rightarrow> nat \<Rightarrow> certificate list \<Rightarrow> bool" where
  "numbered path i cs \<longleftrightarrow> map cert_Index cs = map int [i..<i + length cs] \<and>
     list_all (\<lambda>c. cert_Path c = path \<and> cert_ArchiveEntries c = []) cs"

lemma numbered_Nil [simp]: "numbered path i []"
  by (simp add: numbered_def)

lemma numbered_Cons: "numbered path i (c # cs) \<longleftrightarrow>
    cert_Index c = int i \<and> cert_Path c = path \<and> cert_ArchiveEntries c = [] \<and> numbered path (Suc i) cs"
  by (auto simp: numbered_def upt_rec [of i])

lemma numbered_all: "numbered path i (describe_all lib path i xs)"
  by (induction xs arbitrary: i) (simp_all add: numbered_Cons)

lemma numbered_entries:
  "list_all (\<lambda>e. fst e \<noteq> None) es \<Longrightarrow> numbered path i (describe_entries lib path i es)"
  by (induction es arbitrary: i) (auto simp: numbered_Cons)

lemma jks_certificate_parsed:
  "list_all (\<lambda>c. jc_certificate c \<noteq> None) (fst (parseJavaKeystore lib data))"
proof (cases "fst (parseJavaKeystore lib data)")
  case (Cons a l)
  then obtain certs err where p: "parseJavaKeystore lib data = (certs, err)" "certs \<noteq> []"
    by (cases "parseJavaKeystore lib data") auto
  from parse_inv [OF p] obtain format st t where
    "jks_inv lib format data st data" "certs = map (jks_setTruststore t) (js_certificates st)"
    by metis
  then show ?thesis
    using p by (auto simp: list_all_iff jks_inv_def jks_entry_wf_def jks_setTruststore_def)
qed simp

lemma scan_numbered:
  "numbered path 0 (oc_certificates (fst (scanContentData lib path data complete)))"
  "list_all (\<lambda>e. enc_Path e = path) (oc_pkcs12Encrypted (fst (scanContentData lib path data complete)))"
proof -
  have j: "numbered path 0 (describe_entries lib path 0 (map (\<lambda>c. (jc_certificate c, jc_keystore c))
      (fst (parseJavaKeystore lib data))))"
    using jks_certificate_parsed [of lib data]
    by (intro numbered_entries) (simp add: list_all_iff)
  have p: "numbered path 0 (describe_entries lib path 0 (map (\<lambda>c. (Some (p12c_certificate c), p12c_keystore c)) cs))"
    for cs
    by (intro numbered_entries) (simp add: list_all_iff)
  show "numbered path 0 (oc_certificates (fst (scanContentData lib path data complete)))"
    "list_all (\<lambda>e. enc_Path e = path) (oc_pkcs12Encrypted (fst (scanContentData lib path data complete)))"
    using j p numbered_all [of path 0 lib]
    by (auto simp: scanContentData_def Let_def list_all_iff split: prod.splits)
qed

text \<open>
  The findings of one file are numbered 0, 1, 2, ... without a gap, whatever its format, and
  every finding and every encrypted content carries the path of the file and no archive entry.
\<close>

theorem content_findings_numbered:
  "numbered path 0 (oc_certificates (fst (scanContentData lib path data complete))) \<and>
   list_all (\<lambda>e. enc_Path e = path) (oc_pkcs12Encrypted (fst (scanContentData lib path data complete)))"
  using scan_numbered by blast

section \<open>Partial reads\<close>

text \<open>
  What \<^verbatim>\<open>scanContentData\<close> does with the first bytes of a file: it asks for the whole file,
  or it says that the file was capped and reports nothing.
\<close>

lemma scan_partial:
  assumes "scanContentData lib path data False = (oc, full)"
  shows "full \<or> oc = scanOutcome [] [] True None"
  using assms by (auto simp: scanContentData_def Let_def split: if_splits)

lemma content_complete:
  assumes "scanContentData lib path data True = (oc, full)"
  shows "\<not> full" "\<not> oc_capped oc"
  using assms by (auto simp: scanContentData_def Let_def split: if_splits prod.splits)

lemma scan_no_error_partial: "oc_err (fst (scanContentData lib path data False)) = None"
  by (auto simp: scanContentData_def Let_def)

lemma scan_scanned [simp]: "\<not> oc_scanned (fst (scanContentData lib path data complete))"
  by (auto simp: scanContentData_def Let_def split: prod.splits)

section \<open>The loop over PEM blocks\<close>

text \<open>\<^verbatim>\<open>pem.Decode\<close> returns the remainder of the input, which is shorter after a block.\<close>

definition pem_consumes :: "x509_lib \<Rightarrow> bool" where
  "pem_consumes lib \<longleftrightarrow>
     (\<forall>data block rest. pem_Decode lib data = Some (block, rest) \<longrightarrow> length rest < length data)"

lemma bytes_from_length: "bytes_from pat data = Some d \<Longrightarrow> length d \<le> length data"
  by (induction data) (auto split: if_splits)

lemma bytes_from_take: "bytes_from pat data = Some d \<Longrightarrow> take (length pat) d = pat"
  by (induction data) (auto split: if_splits)

lemma pemBegin_length [simp]: "length pemBegin = 27"
  by (simp add: pemBegin_def bytes_of_string_def)

lemma bytes_from_drop: "bytes_from pemBegin data = Some d \<Longrightarrow> length (drop 27 d) < length data"
  using bytes_from_length [of pemBegin data d] bytes_from_take [of pemBegin data d]
  by (cases d) (auto dest: arg_cong [of _ _ length] simp del: take_Suc_Cons)

text \<open>What was found before stays in front, and more fuel than bytes changes nothing.\<close>

lemma parsePEM_loop_acc: "parsePEM_loop lib n acc data = acc @ parsePEM_loop lib n [] data"
proof (induction n arbitrary: acc data)
  case 0
  then show ?case by simp
next
  case (Suc n)
  have step: "parsePEM_loop lib n (acc @ [c]) rest = acc @ parsePEM_loop lib n [c] rest" for c rest
    using Suc.IH [of "acc @ [c]" rest] Suc.IH [of "[c]" rest] by simp
  show ?case
    using Suc.IH [of acc] step by (simp split: option.split sum.split prod.split)
qed

lemma parsePEM_loop_fuel:
  assumes "pem_consumes lib" and "length data < n" and "length data < m"
  shows "parsePEM_loop lib n [] data = parsePEM_loop lib m [] data"
  using assms(2,3)
proof (induction n arbitrary: m data)
  case 0
  then show ?case by simp
next
  case (Suc n)
  obtain m' where m: "m = Suc m'" using Suc.prems(2) by (cases m) auto
  show ?case
  proof (cases "bytes_from pemBegin data")
    case None
    then show ?thesis by (simp add: m)
  next
    case (Some d)
    show ?thesis
    proof (cases "pem_Decode lib d")
      case None
      have *: "length (drop 27 d) < n" "length (drop 27 d) < m'"
        using bytes_from_drop [OF Some] Suc.prems m by linarith+
      show ?thesis using Suc.IH [OF *] None Some m by simp
    next
      case dec: (Some br)
      obtain block rest where br: "br = (block, rest)" by (cases br)
      have "length rest < length d"
        using assms(1) dec br by (auto simp: pem_consumes_def)
      then have *: "length rest < n" "length rest < m'"
        using bytes_from_length [OF Some] Suc.prems m by linarith+
      show ?thesis
        using Some dec br m Suc.IH [OF *] parsePEM_loop_acc [of lib n "[c]" rest for c]
          parsePEM_loop_acc [of lib m' "[c]" rest for c]
        by (simp split: sum.split)
    qed
  qed
qed

definition pem_certificate :: "x509_lib \<Rightarrow> pem_block \<Rightarrow> x509_cert list" where
  "pem_certificate lib block =
     (if pem_Type block \<noteq> ''CERTIFICATE'' then []
      else (case ParseCertificate lib (pem_Bytes block) of Inl e \<Rightarrow> [] | Inr c \<Rightarrow> [c]))"

text \<open>
  C34: the PEM loop terminates for every \<^verbatim>\<open>pem.Decode\<close> that consumes what it decodes, and
  reports exactly the parseable CERTIFICATE blocks behind the begin markers, in order: a marker
  without a block is skipped, a block of another type or an unparseable one is passed over.
\<close>

theorem parsePEM_unfold:
  assumes "pem_consumes lib"
  shows "parsePEM lib data =
    (case bytes_from pemBegin data of
       None \<Rightarrow> []
     | Some marked \<Rightarrow>
        (case pem_Decode lib marked of
           None \<Rightarrow> parsePEM lib (drop (length pemBegin) marked)
         | Some (block, rest) \<Rightarrow> pem_certificate lib block @ parsePEM lib rest))"
proof (cases "bytes_from pemBegin data")
  case None
  then show ?thesis by (simp add: parsePEM_def)
next
  case (Some d)
  have fuel: "parsePEM_loop lib (length data) [] r = parsePEM lib r" if "length r < length data" for r
    unfolding parsePEM_def by (rule parsePEM_loop_fuel [OF assms]) (use that in simp_all)
  show ?thesis
  proof (cases "pem_Decode lib d")
    case None
    with Some fuel [OF bytes_from_drop [OF Some]] show ?thesis by (simp add: parsePEM_def)
  next
    case dec: (Some br)
    obtain block rest where br: "br = (block, rest)" by (cases br)
    have "length rest < length data"
      using assms dec br bytes_from_length [OF Some] by (fastforce simp: pem_consumes_def)
    from fuel [OF this] show ?thesis
      using Some dec br parsePEM_loop_acc [of lib "length data" "[c]" rest for c]
      by (simp add: parsePEM_def pem_certificate_def split: sum.split)
  qed
qed

lemma sample_pem_consumes: "pem_consumes sample_pem_lib"
proof -
  have "length (dropWhile P xs) \<le> length xs" for P and xs :: bytes
    by (rule length_dropWhile_le)
  then have "length (tl (dropWhile P (drop 27 d))) < length d" if "27 < length d" for P and d :: bytes
    using that by (metis diff_le_self diff_less le_less_trans length_drop length_tl less_trans
        not_less_iff_gr_or_eq zero_less_numeral le_trans)
  then show ?thesis
    by (auto simp: pem_consumes_def sample_pem_lib_def sample_pem_Decode_def split: if_splits)
qed

text \<open>Two blocks behind leading text.\<close>

lemma parsePEM_unfold_witness:
  "pem_consumes sample_pem_lib \<and>
   parsePEM sample_pem_lib ([1, 2] @ pemBegin @ [7, 8, 10] @ pemBegin @ [9, 10]) =
     [sample_cert [7, 8], sample_cert [9]]"
proof -
  have lib: "pem_Decode sample_pem_lib = sample_pem_Decode"
    "ParseCertificate sample_pem_lib = sample_ParseCertificate"
    by (simp_all add: sample_pem_lib_def)
  show ?thesis
    using sample_pem_consumes
    by (simp add: parsePEM_unfold [OF sample_pem_consumes] lib pemBegin_def bytes_of_string_def
        byte_of_char_def sample_pem_Decode_def pem_certificate_def sample_ParseCertificate_def)
qed

section \<open>Key usages\<close>

lemma keyUsage_bit: "(usage AND 2 ^ k \<noteq> 0) = bit usage k" if "k < 64" for usage :: "64 word"
  using that by (simp add: and_exp_eq_0_iff_not_bit)

lemma keyUsageNames_bits:
  "keyUsageNames = map (\<lambda>(k, name). (2 ^ k, name)) (zip [0..<9] (map snd keyUsageNames))"
  by (simp add: keyUsageNames_def upt_rec)

lemma formatKeyUsage_bits:
  "formatKeyUsage usage = map snd (filter (\<lambda>(k, name). bit usage k) (zip [0..<9] (map snd keyUsageNames)))"
proof -
  have "filter (\<lambda>(value, name). usage AND value \<noteq> 0) (map (\<lambda>(k, name). (2 ^ k, name)) ks) =
      map (\<lambda>(k, name). (2 ^ k, name)) (filter (\<lambda>(k, name). bit usage k) ks)"
    if "\<forall>(k, name)\<in>set ks. k < 64" for ks :: "(nat \<times> string) list"
    using that
  proof (induction ks)
    case (Cons x ks)
    then show ?case using keyUsage_bit [of "fst x" usage] by (cases x) (auto simp del: and_exp_eq_0_iff_not_bit)
  qed simp
  moreover have "\<forall>(k, name)\<in>set (zip [0..<9] (map snd keyUsageNames)). k < 64"
    by (auto dest!: set_zip_leftD)
  ultimately show ?thesis
    unfolding formatKeyUsage_def by (subst keyUsageNames_bits) (simp add: case_prod_unfold comp_def)
qed

lemma nth_mem_filter_zip:
  assumes "distinct xs" and "length xs = n" and "k < n"
  shows "xs ! k \<in> set (map snd (filter (\<lambda>(k, x). P k) (zip [0..<n] xs))) \<longleftrightarrow> P k"
  using assms by (auto simp: set_zip nth_eq_iff_index_eq image_iff)

text \<open>
  The printed key usages are exactly the nine defined bits of the certificate's usage: two
  certificates print the same list if and only if these bits agree, and higher bits are never
  printed.
\<close>

theorem formatKeyUsage_eq_iff:
  "formatKeyUsage u = formatKeyUsage v \<longleftrightarrow> take_bit 9 u = take_bit 9 v"
proof
  assume "take_bit 9 u = take_bit 9 v"
  then have "bit u k = bit v k" if "k < 9" for k
    using that by (metis bit_take_bit_iff)
  then show "formatKeyUsage u = formatKeyUsage v"
    unfolding formatKeyUsage_bits by (intro arg_cong [of _ _ "map snd"] filter_cong) (auto dest: set_zip_leftD)
next
  assume eq: "formatKeyUsage u = formatKeyUsage v"
  have names: "map snd keyUsageNames ! k \<in> set (formatKeyUsage w) \<longleftrightarrow> bit w k" if "k < 9" for k w
    unfolding formatKeyUsage_bits
    by (rule nth_mem_filter_zip) (simp_all add: keyUsageNames_def that)
  with eq have "bit u k = bit v k" if "k < 9" for k
    using that by metis
  then show "take_bit 9 u = take_bit 9 v"
    by (intro bit_word_eqI) (auto simp: bit_take_bit_iff)
qed

end
