(* ===== verification/GoFs.thy ===== *)
theory GoFs
  imports GoPath Types
begin

text \<open>
  What the scanner uses of Go's \<^verbatim>\<open>os\<close> and \<^verbatim>\<open>path/filepath\<close> on directories: the queries of the
  file system are the record \<open>fs_lib\<close>, an argument of the definitions that ask it;
  \<^verbatim>\<open>filepath.Rel\<close> and \<^verbatim>\<open>filepath.WalkDir\<close> are translated from the library.
\<close>

section \<open>The file system\<close>

text \<open>
  The type bits of a file mode, and a \<^verbatim>\<open>FileInfo\<close>: its mode and the device number in the
  \<^verbatim>\<open>syscall.Stat_t\<close> behind it, if there is one.
\<close>

datatype file_mode = ModeRegular | ModeDir | ModeSymlink | ModeOther

record file_info =
  fi_Mode :: file_mode
  fi_Dev :: "int option"

record dir_entry =
  de_Name :: string
  de_Type :: file_mode
  de_Info :: "file_info go_result"

definition de_IsDir :: "dir_entry \<Rightarrow> bool" where
  "de_IsDir entry \<longleftrightarrow> de_Type entry = ModeDir"

record fs_lib =
  os_ReadDir :: "string \<Rightarrow> dir_entry list go_result"
  os_Stat :: "string \<Rightarrow> file_info go_result"
  os_Lstat :: "string \<Rightarrow> file_info go_result"
  filepath_EvalSymlinks :: "string \<Rightarrow> string go_result"
  filepath_Abs :: "string \<Rightarrow> string go_result"

text \<open>\<^verbatim>\<open>fs.FileInfoToDirEntry\<close> of the root of a walk.\<close>

definition root_entry :: "string \<Rightarrow> file_info \<Rightarrow> dir_entry" where
  "root_entry path info = \<lparr>de_Name = path_Base path, de_Type = fi_Mode info, de_Info = Inr info\<rparr>"

section \<open>filepath.Rel\<close>

text \<open>The elements of a cleaned path; the one of a rooted path begin with an empty one.\<close>

definition path_elements :: "string \<Rightarrow> string list" where
  "path_elements p = (if p = [] then [] else if p = ''/'' then [[]] else split_on slash p)"

fun drop_common :: "string list \<Rightarrow> string list \<Rightarrow> string list \<times> string list" where
  "drop_common (b # bs) (t # ts) = (if b = t then drop_common bs ts else (b # bs, t # ts))"
| "drop_common bs ts = (bs, ts)"

definition filepath_Rel :: "string \<Rightarrow> string \<Rightarrow> string go_result" where
  "filepath_Rel basePath targPath =
     (let base = path_Clean basePath; targ = path_Clean targPath;
          failed = Inl (Errorf ''Rel: can't make %s relative to %s'' [AStr targPath, AStr basePath])
      in if base = targ then Inr ''.''
         else
           let base = (if base = ''.'' then [] else base) in
           if path_IsAbs base \<noteq> path_IsAbs targ then failed
           else
             let (bs, ts) = drop_common (path_elements base) (path_elements targ) in
             if bs \<noteq> [] \<and> hd bs = ''..'' \<and> ts \<noteq> [] then failed
             else Inr (strings_Join (replicate (length bs) ''..'' @ ts) ''/''))"

section \<open>filepath.WalkDir\<close>

text \<open>
  What the walk calls its function with: an entry, or an error and the entry it is about, which is
  missing when the root cannot be inspected. When a directory cannot be read the entries that
  were read before the error are not visited, because the function skips the directory.
\<close>

datatype visit = Visit dir_entry | VisitFailed "dir_entry option" go_error

definition SkipDir :: go_error where
  "SkipDir = ErrSentinel ''skip this directory''"

definition SkipAll :: go_error where
  "SkipAll = ErrSentinel ''skip everything and stop the walk''"

text \<open>
  \<^verbatim>\<open>walkDir\<close> with at most \<open>fuel\<close> nested directories; the state \<open>'s\<close> is what the function
  changes. \<open>None\<close> tells that the fuel ran out.
\<close>

fun walk_children ::
  "(string \<Rightarrow> dir_entry \<Rightarrow> 's \<Rightarrow> (go_error option \<times> 's) option) \<Rightarrow> string \<Rightarrow> dir_entry list \<Rightarrow> 's \<Rightarrow>
     (go_error option \<times> 's) option" where
  "walk_children walk path [] st = Some (None, st)"
| "walk_children walk path (d # ds) st =
     (case walk (path_Join path (de_Name d)) d st of
        None \<Rightarrow> None
      | Some (None, st) \<Rightarrow> walk_children walk path ds st
      | Some (Some err, st) \<Rightarrow> Some (if err = SkipDir then None else Some err, st))"

fun walkDir ::
  "fs_lib \<Rightarrow> (string \<Rightarrow> visit \<Rightarrow> 's \<Rightarrow> go_error option \<times> 's) \<Rightarrow> nat \<Rightarrow> string \<Rightarrow> dir_entry \<Rightarrow> 's \<Rightarrow>
     (go_error option \<times> 's) option" where
  "walkDir fs walkDirFn 0 path d st = None"
| "walkDir fs walkDirFn (Suc fuel) path d st =
     (let skipped = (\<lambda>err. if err = Some SkipDir \<and> de_IsDir d then None else err) in
      case walkDirFn path (Visit d) st of
        (Some err, st) \<Rightarrow> Some (skipped (Some err), st)
      | (None, st) \<Rightarrow>
          if \<not> de_IsDir d then Some (None, st)
          else (case os_ReadDir fs path of
              Inl err \<Rightarrow> (case walkDirFn path (VisitFailed (Some d) err) st of (err, st) \<Rightarrow> Some (skipped err, st))
            | Inr dirs \<Rightarrow> walk_children (walkDir fs walkDirFn fuel) path dirs st))"

definition WalkDir ::
  "fs_lib \<Rightarrow> nat \<Rightarrow> string \<Rightarrow> (string \<Rightarrow> visit \<Rightarrow> 's \<Rightarrow> go_error option \<times> 's) \<Rightarrow> 's \<Rightarrow>
     (go_error option \<times> 's) option" where
  "WalkDir fs fuel root fn st =
     (let ended = (\<lambda>err. if err = Some SkipDir \<or> err = Some SkipAll then None else err) in
      case os_Lstat fs root of
        Inl err \<Rightarrow> (case fn root (VisitFailed None err) st of (err, st) \<Rightarrow> Some (ended err, st))
      | Inr info \<Rightarrow> map_option (\<lambda>(err, st). (ended err, st)) (walkDir fs fn fuel root (root_entry root info) st))"

end
