(* ===== verification/GoPathFacts.thy ===== *)
theory GoPathFacts
  imports GoFs
begin

text \<open>
  The algebra of clean paths: cleaning keeps the components of a path, joining a name appends it, and
  the path of a file relative to a directory above it is made of the names between them.
\<close>

text \<open>A name as a directory lists it.\<close>

definition proper_name :: "string \<Rightarrow> bool" where
  "proper_name n \<longleftrightarrow> n \<noteq> [] \<and> n \<noteq> ''.'' \<and> n \<noteq> ''..'' \<and> slash \<notin> set n"

definition rooted :: "string \<Rightarrow> bool" where
  "rooted p \<longleftrightarrow> strings_HasPrefix p ''/''"

definition components :: "string \<Rightarrow> string list" where
  "components p = rev (clean_components (rooted p) [] (split_on slash p))"

definition render :: "bool \<Rightarrow> string list \<Rightarrow> string" where
  "render r cs = (if r then ''/'' @ strings_Join cs ''/'' else if cs = [] then ''.'' else strings_Join cs ''/'')"

lemma path_Clean_render: "path_Clean p = render (rooted p) (components p)"
  by (simp add: path_Clean_def render_def components_def rooted_def Let_def)

section \<open>Splitting\<close>

lemma split_on_sep [simp]: "split_on c (u @ c # v) = split_on c u @ split_on c v"
  by (induction u) (auto split: list.split)

lemma split_on_word: "c \<notin> set w \<Longrightarrow> split_on c w = [w]"
  by (induction w) auto

lemma split_on_Join:
  "cs \<noteq> [] \<Longrightarrow> \<forall>c\<in>set cs. slash \<notin> set c \<Longrightarrow> split_on slash (strings_Join cs ''/'') = cs"
  by (induction cs "''/''" rule: strings_Join.induct) (simp_all add: split_on_word)

lemma strings_Join_snoc: "strings_Join (cs @ [n]) ''/'' = (if cs = [] then n else strings_Join cs ''/'' @ slash # n)"
  by (induction cs "''/''" rule: strings_Join.induct) auto

section \<open>Components\<close>

lemma clean_components_append:
  "clean_components r out (xs @ ys) = clean_components r (clean_components r out xs) ys"
  by (induction r out xs rule: clean_components.induct) (auto split: list.split)

lemma clean_components_name [simp]: "proper_name n \<Longrightarrow> clean_components r out [n] = n # out"
  by (simp add: proper_name_def)

lemma components_clean: "clean_stack (rooted p) (rev (components p))"
  unfolding components_def rev_rev_ident
  by (rule clean_stack_components) (auto dest: split_on_no_sep)

text \<open>Cleaning clean components changes nothing.\<close>

lemma clean_stack_Cons_iff:
  "clean_stack r (c # out) \<longleftrightarrow>
     c \<noteq> [] \<and> c \<noteq> ''.'' \<and> slash \<notin> set c \<and> clean_stack r out \<and> (c = ''..'' \<longrightarrow> \<not> r \<and> set out \<subseteq> {''..''})"
  by (auto simp: clean_stack_def dest: set_dropWhileD)

lemma clean_components_clean: "clean_stack r (rev cs) \<Longrightarrow> clean_components r [] cs = rev cs"
proof (induction cs rule: rev_induct)
  case (snoc c cs)
  then have out: "clean_stack r (rev cs)" "clean_components r [] cs = rev cs" and c: "c \<noteq> []" "c \<noteq> ''.''"
    and up: "c = ''..'' \<longrightarrow> \<not> r \<and> set cs \<subseteq> {''..''}"
    by (auto simp: clean_stack_Cons_iff)
  have step: "clean_components r [] (cs @ [c]) = clean_components r (rev cs) [c]"
    by (simp only: clean_components_append out)
  show ?case
  proof (cases "c = ''..''")
    case True
    have "d = ''..''" if "rev cs = d # ds" for d ds
      using that up True set_rev [of cs] by auto
    with True up show ?thesis unfolding step by (cases "rev cs") simp_all
  qed (use c in \<open>simp add: step\<close>)
qed simp

lemma components_render:
  assumes "clean_stack r (rev cs)"
  shows "rooted (render r cs) = r \<and> components (render r cs) = cs"
proof -
  have words: "\<forall>c\<in>set cs. slash \<notin> set c" and ne: "\<forall>c\<in>set cs. c \<noteq> []"
    using assms by (auto simp: clean_stack_def)
  have first: "strings_Join cs ''/'' \<noteq> [] \<and> hd (strings_Join cs ''/'') \<noteq> slash" if "cs \<noteq> []"
  proof -
    obtain c ds where cs: "cs = c # ds" using \<open>cs \<noteq> []\<close> by (cases cs) auto
    then obtain x w where "c = x # w" "x \<noteq> slash" using words ne by (cases c) auto
    then show ?thesis using cs by (cases ds) auto
  qed
  have r: "rooted (render r cs) = r"
  proof (cases "r \<or> cs = []")
    case False
    with first show ?thesis
      by (cases "strings_Join cs ''/''") (auto simp: rooted_def render_def strings_HasPrefix_def)
  qed (auto simp: rooted_def render_def strings_HasPrefix_def)
  have "clean_components r [] (split_on slash (render r cs)) = clean_components r [] cs"
    using split_on_Join [OF _ words] by (cases "cs = []") (auto simp: render_def)
  with r clean_components_clean [OF assms] show ?thesis by (simp add: components_def)
qed

lemma path_Clean_idem [simp]: "path_Clean (path_Clean p) = path_Clean p"
  using components_render [OF components_clean [of p]] by (simp add: path_Clean_render)

lemma clean_stack_names:
  "clean_stack r (rev cs) \<Longrightarrow> list_all proper_name names \<Longrightarrow> clean_stack r (rev (cs @ names))"
  by (induction names rule: rev_induct) (auto simp: clean_stack_Cons_iff proper_name_def)

section \<open>Joining\<close>

lemma path_Join_name:
  assumes "proper_name n"
  shows "path_Join d n = render (rooted d) (components d @ [n])"
proof (cases "d = []")
  case True
  have "split_on slash n = [n]" using assms by (simp add: proper_name_def split_on_word)
  moreover have "\<not> rooted n" using assms by (cases n) (auto simp: proper_name_def rooted_def strings_HasPrefix_def)
  moreover have "path_Join d n = path_Clean n" using True assms by (simp add: path_Join_def proper_name_def)
  moreover have "components [] = []" "\<not> rooted []" by (simp_all add: components_def rooted_def strings_HasPrefix_def)
  ultimately show ?thesis
    using True clean_components_name [OF assms, of False "[]"]
    by (simp add: path_Clean_render components_def del: clean_components.simps)
next
  case False
  then have "rooted (d @ ''/'' @ n) = rooted d" by (cases d) (auto simp: rooted_def strings_HasPrefix_def)
  moreover have "split_on slash (d @ slash # n) = split_on slash d @ [n]"
    using assms by (simp add: proper_name_def split_on_word)
  ultimately show ?thesis using assms False
    by (simp add: path_Join_def path_Clean_render components_def clean_components_append proper_name_def)
qed

lemma fold_Join:
  assumes "list_all proper_name names" and "names \<noteq> []"
  shows "fold (\<lambda>n d. path_Join d n) names d = render (rooted d) (components d @ names)"
  using assms
proof (induction names rule: rev_induct)
  case (snoc n names)
  show ?case
  proof (cases "names = []")
    case False
    with snoc have "fold (\<lambda>n d. path_Join d n) names d = render (rooted d) (components d @ names)" by simp
    with components_render [OF clean_stack_names [OF components_clean, of names]] snoc.prems show ?thesis
      by (simp add: path_Join_name)
  qed (use snoc.prems in \<open>simp add: path_Join_name\<close>)
qed simp

lemma clean_stack_proper: "list_all proper_name names \<Longrightarrow> clean_stack r (rev names)"
  using clean_stack_names [of r "[]" names] by simp

lemma clean_components_names: "list_all proper_name names \<Longrightarrow> clean_components r out names = rev names @ out"
  by (induction names arbitrary: out) (auto simp: proper_name_def)

lemma Join_names:
  assumes "list_all proper_name names" and "names \<noteq> []"
  shows "\<not> rooted (strings_Join names ''/'')" and "components (strings_Join names ''/'') = names"
    and "split_on slash (strings_Join names ''/'') = names" and "strings_Join names ''/'' \<noteq> []"
proof -
  have J: "render False names = strings_Join names ''/''" using assms(2) by (simp add: render_def)
  note R = components_render [OF clean_stack_proper [OF assms(1)], of False, unfolded J]
  then show "\<not> rooted (strings_Join names ''/'')" "components (strings_Join names ''/'') = names" by simp_all
  show "split_on slash (strings_Join names ''/'') = names"
    using assms by (intro split_on_Join) (auto simp: list_all_iff proper_name_def)
  have "components [] = []" by (simp add: components_def)
  with R assms(2) show "strings_Join names ''/'' \<noteq> []" by force
qed

lemma path_Join_names:
  assumes "list_all proper_name names" and "names \<noteq> []"
  shows "path_Join d (strings_Join names ''/'') = render (rooted d) (components d @ names)"
proof (cases "d = []")
  case True
  have "components [] = []" "\<not> rooted []" by (simp_all add: components_def rooted_def strings_HasPrefix_def)
  with True Join_names [OF assms] show ?thesis by (simp add: path_Join_def path_Clean_render)
next
  case False
  then have "rooted (d @ ''/'' @ x) = rooted d" for x by (cases d) (auto simp: rooted_def strings_HasPrefix_def)
  with False Join_names [OF assms] assms(1) show ?thesis
    by (simp add: path_Join_def path_Clean_render components_def clean_components_append clean_components_names)
qed

section \<open>Relative paths\<close>

lemma drop_common_append: "drop_common xs (xs @ ys) = ([], ys)"
  by (induction xs) (cases ys, simp_all)

lemma render_dot:
  assumes "clean_stack r (rev cs)"
  shows "render r cs = ''.'' \<longleftrightarrow> \<not> r \<and> cs = []"
proof -
  have "components ''.'' = []" "\<not> rooted ''.''" by (simp_all add: components_def rooted_def strings_HasPrefix_def)
  with components_render [OF assms] show ?thesis by (auto simp: render_def)
qed

lemma path_elements_render:
  assumes "clean_stack r (rev cs)"
  shows "path_elements (if render r cs = ''.'' then [] else render r cs) = (if r then [[]] else []) @ cs"
proof (cases "cs = []")
  case True
  then show ?thesis by (simp add: path_elements_def render_def)
next
  case False
  have "split_on slash (strings_Join cs ''/'') = cs"
    using assms False by (intro split_on_Join) (auto simp: clean_stack_def)
  moreover have "strings_Join cs ''/'' \<noteq> []"
    using assms False by (cases cs) (auto simp: clean_stack_def neq_Nil_conv intro: list.exhaust [of "tl cs"])
  moreover have "strings_Join cs ''/'' \<noteq> ''/''"
    using calculation(1) assms by (auto simp: clean_stack_def)
  ultimately show ?thesis
    using False render_dot [OF assms] by (auto simp: path_elements_def render_def)
qed

lemma path_IsAbs_render:
  assumes "clean_stack r (rev cs)"
  shows "path_IsAbs (if render r cs = ''.'' then [] else render r cs) = r"
  using components_render [OF assms] render_dot [OF assms]
  by (auto simp: path_IsAbs_def rooted_def [symmetric]) (simp add: rooted_def strings_HasPrefix_def)

lemma filepath_Rel_below:
  assumes "list_all proper_name names" and "names \<noteq> []"
  shows "filepath_Rel d (fold (\<lambda>n d. path_Join d n) names d) = Inr (strings_Join names ''/'')"
proof -
  let ?r = "rooted d" and ?cs = "components d"
  note base = components_clean [of d]
  note targ = clean_stack_names [OF base assms(1)]
  have t: "path_Clean (render ?r (?cs @ names)) = render ?r (?cs @ names)"
    using components_render [OF targ] by (simp add: path_Clean_render)
  have "components (render ?r ?cs) \<noteq> components (render ?r (?cs @ names))"
    using components_render [OF targ] components_render [OF base] assms(2) by simp
  then have ne: "render ?r ?cs \<noteq> render ?r (?cs @ names)" by metis
  have td: "render ?r (?cs @ names) \<noteq> ''.''" using render_dot [OF targ] assms(2) by simp
  have dc: "drop_common ((if ?r then [[]] else []) @ ?cs) ((if ?r then [[]] else []) @ ?cs @ names) = ([], names)"
    using drop_common_append [of "(if ?r then [[]] else []) @ ?cs" names] by simp
  show ?thesis
    unfolding fold_Join [OF assms] filepath_Rel_def t path_Clean_render [of d] Let_def
    using ne td path_elements_render [OF targ] path_IsAbs_render [OF targ] path_elements_render [OF base]
      path_IsAbs_render [OF base] dc
    by simp
qed

end
