(* ===== verification/ArchiveFacts.thy ===== *)
theory ArchiveFacts
  imports ArchiveRead ContentFacts GoPathFacts
begin

unbundle bit_operations_syntax

text \<open>
  Facts about the scan of an archive: what an entry contributes, the limits on bytes, entries and
  depth, and where the findings are located.
\<close>

section \<open>Detection\<close>

definition zip_magic :: "bytes \<Rightarrow> bool" where
  "zip_magic d \<longleftrightarrow> 4 \<le> length d \<and>
     (take 4 d = [0x50, 0x4B, 3, 4] \<or> take 4 d = [0x50, 0x4B, 5, 6] \<or> take 4 d = [0x50, 0x4B, 7, 8])"

definition gzip_magic :: "bytes \<Rightarrow> bool" where
  "gzip_magic d \<longleftrightarrow> 2 \<le> length d \<and> d ! 0 = 0x1F \<and> d ! 1 = 0x8B"

definition tar_magic :: "bytes \<Rightarrow> bool" where
  "tar_magic d \<longleftrightarrow> 263 \<le> length d \<and>
     (take 6 (drop 257 d) = bytes_of_string ''ustar'' @ [0] \<or> take 6 (drop 257 d) = bytes_of_string ''ustar '')"

lemma detectArchiveFormat_magic:
  "detectArchiveFormat d = (if zip_magic d then archiveFormatZIP else if gzip_magic d then archiveFormatGZIP
     else if tar_magic d then archiveFormatTAR else archiveFormatNone)"
  unfolding detectArchiveFormat_def zip_magic_def gzip_magic_def tar_magic_def by (rule if_cong) auto

lemma zip_not_gzip: "gzip_magic d \<Longrightarrow> \<not> zip_magic d"
  by (cases d) (auto simp: zip_magic_def gzip_magic_def)

lemma zip_magic_append: "4 \<le> length p \<Longrightarrow> zip_magic (p @ s) = zip_magic p"
  by (simp add: zip_magic_def)

lemma gzip_magic_append: "2 \<le> length p \<Longrightarrow> gzip_magic (p @ s) = gzip_magic p"
  by (cases p) (auto simp: gzip_magic_def nth_append)

lemma tar_magic_append: "263 \<le> length p \<Longrightarrow> tar_magic (p @ s) = tar_magic p"
  by (simp add: tar_magic_def)

lemma detectArchiveFormat_stable:
  assumes "detectArchiveFormat p \<noteq> archiveFormatNone"
  shows "detectArchiveFormat (p @ s) = detectArchiveFormat p"
proof -
  consider "zip_magic p" | "gzip_magic p" | "tar_magic p" "\<not> zip_magic p" "\<not> gzip_magic p"
    using assms by (auto simp: detectArchiveFormat_magic split: if_splits)
  then show ?thesis
  proof cases
    case 1
    then have "4 \<le> length p" by (simp add: zip_magic_def)
    with 1 show ?thesis by (simp add: detectArchiveFormat_magic zip_magic_append)
  next
    case 2
    then have "2 \<le> length p" by (simp add: gzip_magic_def)
    with 2 show ?thesis
      using zip_not_gzip [of p] zip_not_gzip [of "p @ s"]
      by (simp add: detectArchiveFormat_magic gzip_magic_append)
  next
    case 3
    then have "263 \<le> length p" by (simp add: tar_magic_def)
    with 3 show ?thesis
      by (simp add: detectArchiveFormat_magic zip_magic_append gzip_magic_append tar_magic_append)
  qed
qed

interpretation archive_d: detector "\<lambda>data. detectArchiveFormat data \<noteq> archiveFormatNone"
  by unfold_locales (simp add: detectArchiveFormat_stable)

section \<open>Outcomes\<close>

lemma merge_simps [simp]:
  "oc_certificates (mergeScanOutcomes a b) = oc_certificates a @ oc_certificates b"
  "oc_pkcs12Encrypted (mergeScanOutcomes a b) = oc_pkcs12Encrypted a @ oc_pkcs12Encrypted b"
  "oc_err (mergeScanOutcomes a b) = None \<longleftrightarrow> oc_err a = None \<and> oc_err b = None"
  "oc_capped (mergeScanOutcomes a b) = oc_capped a"
  "oc_scanned (mergeScanOutcomes a b) = oc_scanned a"
  by (auto simp: mergeScanOutcomes_def Let_def split: option.split)

lemma merge_empty_right [simp]: "oc_certificates b = [] \<Longrightarrow> oc_pkcs12Encrypted b = [] \<Longrightarrow> oc_err b = None \<Longrightarrow>
    mergeScanOutcomes a b = a"
  by (simp add: mergeScanOutcomes_def)

text \<open>The error tree of a merged outcome holds the errors of both.\<close>

definition outcome_Is :: "outcome \<Rightarrow> go_error \<Rightarrow> bool" where
  "outcome_Is result target \<longleftrightarrow>
     (case oc_err result of None \<Rightarrow> False | Some e \<Rightarrow> errors_Is (fe_Err e) target)"

lemma limit_reached_Is: "limit_reached result = outcome_Is result errArchiveDecompressedBytes"
  by (simp add: limit_reached_def outcome_Is_def split: option.split)

lemma outcome_Is_merge [simp]:
  "outcome_Is (mergeScanOutcomes a b) (ErrSentinel s) \<longleftrightarrow>
     outcome_Is a (ErrSentinel s) \<or> outcome_Is b (ErrSentinel s)"
  by (auto simp: outcome_Is_def mergeScanOutcomes_def Let_def split: option.split)

lemma outcome_Is_error [simp]:
  "outcome_Is (errorOutcome entries e) (ErrSentinel s) \<longleftrightarrow> errors_Is e (ErrSentinel s)"
  by (simp add: outcome_Is_def errorOutcome_def)

lemma errorOutcome_simps [simp]:
  "oc_certificates (errorOutcome entries e) = []" "oc_pkcs12Encrypted (errorOutcome entries e) = []"
  "oc_err (errorOutcome entries e) \<noteq> None" "\<not> oc_capped (errorOutcome entries e)"
  by (simp_all add: errorOutcome_def)

lemma attach_simps [simp]:
  "oc_certificates (attachArchiveEntries r es) = map (\<lambda>c. c\<lparr>cert_ArchiveEntries := es\<rparr>) (oc_certificates r)"
  "oc_pkcs12Encrypted (attachArchiveEntries r es) = map (\<lambda>e. e\<lparr>enc_ArchiveEntries := es\<rparr>) (oc_pkcs12Encrypted r)"
  "oc_err (attachArchiveEntries r es) = oc_err r" "oc_capped (attachArchiveEntries r es) = oc_capped r"
  by (simp_all add: attachArchiveEntries_def)

section \<open>What an entry contributes\<close>

text \<open>
  The classification of a file or an entry with the bytes \<open>d\<close> under a sniff limit (0 for none):
  what is reported, and whether it was capped.
\<close>

definition recognised :: "x509_lib \<Rightarrow> bytes \<Rightarrow> bool" where
  "recognised lib pre \<longleftrightarrow> detectJavaKeystore pre \<noteq> None \<or> detectPKCS12 pre \<or> parsePEM lib pre \<noteq> []"

definition sniffed :: "x509_lib \<Rightarrow> string \<Rightarrow> int \<Rightarrow> bytes \<Rightarrow> outcome \<times> bool" where
  "sniffed lib path limit d =
     (if limit = 0 \<or> int (length d) \<le> limit \<or> recognised lib (take (nat limit) d)
      then (fst (scanContentData lib path d True), False)
      else (scanOutcome [] [] True None, True))"

lemma partial_scan:
  assumes "scanContentData lib path pre False = (result, needsFullRead)"
  shows "needsFullRead = recognised lib pre"
    and "\<not> recognised lib pre \<Longrightarrow> result = scanOutcome [] [] True None"
  using assms by (auto simp: scanContentData_def recognised_def Let_def split: if_splits)

text \<open>How the code comes to it: the prefix is scanned, and the whole if that asks for it.\<close>

lemma sniffed_code:
  "sniffed lib path limit d =
     (if limit = 0 \<or> int (length d) \<le> limit then (fst (scanContentData lib path d True), False)
      else (case scanContentData lib path (take (nat limit) d) False of
        (result, needsFullRead) \<Rightarrow>
          if needsFullRead then (fst (scanContentData lib path d True), False) else (result, True)))"
  using partial_scan [of lib path "take (nat limit) d"] by (auto simp: sniffed_def split: prod.splits)

text \<open>The bytes of an entry that are read.\<close>

definition sniffed_bytes :: "x509_lib \<Rightarrow> string \<Rightarrow> int \<Rightarrow> bytes \<Rightarrow> int" where
  "sniffed_bytes lib path limit d = (if snd (sniffed lib path limit d) then limit + 1 else int (length d))"

lemma sniffed_bytes_le: "0 \<le> limit \<Longrightarrow> sniffed_bytes lib path limit d \<le> int (length d)"
  by (auto simp: sniffed_bytes_def sniffed_code split: if_splits prod.splits)

lemma sniffed_bytes_nonneg: "0 \<le> limit \<Longrightarrow> 0 \<le> sniffed_bytes lib path limit d"
  by (simp add: sniffed_bytes_def)

text \<open>What the prefix of an entry within the budget is.\<close>

lemma entry_prefix:
  assumes M: "0 \<le> opt_MaxBytes (ae_options env)" "opt_MaxBytes (ae_options env) < 2 ^ 63 - 1"
    and eof: "sm_err reader = io_EOF" and fits: "length (sm_data reader) \<le> budget_left env scanner"
  obtains pre overflow complete scanner' reader' where
    "readPrefix env scanner reader = ((pre, overflow, complete, None), (scanner', reader'))"
    "scanner' = scanner\<lparr>as_bytesRead := as_bytesRead scanner + int (length (pre @ overflow))\<rparr>"
    "budget_content env (scanner, reader) = (sm_data reader, io_EOF)"
    "if opt_MaxBytes (ae_options env) = 0 \<or> int (length (sm_data reader)) \<le> opt_MaxBytes (ae_options env)
     then pre = sm_data reader \<and> overflow = [] \<and> complete
     else pre = take (nat (opt_MaxBytes (ae_options env))) (sm_data reader) \<and>
       overflow = [sm_data reader ! nat (opt_MaxBytes (ae_options env))] \<and> \<not> complete"
proof -
  have c: "budget_content env (scanner, reader) = (sm_data reader, io_EOF)"
    using fits eof by (simp add: budget_content_def)
  obtain pre overflow complete err scanner' reader' where
    p: "readPrefix env scanner reader = ((pre, overflow, complete, err), (scanner', reader'))"
    by (metis prod_cases4 surj_pair)
  have spec: "(pre, overflow, complete, err) =
      prefix_spec (opt_MaxBytes (ae_options env)) (sm_data reader) None (budget_joint env (scanner, reader))"
    using readPrefix_spec [OF c M] p by simp
  have "scanner' = scanner\<lparr>as_bytesRead := as_bytesRead scanner + int (length (pre @ overflow))\<rparr>"
    using readPrefix_bytes [OF p] by (simp add: bytes_read_def)
  with p spec c show thesis by (intro that [of pre overflow complete scanner' reader']) (auto simp: prefix_spec_def split: if_splits)
qed

definition entry_result :: "archive_env \<Rightarrow> archive_scanner \<Rightarrow> bytes \<Rightarrow> string list \<Rightarrow> (outcome \<times> bool) \<times> archive_scanner" where
  "entry_result env scanner d entries =
    (case sniffed (ae_x509 env) (ae_outerPath env) (opt_MaxBytes (ae_options env)) d of
       (result, capped) \<Rightarrow> ((attachArchiveEntries result entries, capped),
         scanner\<lparr>as_bytesRead := as_bytesRead scanner + sniffed_bytes (ae_x509 env) (ae_outerPath env)
           (opt_MaxBytes (ae_options env)) d\<rparr>))"

lemma small_entry_content:
  assumes M: "0 \<le> opt_MaxBytes (ae_options env)" "opt_MaxBytes (ae_options env) < 2 ^ 63 - 1"
    and eof: "sm_err reader = io_EOF" and fits: "length (sm_data reader) \<le> budget_left env scanner"
    and plain: "detectArchiveFormat (sm_data reader) = archiveFormatNone"
    and small: "opt_MaxBytes (ae_options env) = 0 \<or> int (length (sm_data reader)) \<le> opt_MaxBytes (ae_options env)"
  shows "scanEntry env scanner reader entries depth = entry_result env scanner (sm_data reader) entries"
proof -
  obtain pre overflow complete scanner' reader' where
    p: "readPrefix env scanner reader = ((pre, overflow, complete, None), (scanner', reader'))"
    and sc: "scanner' = scanner\<lparr>as_bytesRead := as_bytesRead scanner + int (length (pre @ overflow))\<rparr>"
    and po: "pre = sm_data reader" "overflow = []" "complete"
    by (rule entry_prefix [OF M eof fits]) (use small in simp)
  obtain result full where r: "scanContentData (ae_x509 env) (ae_outerPath env) (sm_data reader) True = (result, full)"
    by (metis surj_pair)
  with content_complete(1) [OF r] small p po sc plain show ?thesis
    by (simp add: scanEntry.simps [of env scanner] Let_def entry_result_def sniffed_code sniffed_bytes_def)
qed

lemma large_entry_content:
  assumes M: "0 \<le> opt_MaxBytes (ae_options env)" "opt_MaxBytes (ae_options env) < 2 ^ 63 - 1"
    and eof: "sm_err reader = io_EOF" and fits: "length (sm_data reader) \<le> budget_left env scanner"
    and plain: "detectArchiveFormat (sm_data reader) = archiveFormatNone"
    and large: "\<not> (opt_MaxBytes (ae_options env) = 0 \<or> int (length (sm_data reader)) \<le> opt_MaxBytes (ae_options env))"
  shows "scanEntry env scanner reader entries depth = entry_result env scanner (sm_data reader) entries"
proof -
  let ?M = "opt_MaxBytes (ae_options env)" and ?d = "sm_data reader"
  obtain pre overflow complete scanner' reader' where
    p: "readPrefix env scanner reader = ((pre, overflow, complete, None), (scanner', reader'))"
    and sc: "scanner' = scanner\<lparr>as_bytesRead := as_bytesRead scanner + int (length (pre @ overflow))\<rparr>"
    and c: "budget_content env (scanner, reader) = (?d, io_EOF)"
    and po: "pre = take (nat ?M) ?d" "overflow = [?d ! nat ?M]" "\<not> complete"
    by (rule entry_prefix [OF M eof fits]) (use large in simp)
  have plain': "detectArchiveFormat (take (nat ?M) ?d) = archiveFormatNone"
    using archive_d.not_detect_take [of ?d "nat ?M"] plain by simp
  have len: "int (length (pre @ overflow)) = ?M + 1" using large M(1) po by auto
  have sniff: "sniffed (ae_x509 env) (ae_outerPath env) ?M ?d =
      (case scanContentData (ae_x509 env) (ae_outerPath env) pre False of (result, needsFullRead) \<Rightarrow>
        if needsFullRead then (fst (scanContentData (ae_x509 env) (ae_outerPath env) ?d True), False)
        else (result, True))"
    using large po by (auto simp: sniffed_code)
  obtain result full where r: "scanContentData (ae_x509 env) (ae_outerPath env) pre False = (result, full)"
    by (metis surj_pair)
  show ?thesis
  proof (cases full)
    case False
    with r p po sc plain' len sniff show ?thesis
      by (simp add: scanEntry.simps [of env scanner] Let_def entry_result_def sniffed_bytes_def)
  next
    case True
    have p': "readPrefix env scanner reader = ((pre, overflow, False, None), (scanner', reader'))"
      using p po by simp
    obtain data e sc2 r2 where f: "readFullEntry env scanner' pre overflow reader' = ((data, e), (sc2, r2))"
      by (metis surj_pair)
    have data: "data = ?d" "e = None"
      using full_entry_read [OF p' M] f c by (simp_all add: read_result_def)
    obtain rest where rest: "data = pre @ overflow @ rest" "bytes_read env scanner' (length rest) sc2"
      by (rule readFullEntry_bytes [OF f])
    then have "sc2 = scanner\<lparr>as_bytesRead := as_bytesRead scanner + int (length ?d)\<rparr>"
      using sc data by (simp add: bytes_read_def)
    with True r p po f data plain' sniff show ?thesis
      by (simp add: scanEntry.simps [of env scanner] Let_def entry_result_def sniffed_bytes_def)
  qed
qed

lemma scanEntry_content:
  assumes M: "0 \<le> opt_MaxBytes (ae_options env)" "opt_MaxBytes (ae_options env) < 2 ^ 63 - 1"
    and eof: "sm_err reader = io_EOF" and fits: "length (sm_data reader) \<le> budget_left env scanner"
    and plain: "detectArchiveFormat (sm_data reader) = archiveFormatNone"
  shows "scanEntry env scanner reader entries depth =
    (case sniffed (ae_x509 env) (ae_outerPath env) (opt_MaxBytes (ae_options env)) (sm_data reader) of
       (result, capped) \<Rightarrow> ((attachArchiveEntries result entries, capped),
         scanner\<lparr>as_bytesRead := as_bytesRead scanner + sniffed_bytes (ae_x509 env) (ae_outerPath env)
           (opt_MaxBytes (ae_options env)) (sm_data reader)\<rparr>))"
  using small_entry_content [OF assms] large_entry_content [OF assms] unfolding entry_result_def by blast

section \<open>Invariants of the scanner\<close>

text \<open>Every nested archive is one level closer to the limit on the depth.\<close>

lemma depth_induct:
  fixes depth :: int
  assumes "\<And>depth. (depth < limit \<Longrightarrow> P (depth + 1)) \<Longrightarrow> P depth"
  shows "P depth"
proof (induction "nat (limit - depth)" arbitrary: depth rule: less_induct)
  case less
  show ?case by (rule assms, rule less) simp
qed

text \<open>
  A property of the scanner's state, for every number of entries that are open, which each
  step keeps: it holds through the scan of a nested archive.
\<close>

locale archive_invariant =
  fixes env :: archive_env
    and I :: "int \<Rightarrow> archive_scanner \<Rightarrow> bool"
  assumes begin_ok: "\<lbrakk>I k sc; beginEntry env sc = (None, sc')\<rbrakk> \<Longrightarrow> I (k + 1) sc'"
    and begin_fail: "\<lbrakk>I k sc; beginEntry env sc = (Some e, sc')\<rbrakk> \<Longrightarrow> I k sc'"
    and finish: "I (k + 1) sc \<Longrightarrow> I k (finishEntry capped sc)"
    and skip: "I (k + 1) sc \<Longrightarrow> I k sc"
    and read: "\<lbrakk>I k sc; bytes_read env sc n sc'\<rbrakk> \<Longrightarrow> I k sc'"
begin

abbreviation entry_keeps :: "int \<Rightarrow> bool" where
  "entry_keeps depth \<equiv> \<forall>sc reader entries. I depth sc \<longrightarrow> I depth (snd (scanEntry env sc reader entries depth))"

lemma entry_step:
  assumes "entry_keeps depth" and "I depth sc" and "scanEntry env sc reader entries depth = (rc, sc')"
  shows "I (depth - 1) (finishEntry capped sc')"
proof -
  have "I depth sc'" using assms by (metis snd_conv)
  with finish [of "depth - 1"] show ?thesis by simp
qed

lemma scanZIP_I:
  assumes "entry_keeps depth"
  shows "I (depth - 1) sc \<Longrightarrow> I (depth - 1) (snd (scanZIP env sc files parents depth result))"
proof (induction files arbitrary: sc result)
  case Nil
  then show ?case by (simp add: scanZIP.simps)
next
  case (Cons f files)
  obtain e1 sc1 where b: "beginEntry env sc = (e1, sc1)" by (metis surj_pair)
  show ?case
  proof (cases e1)
    case (Some x)
    with b Cons.prems show ?thesis by (simp add: scanZIP.simps Let_def begin_fail)
  next
    case None
    have I1: "I depth sc1" using begin_ok [OF Cons.prems(1) b [unfolded None]] by simp
    have I2: "I (depth - 1) sc1" "\<And>cp. I (depth - 1) (finishEntry cp sc1)"
      using I1 skip [of "depth - 1" sc1] finish [of "depth - 1" sc1] by simp_all
    note step = entry_step [OF assms I1]
    show ?thesis
      using b None Cons.IH [OF I2(1)] Cons.IH [OF I2(2)] Cons.IH [OF step] step
      by (simp add: scanZIP.simps Let_def split: sum.split prod.split)
  qed
qed

lemma scanTAR_I:
  assumes "entry_keeps depth"
  shows "I (depth - 1) sc \<Longrightarrow> I (depth - 1) (snd (scanTAR env sc headers err parents depth result))"
proof (induction headers arbitrary: sc result)
  case Nil
  then show ?case by (simp add: scanTAR.simps)
next
  case (Cons h headers)
  obtain e1 sc1 where b: "beginEntry env sc = (e1, sc1)" by (metis surj_pair)
  show ?case
  proof (cases e1)
    case (Some x)
    with b Cons.prems show ?thesis by (simp add: scanTAR.simps Let_def begin_fail)
  next
    case None
    have I1: "I depth sc1" using begin_ok [OF Cons.prems(1) b [unfolded None]] by simp
    have I2: "I (depth - 1) sc1" using I1 skip [of "depth - 1" sc1] by simp
    note step = entry_step [OF assms I1]
    show ?thesis
      using b None Cons.IH [OF I2] Cons.IH [OF step] step
      by (simp add: scanTAR.simps Let_def split: prod.split)
  qed
qed

lemma scanGZIP_I:
  assumes "entry_keeps depth" and "I (depth - 1) sc"
  shows "I (depth - 1) (snd (scanGZIP env sc reader parents depth))"
proof (cases "gzip_NewReader (ae_lib env) reader")
  case (Inl e)
  with assms show ?thesis by (simp add: scanGZIP.simps)
next
  case (Inr gz)
  obtain e1 sc1 where b: "beginEntry env sc = (e1, sc1)" by (metis surj_pair)
  show ?thesis
  proof (cases e1)
    case (Some x)
    with b Inr assms(2) show ?thesis by (simp add: scanGZIP.simps Let_def begin_fail)
  next
    case None
    have I1: "I depth sc1" using begin_ok [OF assms(2) b [unfolded None]] by simp
    show ?thesis
      using b None Inr entry_step [OF assms(1) I1]
      by (simp add: scanGZIP.simps Let_def split: prod.split)
  qed
qed

lemma scanArchiveBytes_I:
  assumes "entry_keeps depth" and "I (depth - 1) sc"
  shows "I (depth - 1) (snd (scanArchiveBytes env sc data format parents depth))"
  using assms(2) scanZIP_I [OF assms] scanTAR_I [OF assms] scanGZIP_I [OF assms]
  by (simp add: scanArchiveBytes.simps split: archiveFormat.split option.split sum.split prod.split)

lemma scanEntry_I: "entry_keeps depth"
proof (induction depth rule: depth_induct [where limit = "opt_ArchiveMaxDepth (ae_options env)"])
  case (1 depth)
  show ?case
  proof (intro allI impI)
    fix sc reader entries
    assume I: "I depth sc"
    obtain pre ov c err sc1 r1 where p: "readPrefix env sc reader = ((pre, ov, c, err), (sc1, r1))"
      by (metis prod_cases4 surj_pair)
    have I1: "I depth sc1" by (rule read [OF I readPrefix_bytes [OF p]])
    obtain data e2 sc2 r2 where f: "readFullEntry env sc1 pre ov r1 = ((data, e2), (sc2, r2))"
      by (metis surj_pair)
    have I2: "I depth sc2" by (rule readFullEntry_bytes [OF f]) (rule read [OF I1])
    have nested: "I depth (snd (scanArchiveBytes env sc' d format entries (depth + 1)))"
      if "I depth sc'" "\<not> opt_ArchiveMaxDepth (ae_options env) \<le> depth" for sc' d format
      using scanArchiveBytes_I [of "depth + 1" sc' d format entries] 1 that by simp
    show "I depth (snd (scanEntry env sc reader entries depth))"
      using p f I1 I2 nested
      by (cases c; cases err; cases e2)
        (simp_all add: scanEntry.simps [of env sc] Let_def case_prod_unfold)
  qed
qed

lemma scanArchiveFile_I:
  assumes "I 0 (new_archiveScanner progress)"
  shows "I 0 (snd (scanArchiveFile env file format progress))"
  using assms scanZIP_I [OF scanEntry_I, of 1] scanTAR_I [OF scanEntry_I, of 1] scanGZIP_I [OF scanEntry_I, of 1]
  by (simp add: scanArchiveFile_def Let_def split: archiveFormat.split option.split sum.split prod.split)

end

section \<open>The limits\<close>

text \<open>
  With \<open>k\<close> entries open: the bytes are within the budget, every entry that was begun is
  reported as discovered, and the scanned ones and the open ones are within the limit.
\<close>

definition within_limits :: "archive_env \<Rightarrow> int \<Rightarrow> archive_scanner \<Rightarrow> bool" where
  "within_limits env k sc \<longleftrightarrow>
     0 \<le> as_bytesRead sc \<and> as_bytesRead sc \<le> opt_ArchiveMaxBytes (ae_options env) \<and>
     (case as_progress sc of None \<Rightarrow> True
      | Some calls \<Rightarrow>
          let discovered = sum_list (map fst calls); scanned = sum_list (map (fst \<circ> snd) calls);
              capped = sum_list (map (snd \<circ> snd) calls)
          in discovered = as_entries sc \<and> 0 \<le> capped \<and> capped \<le> scanned \<and>
             scanned + k \<le> discovered \<and> scanned + k \<le> opt_ArchiveMaxEntries (ae_options env))"

lemma beginEntry_cases:
  assumes "beginEntry env sc = (e, sc')"
  shows "as_bytesRead sc' = as_bytesRead sc" "as_entries sc' = as_entries sc + 1"
    "as_progress sc' = map_option (\<lambda>l. l @ [(1, 0, 0)]) (as_progress sc)"
    "e = None \<longleftrightarrow> as_entries sc + 1 \<le> opt_ArchiveMaxEntries (ae_options env)"
  using assms by (auto simp: beginEntry_def report_progress_def Let_def split: if_splits)

lemma finishEntry_simps [simp]:
  "as_bytesRead (finishEntry c sc) = as_bytesRead sc" "as_entries (finishEntry c sc) = as_entries sc"
  "as_progress (finishEntry c sc) = map_option (\<lambda>l. l @ [(0, 1, if c then 1 else 0)]) (as_progress sc)"
  by (simp_all add: finishEntry_def report_progress_def)

interpretation limits: archive_invariant env "within_limits env" for env
proof
  fix k :: int and sc sc' :: archive_scanner
  assume "within_limits env k sc" "beginEntry env sc = (None, sc')"
  then show "within_limits env (k + 1) sc'"
    using beginEntry_cases [of env sc None sc']
    by (auto simp: within_limits_def Let_def split: option.splits)
next
  fix k :: int and sc sc' :: archive_scanner and e
  assume "within_limits env k sc" "beginEntry env sc = (Some e, sc')"
  then show "within_limits env k sc'"
    using beginEntry_cases [of env sc "Some e" sc']
    by (auto simp: within_limits_def Let_def split: option.splits)
qed (auto simp: within_limits_def bytes_read_def Let_def split: option.splits)

text \<open>
  C10: whatever an archive contains and however deep it is nested, the bytes decompressed for it stay
  within ArchiveMaxBytes, at most ArchiveMaxEntries entries are scanned, every entry begun
  is reported as discovered, and no more entries are reported as scanned than discovered or
  as capped than scanned.
\<close>

theorem archive_within_limits:
  assumes "0 \<le> opt_ArchiveMaxBytes (ae_options env)" and "0 \<le> opt_ArchiveMaxEntries (ae_options env)"
  shows "within_limits env 0 (snd (scanArchiveFile env file format progress))"
  by (rule limits.scanArchiveFile_I)
    (use assms in \<open>simp add: within_limits_def new_archiveScanner_def Let_def\<close>)

lemma length_appendArchiveEntry [simp]: "length (appendArchiveEntry parents name) = Suc (length parents)"
  by (simp add: appendArchiveEntry_def Let_def)

section \<open>Where the findings are\<close>

text \<open>
  A property of outcomes, for the entries that lead to an archive, which the outcome of a
  single entry has and which merging keeps.
\<close>

locale archive_outcomes =
  fixes env :: archive_env
    and Q :: "string list \<Rightarrow> outcome \<Rightarrow> bool"
  assumes content: "\<lbrakk>int (length entries) \<le> opt_ArchiveMaxDepth (ae_options env);
      entries = appendArchiveEntry parents name\<rbrakk> \<Longrightarrow>
      Q entries (attachArchiveEntries (fst (scanContentData (ae_x509 env) (ae_outerPath env) data complete)) entries)"
    and error: "Q entries (errorOutcome entries e)"
    and empty: "Q entries empty_outcome"
    and merge: "\<lbrakk>Q entries a; Q entries b\<rbrakk> \<Longrightarrow> Q entries (mergeScanOutcomes a b)"
    and outer: "Q (appendArchiveEntry parents name) a \<Longrightarrow> Q parents a"
begin

abbreviation entry_good :: "int \<Rightarrow> bool" where
  "entry_good depth \<equiv> \<forall>sc reader parents name.
     depth = int (length parents) + 1 \<longrightarrow> depth \<le> opt_ArchiveMaxDepth (ae_options env) \<longrightarrow>
     Q (appendArchiveEntry parents name)
       (fst (fst (scanEntry env sc reader (appendArchiveEntry parents name) depth)))"

lemma scanZIP_Q:
  assumes "entry_good depth" and "depth = int (length parents) + 1"
    and "depth \<le> opt_ArchiveMaxDepth (ae_options env)"
  shows "Q parents result \<Longrightarrow> Q parents (fst (scanZIP env sc files parents depth result))"
proof (induction files arbitrary: sc result)
  case Nil
  then show ?case by (simp add: scanZIP.simps)
next
  case (Cons f files)
  obtain e1 sc1 where b: "beginEntry env sc = (e1, sc1)" by (metis surj_pair)
  let ?es = "appendArchiveEntry parents (ze_Name f)"
  have err: "Q parents (errorOutcome ?es e)" for e by (rule outer [OF error])
  have good: "Q ?es r" if "scanEntry env sc' content ?es depth = ((r, cp), sc'')" for sc' content r cp sc''
    using assms that by (metis fst_conv)
  have closed: "Q parents (mergeScanOutcomes result (mergeScanOutcomes r (errorOutcome ?es e)))"
    "Q parents (mergeScanOutcomes result r)" if "Q ?es r" for r e
    by (auto intro!: merge Cons.prems outer [OF that] outer [OF merge [OF that error]])
  show ?case
    using b Cons.IH [OF Cons.prems] Cons.IH [OF merge [OF Cons.prems err]] merge [OF Cons.prems err]
      closed [OF good] Cons.IH [OF closed(1) [OF good]] Cons.IH [OF closed(2) [OF good]]
    by (simp add: scanZIP.simps Let_def split: option.split sum.split prod.split)
qed

lemma scanTAR_Q:
  assumes "entry_good depth" and "depth = int (length parents) + 1"
    and "depth \<le> opt_ArchiveMaxDepth (ae_options env)"
  shows "Q parents result \<Longrightarrow> Q parents (fst (scanTAR env sc headers err parents depth result))"
proof (induction headers arbitrary: sc result)
  case Nil
  then show ?case by (simp add: scanTAR.simps merge error)
next
  case (Cons h headers)
  obtain e1 sc1 where b: "beginEntry env sc = (e1, sc1)" by (metis surj_pair)
  let ?es = "appendArchiveEntry parents (te_Name h)"
  have err: "Q parents (errorOutcome ?es e)" for e by (rule outer [OF error])
  have good: "Q parents (mergeScanOutcomes result r)"
    if "scanEntry env sc' content ?es depth = ((r, cp), sc'')" for sc' content r cp sc''
    using assms that by (metis fst_conv merge Cons.prems outer)
  show ?case
    using b Cons.IH [OF Cons.prems] merge [OF Cons.prems err] good Cons.IH [OF good]
    by (simp add: scanTAR.simps Let_def split: option.split prod.split)
qed

lemma scanGZIP_Q:
  assumes "entry_good depth" and "depth = int (length parents) + 1"
    and "depth \<le> opt_ArchiveMaxDepth (ae_options env)"
  shows "Q parents (fst (scanGZIP env sc reader parents depth))"
proof (cases "gzip_NewReader (ae_lib env) reader")
  case (Inl e)
  then show ?thesis by (simp add: scanGZIP.simps error)
next
  case (Inr gz)
  obtain e1 sc1 where b: "beginEntry env sc = (e1, sc1)" by (metis surj_pair)
  define name where "name = (if gz_Name gz = [] then defaultGZIPEntryName (ae_outerPath env) parents else gz_Name gz)"
  let ?es = "appendArchiveEntry parents name"
  have err: "Q parents (errorOutcome ?es e)" for e by (rule outer [OF error])
  have good: "Q parents r" "Q parents (mergeScanOutcomes r (errorOutcome ?es e))"
    if "scanEntry env sc' content ?es depth = ((r, cp), sc'')" for sc' content r cp sc'' e
  proof -
    have "Q ?es r" using assms that by (metis fst_conv)
    then show "Q parents r" "Q parents (mergeScanOutcomes r (errorOutcome ?es e))"
      using outer merge error by blast+
  qed
  show ?thesis
    using b Inr err
    by (auto simp: scanGZIP.simps Let_def name_def [symmetric] intro: good split: option.split prod.split)
qed

lemma scanArchiveBytes_Q:
  assumes "entry_good depth" and "depth = int (length parents) + 1"
    and "depth \<le> opt_ArchiveMaxDepth (ae_options env)"
  shows "Q parents (fst (scanArchiveBytes env sc data format parents depth))"
  using scanZIP_Q [OF assms empty] scanTAR_Q [OF assms empty] scanGZIP_Q [OF assms] error
  by (simp add: scanArchiveBytes.simps split: archiveFormat.split option.split sum.split prod.split)

lemma scanEntry_Q: "entry_good depth"
proof (induction depth rule: depth_induct [where limit = "opt_ArchiveMaxDepth (ae_options env)"])
  case (1 depth)
  show ?case
  proof (intro allI impI)
    fix sc reader and parents :: "string list" and name
    assume d: "depth = int (length parents) + 1" "depth \<le> opt_ArchiveMaxDepth (ae_options env)"
    let ?es = "appendArchiveEntry parents name"
    have len: "int (length ?es) \<le> opt_ArchiveMaxDepth (ae_options env)" using d by simp
    have good: "Q ?es (attachArchiveEntries (fst (scanContentData (ae_x509 env) (ae_outerPath env) data complete)) ?es)"
      "Q ?es (mergeScanOutcomes (attachArchiveEntries (fst (scanContentData (ae_x509 env) (ae_outerPath env) data complete)) ?es)
        (errorOutcome ?es e))" for data complete e
      using content [OF len refl] merge error by blast+
    have nested: "Q ?es (fst (scanArchiveBytes env sc' data format ?es (depth + 1)))"
      if "\<not> opt_ArchiveMaxDepth (ae_options env) \<le> depth" for sc' data format
      by (rule scanArchiveBytes_Q [OF 1]) (use d that in simp_all)
    show "Q ?es (fst (fst (scanEntry env sc reader ?es depth)))"
      using good nested error
      by (simp add: scanEntry.simps [of env sc] Let_def case_prod_unfold split: option.split)
  qed
qed

lemma scanArchiveFile_Q:
  assumes "1 \<le> opt_ArchiveMaxDepth (ae_options env)" and "\<And>e. Q [] (scanOutcome [] [] False (Some e))"
  shows "Q [] (fst (scanArchiveFile env file format progress))"
  using assms(2) scanZIP_Q [OF scanEntry_Q _ assms(1) empty, of "[]"]
    scanTAR_Q [OF scanEntry_Q _ assms(1) empty, of "[]"] scanGZIP_Q [OF scanEntry_Q _ assms(1), of "[]"]
  by (simp add: scanArchiveFile_def Let_def split: archiveFormat.split option.split sum.split prod.split)

end

text \<open>The name of an entry in a finding: a clean path, not the empty one.\<close>

definition entry_name :: "string \<Rightarrow> bool" where
  "entry_name name \<longleftrightarrow> path_Clean name = name \<and> name \<noteq> ''.''"

definition located :: "archive_env \<Rightarrow> string list \<Rightarrow> string \<times> string list \<Rightarrow> bool" where
  "located env parents finding \<longleftrightarrow>
     (case finding of (path, entries) \<Rightarrow>
        path = ae_outerPath env \<and> prefix parents entries \<and> entries \<noteq> [] \<and>
        int (length entries) \<le> opt_ArchiveMaxDepth (ae_options env) \<and>
        list_all entry_name (drop (length parents) entries))"

definition findings_located :: "archive_env \<Rightarrow> string list \<Rightarrow> outcome \<Rightarrow> bool" where
  "findings_located env parents result \<longleftrightarrow>
     list_all (\<lambda>c. located env parents (cert_Path c, cert_ArchiveEntries c)) (oc_certificates result) \<and>
     list_all (\<lambda>e. located env parents (enc_Path e, enc_ArchiveEntries e)) (oc_pkcs12Encrypted result)"

lemma appendArchiveEntry_name:
  obtains n where "appendArchiveEntry parents name = parents @ [n]" "entry_name n"
proof -
  have "path_Clean ''(unnamed)'' = ''(unnamed)''" by code_simp
  then have "entry_name (if path_Clean name = ''.'' \<or> path_Clean name = [] then ''(unnamed)'' else path_Clean name)"
    by (simp add: entry_name_def)
  then show thesis by (rule that [rotated]) (simp add: appendArchiveEntry_def Let_def)
qed

lemma located_outer:
  assumes "located env (appendArchiveEntry parents name) f"
  shows "located env parents f"
proof -
  obtain n where n: "appendArchiveEntry parents name = parents @ [n]" "entry_name n"
    by (rule appendArchiveEntry_name)
  from assms n show ?thesis
    by (auto simp: located_def prefix_def split: prod.splits)
qed

lemma located_here:
  assumes "int (length (appendArchiveEntry parents name)) \<le> opt_ArchiveMaxDepth (ae_options env)"
  shows "located env (appendArchiveEntry parents name) (ae_outerPath env, appendArchiveEntry parents name)"
proof -
  obtain n where "appendArchiveEntry parents name = parents @ [n]"
    by (rule appendArchiveEntry_name)
  with assms show ?thesis by (simp add: located_def)
qed

interpretation located_o: archive_outcomes env "findings_located env" for env
proof
  fix entries parents :: "string list" and name data complete
  assume es: "int (length entries) \<le> opt_ArchiveMaxDepth (ae_options env)"
    "entries = appendArchiveEntry parents name"
  let ?r = "fst (scanContentData (ae_x509 env) (ae_outerPath env) data complete)"
  have "numbered (ae_outerPath env) 0 (oc_certificates ?r)"
    "list_all (\<lambda>e. enc_Path e = ae_outerPath env) (oc_pkcs12Encrypted ?r)"
    by (rule scan_numbered)+
  with located_here [of parents name env] es
  show "findings_located env entries (attachArchiveEntries ?r entries)"
    by (auto simp: findings_located_def list_all_iff numbered_def)
qed (auto simp: findings_located_def list_all_iff intro: located_outer)

text \<open>
  C20: every finding in an archive carries the path of the outer file and the names of the entries
  that lead to it, each a clean path (cleaning it again changes nothing) other than the
  empty path; the chain is at least one entry long and
  never longer than ArchiveMaxDepth.
\<close>

theorem archive_findings_located:
  assumes "1 \<le> opt_ArchiveMaxDepth (ae_options env)"
  shows "findings_located env [] (fst (scanArchiveFile env file format progress))"
  by (rule located_o.scanArchiveFile_Q [OF assms]) (simp add: findings_located_def)

end
