(* ===== verification/ArchiveScan.thy ===== *)
theory ArchiveScan
  imports ArchiveFacts
begin

unbundle bit_operations_syntax

text \<open>
  The scan of an archive as a whole: an archive of plain entries is scanned as if each entry were
  a file of its own, and an entry beyond the byte limit ends the scan with an error. Then the
  concrete archives on which the properties of the archive theories are evaluated.
\<close>

section \<open>An archive of plain entries\<close>

definition entry_bytes :: "zip_entry \<Rightarrow> bytes" where
  "entry_bytes entry = (case ze_Open entry of Inl e \<Rightarrow> [] | Inr content \<Rightarrow> sm_data content)"

text \<open>A regular entry that can be read to its end and is no archive itself.\<close>

definition plain_entry :: "zip_entry \<Rightarrow> bool" where
  "plain_entry entry \<longleftrightarrow>
     \<not> ze_IsDir entry \<and> ze_IsRegular entry \<and> ze_Flags entry AND 1 = 0 \<and> ze_Close entry = None \<and>
     (case ze_Open entry of Inl e \<Rightarrow> False | Inr content \<Rightarrow> sm_err content = io_EOF) \<and>
     detectArchiveFormat (entry_bytes entry) = archiveFormatNone"

text \<open>What a file with the bytes of the entry would yield, with the entry attached to it.\<close>

definition entry_outcome :: "archive_env \<Rightarrow> string list \<Rightarrow> zip_entry \<Rightarrow> outcome" where
  "entry_outcome env parents entry =
     attachArchiveEntries
       (fst (sniffed (ae_x509 env) (ae_outerPath env) (opt_MaxBytes (ae_options env)) (entry_bytes entry)))
       (appendArchiveEntry parents (ze_Name entry))"

definition sniff_limit_ok :: "archive_env \<Rightarrow> bool" where
  "sniff_limit_ok env \<longleftrightarrow> 0 \<le> opt_MaxBytes (ae_options env) \<and> opt_MaxBytes (ae_options env) < 2 ^ 63 - 1"

lemma plain_entryE:
  assumes "plain_entry entry"
  obtains content where "ze_Open entry = Inr content" "sm_err content = io_EOF"
    "entry_bytes entry = sm_data content" "detectArchiveFormat (sm_data content) = archiveFormatNone"
  using assms by (auto simp: plain_entry_def entry_bytes_def split: sum.splits)

lemma scanZIP_plain:
  assumes "sniff_limit_ok env"
  shows "list_all plain_entry files \<Longrightarrow>
    list_all (\<lambda>f. \<not> limit_reached (entry_outcome env parents f)) files \<Longrightarrow>
    as_bytesRead sc + int (sum_list (map (length \<circ> entry_bytes) files)) \<le> opt_ArchiveMaxBytes (ae_options env) \<Longrightarrow>
    as_entries sc + int (length files) \<le> opt_ArchiveMaxEntries (ae_options env) \<Longrightarrow>
    fst (scanZIP env sc files parents depth result) =
      foldl mergeScanOutcomes result (map (entry_outcome env parents) files)"
proof (induction files arbitrary: sc result)
  case Nil
  then show ?case by (simp add: scanZIP.simps)
next
  case (Cons f files)
  from Cons.prems(1) have plain: "plain_entry f" by simp
  then obtain content where f: "ze_Open f = Inr content" "sm_err content = io_EOF"
    "entry_bytes f = sm_data content" "detectArchiveFormat (sm_data content) = archiveFormatNone"
    by (rule plain_entryE)
  have limit: "0 \<le> opt_MaxBytes (ae_options env)" "opt_MaxBytes (ae_options env) < 2 ^ 63 - 1"
    using assms by (simp_all add: sniff_limit_ok_def)
  obtain e1 sc1 where b: "beginEntry env sc = (e1, sc1)" by (metis surj_pair)
  note b_facts = beginEntry_cases [OF b]
  have e1: "e1 = None" using b_facts(4) Cons.prems(4) by simp
  have fits: "length (sm_data content) \<le> budget_left env sc1"
    using Cons.prems(3) f(3) by (simp add: budget_left_def b_facts(1))
  obtain r cp where sniff: "sniffed (ae_x509 env) (ae_outerPath env) (opt_MaxBytes (ae_options env)) (sm_data content) =
      (r, cp)" by (metis surj_pair)
  define used where "used = sniffed_bytes (ae_x509 env) (ae_outerPath env) (opt_MaxBytes (ae_options env)) (sm_data content)"
  define sc2 where "sc2 = finishEntry cp (sc1\<lparr>as_bytesRead := as_bytesRead sc1 + used\<rparr>)"
  have out: "entry_outcome env parents f = attachArchiveEntries r (appendArchiveEntry parents (ze_Name f))"
    by (simp add: entry_outcome_def f(3) sniff)
  have scan: "scanEntry env sc1 content (appendArchiveEntry parents (ze_Name f)) depth =
      ((entry_outcome env parents f, cp), sc1\<lparr>as_bytesRead := as_bytesRead sc1 + used\<rparr>)"
    using scanEntry_content [OF limit f(2) fits f(4)] sniff by (simp add: out used_def)
  have "used \<le> int (length (sm_data content))"
    unfolding used_def by (rule sniffed_bytes_le) (rule limit(1))
  then have room: "as_bytesRead sc2 + int (sum_list (map (length \<circ> entry_bytes) files)) \<le> opt_ArchiveMaxBytes (ae_options env)"
    "as_entries sc2 + int (length files) \<le> opt_ArchiveMaxEntries (ae_options env)"
    using Cons.prems(3,4) f(3) by (simp_all add: sc2_def b_facts(1,2) comp_def)
  have flags: "\<not> ze_IsDir f" "ze_IsRegular f" "ze_Flags f AND 1 = 0" "ze_Close f = None"
    using plain by (simp_all add: plain_entry_def)
  have "scanZIP env sc (f # files) parents depth result =
      scanZIP env sc2 files parents depth (mergeScanOutcomes result (entry_outcome env parents f))"
    using b e1 f(1) scan flags Cons.prems(2) by (simp add: scanZIP.simps Let_def sc2_def)
  with Cons.IH [OF _ _ room] Cons.prems(1,2) show ?case by simp
qed

text \<open>
  C9: a ZIP archive of plain entries within the limits yields exactly what its entries would yield
  as files of their own, in order: the same findings, the same errors, each with the path of
  the archive and the name of the entry.
\<close>

theorem zip_scanned_like_files:
  assumes "sniff_limit_ok env" and "list_all plain_entry files"
    and "list_all (\<lambda>f. \<not> limit_reached (entry_outcome env [] f)) files"
    and "int (sum_list (map (length \<circ> entry_bytes) files)) \<le> opt_ArchiveMaxBytes (ae_options env)"
    and "int (length files) \<le> opt_ArchiveMaxEntries (ae_options env)"
  shows "fst (scanZIP env (new_archiveScanner progress) files [] 1 empty_outcome) =
    foldl mergeScanOutcomes empty_outcome (map (entry_outcome env []) files)"
  by (rule scanZIP_plain) (use assms in \<open>simp_all add: new_archiveScanner_def\<close>)

section \<open>An entry beyond the byte limit\<close>

lemma errors_Is_byteLimitError: "errors_Is (byteLimitError env) errArchiveDecompressedBytes"
  by (simp add: byteLimitError_def errArchiveDecompressedBytes_def)

lemma io_EOF_not_limit: "byteLimitError env \<noteq> io_EOF"
  by (simp add: byteLimitError_def io_EOF_def)

text \<open>
  What makes the scanner read all of an entry: there is no sniff limit, or the entry is recognised by
  its first bytes, as an archive that may still be opened or as something to be parsed.
\<close>

definition read_whole :: "archive_env \<Rightarrow> int \<Rightarrow> bytes \<Rightarrow> bool" where
  "read_whole env depth d \<longleftrightarrow>
     (let limit = opt_MaxBytes (ae_options env); pre = take (nat limit) d in
      limit = 0 \<or>
      (if detectArchiveFormat pre \<noteq> archiveFormatNone then depth < opt_ArchiveMaxDepth (ae_options env)
       else recognised (ae_x509 env) pre))"

text \<open>How much of the budget an entry needs: all its bytes, or those sniffed and one more.\<close>

definition beyond_budget :: "archive_env \<Rightarrow> archive_scanner \<Rightarrow> int \<Rightarrow> bytes \<Rightarrow> bool" where
  "beyond_budget env sc depth d \<longleftrightarrow>
     budget_left env sc < length d \<and>
     (read_whole env depth d \<or> int (budget_left env sc) \<le> opt_MaxBytes (ae_options env))"

lemma errorOutcome_limit: "limit_reached (mergeScanOutcomes r (errorOutcome entries (byteLimitError env)))"
  "limit_reached (errorOutcome entries (byteLimitError env))"
  by (simp_all add: limit_reached_Is errArchiveDecompressedBytes_def
      errors_Is_byteLimitError [unfolded errArchiveDecompressedBytes_def])

lemma budget_content_beyond:
  "budget_left env sc < length (sm_data content) \<Longrightarrow>
     budget_content env (sc, content) = (take (budget_left env sc) (sm_data content), byteLimitError env)"
  by (simp add: budget_content_def)

lemma scanEntry_prefix_fails:
  assumes M: "sniff_limit_ok env"
    and "opt_MaxBytes (ae_options env) = 0 \<or> int (budget_left env sc) \<le> opt_MaxBytes (ae_options env)"
    and "budget_left env sc < length (sm_data content)"
  shows "limit_reached (fst (fst (scanEntry env sc content entries depth)))"
proof -
  obtain pre ov complete err st where
    p: "readPrefix env sc content = ((pre, ov, complete, err), st)"
    by (metis prod_cases4 surj_pair)
  have "fst (readPrefix env sc content) = prefix_spec (opt_MaxBytes (ae_options env))
      (take (budget_left env sc) (sm_data content)) (Some (byteLimitError env)) (budget_joint env (sc, content))"
    using readPrefix_spec [OF budget_content_beyond [OF assms(3)]] M io_EOF_not_limit [of env]
    by (auto simp: sniff_limit_ok_def)
  then have "err = Some (byteLimitError env)"
    using p assms by (auto simp: prefix_spec_def)
  with p show ?thesis
    by (cases st) (simp add: scanEntry.simps [of env sc] Let_def errorOutcome_limit)
qed

lemma scanEntry_rest_fails:
  assumes M: "sniff_limit_ok env" and whole: "read_whole env depth (sm_data content)"
    and sniffed: "0 < opt_MaxBytes (ae_options env)" "opt_MaxBytes (ae_options env) < int (budget_left env sc)"
    and beyond: "budget_left env sc < length (sm_data content)"
  shows "limit_reached (fst (fst (scanEntry env sc content entries depth)))"
proof -
  let ?M = "opt_MaxBytes (ae_options env)"
  note c = budget_content_beyond [OF beyond]
  obtain pre ov complete err sc1 r1 where
    p: "readPrefix env sc content = ((pre, ov, complete, err), (sc1, r1))"
    by (metis prod_cases4 surj_pair)
  have "fst (readPrefix env sc content) =
      (take (nat ?M) (take (budget_left env sc) (sm_data content)),
       [take (budget_left env sc) (sm_data content) ! nat ?M], False, None) \<or>
    err = Some (byteLimitError env)"
    using readPrefix_spec [OF c] M io_EOF_not_limit [of env] sniffed beyond p
    by (auto simp: sniff_limit_ok_def prefix_spec_def split: if_splits)
  then show ?thesis
  proof
    assume "err = Some (byteLimitError env)"
    with p show ?thesis by (simp add: scanEntry.simps [of env sc] Let_def errorOutcome_limit)
  next
    assume "fst (readPrefix env sc content) =
      (take (nat ?M) (take (budget_left env sc) (sm_data content)),
       [take (budget_left env sc) (sm_data content) ! nat ?M], False, None)"
    with p sniffed beyond have pre: "pre = take (nat ?M) (sm_data content)" "\<not> complete" "err = None"
      by (auto simp: min_def)
    obtain data e sc2 r2 where f: "readFullEntry env sc1 pre ov r1 = ((data, e), (sc2, r2))"
      by (metis surj_pair)
    have p': "readPrefix env sc content = ((pre, ov, False, None), (sc1, r1))" using p pre by simp
    have e: "e = Some (byteLimitError env)"
      using full_entry_read [OF p'] M f c io_EOF_not_limit [of env] by (auto simp: sniff_limit_ok_def read_result_def)
    obtain r needs where s: "scanContentData (ae_x509 env) (ae_outerPath env) pre False = (r, needs)"
      by (metis surj_pair)
    show ?thesis
      using p' f e s whole partial_scan(1) [OF s] sniffed pre(1)
      by (auto simp: scanEntry.simps [of env sc] read_whole_def Let_def errorOutcome_limit split: if_splits)
  qed
qed

lemma scanEntry_beyond:
  assumes "sniff_limit_ok env" and "beyond_budget env sc depth (sm_data content)"
  shows "limit_reached (fst (fst (scanEntry env sc content entries depth)))"
proof (cases "opt_MaxBytes (ae_options env) = 0 \<or> int (budget_left env sc) \<le> opt_MaxBytes (ae_options env)")
  case True
  with assms show ?thesis by (auto simp: beyond_budget_def intro: scanEntry_prefix_fails)
next
  case False
  with assms show ?thesis
    by (intro scanEntry_rest_fails) (auto simp: beyond_budget_def sniff_limit_ok_def)
qed

text \<open>
  C36: an entry that needs more than the bytes left of the budget ends the scan of its archive: the
  limit is among the errors of the outcome, and the entries behind it are not looked at. An
  entry needs all its bytes without a sniff limit, or when its first bytes are recognised
  (as an archive that is not nested too deeply, a keystore, a PKCS#12 store or a PEM
  certificate), else those it is sniffed by.
\<close>

theorem byte_limit_ends_scan:
  assumes "sniff_limit_ok env" and "beginEntry env sc = (None, sc1)" and "ze_IsRegular entry" and "\<not> ze_IsDir entry"
    and "ze_Flags entry AND 1 = 0" and "ze_Open entry = Inr content"
    and "beyond_budget env sc1 depth (sm_data content)"
  shows "limit_reached (fst (scanZIP env sc (entry # files) parents depth result)) \<and>
    scanZIP env sc (entry # files) parents depth result = scanZIP env sc [entry] parents depth result"
proof -
  obtain r cp sc2 where s: "scanEntry env sc1 content (appendArchiveEntry parents (ze_Name entry)) depth = ((r, cp), sc2)"
    by (metis surj_pair)
  define r' where "r' = (case ze_Close entry of None \<Rightarrow> r
    | Some e \<Rightarrow> mergeScanOutcomes r (errorOutcome (appendArchiveEntry parents (ze_Name entry))
        (Wrapf ''close ZIP entry: %w'' [] e)))"
  have "limit_reached r"
    using scanEntry_beyond [OF assms(1,7), of "appendArchiveEntry parents (ze_Name entry)"] s by simp
  then have "limit_reached r'" "limit_reached (mergeScanOutcomes result r')"
    by (auto simp: r'_def limit_reached_Is errArchiveDecompressedBytes_def split: option.split)
  moreover have "scanZIP env sc (entry # fs) parents depth result =
      (if limit_reached r' then (mergeScanOutcomes result r', finishEntry cp sc2)
       else scanZIP env (finishEntry cp sc2) fs parents depth (mergeScanOutcomes result r'))" for fs
    using assms(2-6) s by (simp add: scanZIP.simps Let_def r'_def)
  ultimately show ?thesis by simp
qed

section \<open>Concrete archives\<close>

text \<open>
  Readers on which the witnesses evaluate the properties: no ZIP entries, one TAR entry behind a
  header of 512 bytes, and a gzip stream stored behind 10 bytes.
\<close>

definition sample_archive_lib :: archive_lib where
  "sample_archive_lib = \<lparr>zip_NewReader = (\<lambda>_ _. Inr []),
     tar_NewReader = (\<lambda>s. ([\<lparr>te_Name = ''a.crt'', te_IsRegular = True,
       te_content = stream_of (drop 512 (sm_data s))\<rparr>], io_EOF)),
     gzip_NewReader = (\<lambda>s. Inr \<lparr>gz_Name = [], gz_content = stream_of (drop 10 (sm_data s)), gz_Close = None\<rparr>),
     ReadAll_room = (\<lambda>_. 511)\<rparr>"

definition sample_options :: "int \<Rightarrow> options" where
  "sample_options limit = \<lparr>opt_MaxBytes = limit, opt_Workers = 1, opt_Exclude = [], opt_Extensions = [],
     opt_OneFileSystem = False, opt_FollowSymlinks = False, opt_ScanArchives = True,
     opt_ArchiveMaxBytes = 20, opt_ArchiveMaxEntries = 10, opt_ArchiveMaxDepth = 3,
     opt_DiscardCertificates = False, opt_DiscardPKCS12Encrypted = False\<rparr>"

definition sample_env :: "int \<Rightarrow> archive_env" where
  "sample_env limit = \<lparr>ae_lib = sample_archive_lib, ae_x509 = sample_lib, ae_outerPath = ''a.zip'',
     ae_options = sample_options limit\<rparr>"

lemma sample_env_simps [simp]:
  "ae_lib (sample_env limit) = sample_archive_lib" "ae_x509 (sample_env limit) = sample_lib"
  "ae_outerPath (sample_env limit) = ''a.zip''" "ae_options (sample_env limit) = sample_options limit"
  by (simp_all add: sample_env_def)

lemma sample_options_simps [simp]:
  "opt_MaxBytes (sample_options limit) = limit" "opt_ArchiveMaxBytes (sample_options limit) = 20"
  "opt_ArchiveMaxEntries (sample_options limit) = 10" "opt_ArchiveMaxDepth (sample_options limit) = 3"
  "opt_ScanArchives (sample_options limit)"
  by (simp_all add: sample_options_def)

text \<open>Seven bytes that come in pieces of one, two and up to five bytes.\<close>

definition sample_stream :: stream where
  "sample_stream = \<lparr>sm_data = [1, 2, 3, 4, 5, 6, 7], sm_err = io_EOF, sm_joint = True, sm_chunks = [0, 1, 4]\<rparr>"

definition sample_zip_entry :: "string \<Rightarrow> bytes \<Rightarrow> zip_entry" where
  "sample_zip_entry name data = \<lparr>ze_Name = name, ze_IsDir = False, ze_IsRegular = True, ze_Flags = 0,
     ze_Open = Inr (stream_of data), ze_Close = None\<rparr>"

definition sample_file :: "bytes \<Rightarrow> os_file" where
  "sample_file data = \<lparr>of_stream = stream_of data, of_Seek = Inr (stream_of data),
     of_Stat = Inr (int (length data)), of_ReadAt = bytes_ReadAt data\<rparr>"

abbreviation sample_scanner :: archive_scanner where
  "sample_scanner \<equiv> new_archiveScanner True"

lemma sample_budget_content:
  "budget_content (sample_env 3) (sample_scanner, sample_stream) = ([1, 2, 3, 4, 5, 6, 7], io_EOF)"
  by (simp add: budget_content_def budget_left_def new_archiveScanner_def sample_stream_def)

lemma readPrefix_spec_witness:
  "fst (readPrefix (sample_env 3) sample_scanner sample_stream) = ([1, 2, 3], [4], False, None)"
  using readPrefix_spec [OF sample_budget_content] by (simp add: prefix_spec_def)

lemma sample_prefix: "\<exists>st. readPrefix (sample_env 3) sample_scanner sample_stream = (([1, 2, 3], [4], False, None), st)"
  by (auto simp: readPrefix_def sample_archive_lib_def sample_stream_def new_archiveScanner_def
      limit_Read_def budget_Read_def stream_Read_def)

lemma entry_read_in_full_witness:
  "\<exists>scanner reader. readPrefix (sample_env 3) sample_scanner sample_stream =
     (([1, 2, 3], [4], False, None), (scanner, reader)) \<and>
     (case readFullEntry (sample_env 3) scanner [1, 2, 3] [4] reader of (result, scanner2, reader2) \<Rightarrow>
       result = ([1, 2, 3, 4, 5, 6, 7], None) \<and> as_bytesRead scanner2 = 7)"
proof -
  obtain scanner reader where p: "readPrefix (sample_env 3) sample_scanner sample_stream =
      (([1, 2, 3], [4], False, None), (scanner, reader))"
    using sample_prefix by auto
  have "as_bytesRead sample_scanner = 0" by (simp add: new_archiveScanner_def)
  with p entry_read_in_full [OF p] sample_budget_content show ?thesis
    by (auto simp: read_result_def)
qed

text \<open>A gzip file with a certificate, within the limits and located.\<close>

definition sample_gzip :: bytes where
  "sample_gzip = [0x1F, 0x8B, 8, 0, 0, 0, 0, 0, 0, 0, 1, 2, 3]"

lemma archive_within_limits_witness:
  "within_limits (sample_env 0) 0
     (snd (scanArchiveFile (sample_env 0) (sample_file sample_gzip) archiveFormatGZIP True)) \<and>
   as_bytesRead (snd (scanArchiveFile (sample_env 0) (sample_file sample_gzip) archiveFormatGZIP True)) = 3"
  using archive_within_limits [of "sample_env 0" "sample_file sample_gzip" archiveFormatGZIP True]
  by (simp, code_simp)

lemma archive_findings_located_witness:
  "findings_located (sample_env 0) []
     (fst (scanArchiveFile (sample_env 0) (sample_file sample_gzip) archiveFormatGZIP True)) \<and>
   map cert_ArchiveEntries (oc_certificates
     (fst (scanArchiveFile (sample_env 0) (sample_file sample_gzip) archiveFormatGZIP True))) = [[''a.zip'']]"
  using archive_findings_located [of "sample_env 0" "sample_file sample_gzip" archiveFormatGZIP True]
  by (simp, code_simp)

lemma sample_sniffed:
  assumes "d \<in> {[1, 2], [3]}"
  shows "sniffed sample_lib ''a.zip'' 0 d =
    (scanOutcome [describe sample_lib ''a.zip'' 0 (sample_cert d)] [] False None, False)"
proof -
  have "detectJavaKeystore d = None \<and> \<not> detectPKCS12 d \<and> parsePEM sample_lib d = []"
    using assms by (elim insertE emptyE) (simp_all, code_simp+)
  moreover have "ParseCertificates sample_lib d = Inr [sample_cert d]"
    using assms by (auto simp: sample_lib_def sample_ParseCertificate_def)
  ultimately show ?thesis by (simp add: sniffed_def scanContentData_def Let_def)
qed

lemma zip_scanned_like_files_witness:
  "map cert_ArchiveEntries (oc_certificates (fst (scanZIP (sample_env 0) sample_scanner
     [sample_zip_entry ''a'' [1, 2], sample_zip_entry ''./b'' [3]] [] 1 empty_outcome))) = [[''a''], [''b'']]"
proof -
  let ?files = "[sample_zip_entry ''a'' [1, 2], sample_zip_entry ''./b'' [3]]"
  have names: "appendArchiveEntry [] ''a'' = [''a'']" "appendArchiveEntry [] ''./b'' = [''b'']"
    by code_simp+
  have "sniff_limit_ok (sample_env 0)" by (simp add: sniff_limit_ok_def)
  moreover have "list_all plain_entry ?files" by code_simp
  moreover have "list_all (\<lambda>f. \<not> limit_reached (entry_outcome (sample_env 0) [] f)) ?files"
    by (simp add: entry_outcome_def sample_sniffed entry_bytes_def sample_zip_entry_def stream_of_def limit_reached_def)
  moreover have "int (sum_list (map (length \<circ> entry_bytes) ?files)) \<le> opt_ArchiveMaxBytes (ae_options (sample_env 0))"
    by code_simp
  moreover have "int (length ?files) \<le> opt_ArchiveMaxEntries (ae_options (sample_env 0))" by simp
  ultimately have "fst (scanZIP (sample_env 0) sample_scanner ?files [] 1 empty_outcome) =
      foldl mergeScanOutcomes empty_outcome (map (entry_outcome (sample_env 0) []) ?files)"
    by (rule zip_scanned_like_files)
  moreover have "map cert_ArchiveEntries (oc_certificates (foldl mergeScanOutcomes empty_outcome
      (map (entry_outcome (sample_env 0) []) ?files))) = [[''a''], [''b'']]"
    using names by (simp add: entry_outcome_def sample_sniffed entry_bytes_def sample_zip_entry_def stream_of_def)
  ultimately show ?thesis by (simp only:)
qed

text \<open>
  A sniff limit of four bytes, a budget of twenty, and a keystore of twenty-one: it is recognised and
  read on, which ends the scan.
\<close>

lemma byte_limit_ends_scan_witness:
  "limit_reached (fst (scanZIP (sample_env 4) sample_scanner
     [sample_zip_entry ''a'' ([0xFE, 0xED, 0xFE, 0xED] @ replicate 17 0), sample_zip_entry ''b'' [3]] [] 1 empty_outcome))"
proof -
  let ?d = "[0xFE, 0xED, 0xFE, 0xED] @ replicate 17 (0 :: byte)"
  obtain sc where b: "beginEntry (sample_env 4) sample_scanner = (None, sc)" "as_bytesRead sc = 0"
    by (simp add: beginEntry_def Let_def report_progress_def new_archiveScanner_def)
  have "recognised sample_lib [0xFE, 0xED, 0xFE, 0xED]"
    "detectArchiveFormat [0xFE, 0xED, 0xFE, 0xED] = archiveFormatNone" by code_simp+
  then have "beyond_budget (sample_env 4) sc 1 ?d"
    by (simp add: beyond_budget_def read_whole_def budget_left_def b(2))
  then have "limit_reached (fst (scanZIP (sample_env 4) sample_scanner
      (sample_zip_entry ''a'' ?d # [sample_zip_entry ''b'' [3]]) [] 1 empty_outcome))"
    by (intro byte_limit_ends_scan [OF _ b(1), THEN conjunct1, of _ "stream_of ?d"])
      (simp_all add: sniff_limit_ok_def sample_zip_entry_def stream_of_def)
  then show ?thesis .
qed

end
