(* ===== verification/ScanFile.thy ===== *)
theory ScanFile
  imports ArchiveScan
begin

text \<open>
  The scan of one file (\<^verbatim>\<open>scanFileContentsWithOptions\<close>, scanner.go): the sniff limit, the
  choice between archive and content, and the second read. The result of \<^verbatim>\<open>os.Open\<close> is an
  argument; the file is the record \<open>os_file\<close>.
\<close>

section \<open>The file\<close>

text \<open>
  The read of the first bytes, and the probe for a byte behind them. One call of \<^verbatim>\<open>Read\<close> more
  than bytes in the file is enough for \<^verbatim>\<open>io.ReadAll\<close>.
\<close>

definition sniff_file :: "archive_env \<Rightarrow> stream \<Rightarrow> (bytes \<times> go_error option) \<times> stream" where
  "sniff_file env stream =
     (let MaxBytes = opt_MaxBytes (ae_options env);
          room = ReadAll_room (ae_lib env); fuel = Suc (length (sm_data stream))
      in if MaxBytes > 0 then
           (case io_ReadAll (limit_Read stream_Read) room fuel [] (MaxBytes, stream) of
              (result, (_, stream)) \<Rightarrow> (result, stream))
         else io_ReadAll stream_Read room fuel [] stream)"

definition file_complete :: "archive_env \<Rightarrow> bytes \<Rightarrow> stream \<Rightarrow> bool go_result" where
  "file_complete env data stream =
     (if opt_MaxBytes (ae_options env) > 0 \<and> int (length data) = opt_MaxBytes (ae_options env) then
        (case stream_Read 1 stream of ((_, err), _) \<Rightarrow>
           (case err of None \<Rightarrow> Inr False
            | Some e \<Rightarrow> if \<not> errors_Is e io_EOF then Inl e else Inr True))
      else Inr True)"

definition progress_calls :: "archive_scanner \<Rightarrow> (int \<times> int \<times> int) list" where
  "progress_calls scanner = (case as_progress scanner of None \<Rightarrow> [] | Some calls \<Rightarrow> calls)"

text \<open>The outcome, and the calls of the progress callback the scan of an archive makes.\<close>

definition scanFileContentsWithOptions ::
  "archive_env \<Rightarrow> os_file go_result \<Rightarrow> bool \<Rightarrow> outcome \<times> (int \<times> int \<times> int) list" where
  "scanFileContentsWithOptions env opened archiveProgress =
     (let failed = (\<lambda>err. (scanOutcome [] [] False (Some err), [])) in
      case opened of
        Inl err \<Rightarrow> failed err
      | Inr file \<Rightarrow>
          (case sniff_file env (of_stream file) of
             ((data, Some err), _) \<Rightarrow> failed err
           | ((data, None), rest) \<Rightarrow>
              (case file_complete env data rest of
                 Inl err \<Rightarrow> failed err
               | Inr complete \<Rightarrow>
                  let format = detectArchiveFormat data in
                  if opt_ScanArchives (ae_options env) \<and> format \<noteq> archiveFormatNone then
                    (case of_Seek file of
                       Inl err \<Rightarrow> failed err
                     | Inr stream \<Rightarrow>
                         (case scanArchiveFile env (file\<lparr>of_stream := stream\<rparr>) format archiveProgress of
                            (result, scanner) \<Rightarrow> (result, progress_calls scanner)))
                  else
                    (case scanContentData (ae_x509 env) (ae_outerPath env) data complete of
                       (result, needsFullRead) \<Rightarrow>
                         if needsFullRead then
                           (case of_Seek file of
                              Inl err \<Rightarrow> failed err
                            | Inr stream \<Rightarrow>
                                (case io_ReadAll stream_Read (ReadAll_room (ae_lib env))
                                    (Suc (length (sm_data stream))) [] stream of
                                   ((data, Some err), _) \<Rightarrow> failed err
                                 | ((data, None), _) \<Rightarrow>
                                    ((fst (scanContentData (ae_x509 env) (ae_outerPath env) data True))
                                       \<lparr>oc_capped := \<not> complete \<and> \<not> needsFullRead\<rparr>, [])))
                         else (result\<lparr>oc_capped := \<not> complete \<and> \<not> needsFullRead\<rparr>, [])))))"

section \<open>What a file yields\<close>

interpretation limit_stream_r: io_reader "limit_Read stream_Read"
    "limit_content (\<lambda>s. (sm_data s, sm_err s)) sm_joint" "limit_joint (\<lambda>s. (sm_data s, sm_err s)) sm_joint"
  by (rule stream_r.limit_reader)

text \<open>How a stream ends does not change while it is read.\<close>

interpretation stream_j: reader_step stream_Read "\<lambda>x n y. sm_joint y = sm_joint x"
  by unfold_locales (auto simp: stream_Read_def Let_def split: if_splits)

interpretation limit_stream_j: reader_step "limit_Read stream_Read" "\<lambda>x n y. sm_joint (snd y) = sm_joint (snd x)"
  by (rule stream_j.limit_step)

text \<open>A file that can be read to its end, twice with the same bytes, and whose reads return its end apart.\<close>

definition stable_file :: "os_file \<Rightarrow> bytes \<Rightarrow> bool" where
  "stable_file file d \<longleftrightarrow>
     sm_data (of_stream file) = d \<and> sm_err (of_stream file) = io_EOF \<and> \<not> sm_joint (of_stream file) \<and>
     (case of_Seek file of Inl e \<Rightarrow> False | Inr s \<Rightarrow> sm_data s = d \<and> sm_err s = io_EOF)"

lemma errors_Is_EOF [simp]: "errors_Is io_EOF io_EOF"
  by (simp add: io_EOF_def)

lemma stream_ReadAll: "length (sm_data s) < fuel \<Longrightarrow> sm_err s = io_EOF \<Longrightarrow>
    fst (io_ReadAll stream_Read room fuel [] s) = (sm_data s, None)"
  using stream_r.ReadAll_result [of s fuel room] by (simp add: read_result_def)

lemma sniff_file_stable:
  assumes "0 \<le> opt_MaxBytes (ae_options env)" and "sm_err s = io_EOF" and "\<not> sm_joint s"
  obtains rest where "sniff_file env s =
      ((if opt_MaxBytes (ae_options env) = 0 then sm_data s else take (nat (opt_MaxBytes (ae_options env))) (sm_data s), None), rest)"
    and "opt_MaxBytes (ae_options env) = 0 \<or> int (length (sm_data s)) < opt_MaxBytes (ae_options env) \<or>
      sm_data rest = drop (nat (opt_MaxBytes (ae_options env))) (sm_data s) \<and> sm_err rest = io_EOF \<and>
        \<not> sm_joint rest"
proof -
  let ?M = "opt_MaxBytes (ae_options env)"
  define room where "room = ReadAll_room (ae_lib env)"
  define fuel where "fuel = Suc (length (sm_data s))"
  consider "?M = 0" | "0 < ?M" "?M \<le> int (length (sm_data s))" | "0 < ?M" "int (length (sm_data s)) < ?M"
    using assms(1) by linarith
  then show thesis
  proof cases
    case 1
    obtain rest where "io_ReadAll stream_Read room fuel [] s = ((sm_data s, None), rest)"
      using stream_ReadAll [of s fuel room] assms(2) by (metis fuel_def lessI prod.collapse)
    with 1 show thesis
      by (intro that [of rest]) (simp_all add: sniff_file_def Let_def room_def fuel_def)
  next
    case 2
    have "nat ?M < fuel" using 2 by (simp add: fuel_def)
    from stream_s.limit_ReadAll_rest [OF refl _ _ this, of s room "[]"] 2 assms(2,3)
    obtain N' s' where run: "io_ReadAll (limit_Read stream_Read) room fuel [] (?M, s) =
        ((take (nat ?M) (sm_data s), None), (N', s'))"
      "sm_data s' = drop (nat ?M) (sm_data s)" "sm_err s' = io_EOF"
      by auto
    moreover have "\<not> sm_joint s'"
      using limit_stream_j.ReadAll_rel [OF run(1)] assms(3) by simp
    ultimately show thesis using 2
      by (intro that [of s']) (simp_all add: sniff_file_def Let_def room_def fuel_def)
  next
    case 3
    have c: "limit_content (\<lambda>s. (sm_data s, sm_err s)) sm_joint (?M, s) = (sm_data s, io_EOF)"
      using 3 assms(2) by (simp add: limit_content_def)
    obtain N' s' where "io_ReadAll (limit_Read stream_Read) room fuel [] (?M, s) = ((sm_data s, None), (N', s'))"
      using limit_stream_r.ReadAll_content [OF c, of fuel room "[]"] by (auto simp: fuel_def)
    with 3 show thesis
      by (intro that [of s']) (simp_all add: sniff_file_def Let_def room_def fuel_def)
  qed
qed

lemma file_scan:
  assumes "0 \<le> opt_MaxBytes (ae_options env)" and "stable_file file d"
    and "\<not> opt_ScanArchives (ae_options env) \<or> detectArchiveFormat d = archiveFormatNone"
  shows "scanFileContentsWithOptions env (Inr file) progress =
    (case sniffed (ae_x509 env) (ae_outerPath env) (opt_MaxBytes (ae_options env)) d of
       (result, capped) \<Rightarrow> (result\<lparr>oc_capped := capped\<rparr>, []))"
proof -
  let ?M = "opt_MaxBytes (ae_options env)" and ?scan = "scanContentData (ae_x509 env) (ae_outerPath env)"
  from assms(2) have s: "sm_data (of_stream file) = d" "sm_err (of_stream file) = io_EOF" "\<not> sm_joint (of_stream file)"
    by (simp_all add: stable_file_def)
  from assms(2) obtain again where seek: "of_Seek file = Inr again" "sm_data again = d" "sm_err again = io_EOF"
    by (auto simp: stable_file_def split: sum.splits)
  obtain rest where sniff: "sniff_file env (of_stream file) =
      ((if ?M = 0 then d else take (nat ?M) d, None), rest)"
    and rest: "?M = 0 \<or> int (length d) < ?M \<or> sm_data rest = drop (nat ?M) d \<and> sm_err rest = io_EOF \<and>
      \<not> sm_joint rest"
    using sniff_file_stable [OF assms(1) s(2,3)] s(1) by metis
  define data where "data = (if ?M = 0 then d else take (nat ?M) d)"
  define complete where "complete \<longleftrightarrow> ?M = 0 \<or> int (length d) \<le> ?M"
  have compl: "file_complete env data rest = Inr complete"
    using rest assms(1)
    by (auto simp: file_complete_def data_def complete_def stream_Read_def Let_def split: list.split)
  have fmt: "\<not> (opt_ScanArchives (ae_options env) \<and> detectArchiveFormat data \<noteq> archiveFormatNone)"
    using assms(3) archive_d.not_detect_take [of d "nat ?M"] by (auto simp: data_def)
  have full: "fst (io_ReadAll stream_Read (ReadAll_room (ae_lib env)) (Suc (length d)) [] again) = (d, None)"
    using stream_ReadAll [of again "Suc (length d)"] seek by simp
  obtain result needs where r: "?scan data complete = (result, needs)" by (metis surj_pair)
  have run: "scanFileContentsWithOptions env (Inr file) progress =
      (if needs then ((fst (?scan d True))\<lparr>oc_capped := False\<rparr>, []) else (result\<lparr>oc_capped := \<not> complete\<rparr>, []))"
    using sniff compl fmt r seek full
    by (auto simp: scanFileContentsWithOptions_def Let_def data_def [symmetric] split: prod.split option.split)
  show ?thesis
  proof (cases complete)
    case True
    then have "data = d" using assms(1) by (auto simp: data_def complete_def)
    with True r content_complete [of "ae_x509 env" "ae_outerPath env" d result needs] run show ?thesis
      by (simp add: sniffed_code complete_def)
  next
    case False
    obtain full_result more where f: "?scan d True = (full_result, more)" by (metis surj_pair)
    from False have "data = take (nat ?M) d" by (simp add: data_def complete_def)
    with False r run f content_complete(2) [OF f] show ?thesis
      by (simp add: sniffed_code complete_def)
  qed
qed

text \<open>
  C8: a file that is not scanned as an archive yields what its whole content yields, or nothing
  at all and the mark that it was capped. The latter is the case exactly when it is longer than
  the sniff limit and its first bytes hold neither a keystore nor a certificate: no finding
  is ever taken from a part of a file.
\<close>

theorem file_scan_spec:
  assumes "0 \<le> opt_MaxBytes (ae_options env)" and "stable_file file d"
    and "\<not> opt_ScanArchives (ae_options env) \<or> detectArchiveFormat d = archiveFormatNone"
  shows "scanFileContentsWithOptions env (Inr file) progress =
    (if opt_MaxBytes (ae_options env) = 0 \<or> int (length d) \<le> opt_MaxBytes (ae_options env) \<or>
        recognised (ae_x509 env) (take (nat (opt_MaxBytes (ae_options env))) d)
     then (fst (scanContentData (ae_x509 env) (ae_outerPath env) d True))\<lparr>oc_capped := False\<rparr>
     else scanOutcome [] [] True None, [])"
  using file_scan [OF assms] by (simp add: sniffed_def scanOutcome_def)

lemma detectJavaKeystore_take: "4 \<le> n \<Longrightarrow> detectJavaKeystore (take n d) = detectJavaKeystore d"
  by (auto simp: detectJavaKeystore_def min_def)

text \<open>
  C35: with a sniff limit of at least four bytes a Java keystore that is not taken for an
  archive is never capped: all of it is parsed, however long it is.
\<close>

theorem java_keystore_never_capped:
  assumes "4 \<le> opt_MaxBytes (ae_options env)" and "stable_file file d"
    and "\<not> opt_ScanArchives (ae_options env) \<or> detectArchiveFormat d = archiveFormatNone"
    and "detectJavaKeystore d \<noteq> None"
  shows "fst (scanFileContentsWithOptions env (Inr file) progress) =
    (fst (scanContentData (ae_x509 env) (ae_outerPath env) d True))\<lparr>oc_capped := False\<rparr>"
proof -
  have "sniffed (ae_x509 env) (ae_outerPath env) (opt_MaxBytes (ae_options env)) d =
      (fst (scanContentData (ae_x509 env) (ae_outerPath env) d True), False)"
    using detectJavaKeystore_take [of "nat (opt_MaxBytes (ae_options env))" d] assms(1,4)
    by (simp add: sniffed_def recognised_def)
  then show ?thesis
    using file_scan [OF _ assms(2,3), of progress] assms(1) by simp
qed

section \<open>Concrete files\<close>

lemma stable_sample_file: "stable_file (sample_file d) d"
  by (simp add: stable_file_def sample_file_def stream_of_def)

lemma file_scan_spec_witness:
  "oc_capped (fst (scanFileContentsWithOptions (sample_env 3) (Inr (sample_file [1, 2, 3, 4, 5])) True)) \<and>
   oc_certificates (fst (scanFileContentsWithOptions (sample_env 3) (Inr (sample_file [1, 2, 3, 4, 5])) True)) = []"
proof -
  have "detectArchiveFormat [1, 2, 3, 4, 5] = archiveFormatNone" "\<not> recognised sample_lib [1, 2, 3]"
    by code_simp+
  then show ?thesis
    using file_scan_spec [of "sample_env 3", OF _ stable_sample_file, of "[1, 2, 3, 4, 5]" True] by simp
qed

lemma java_keystore_never_capped_witness:
  "\<not> oc_capped (fst (scanFileContentsWithOptions (sample_env 4)
     (Inr (sample_file [0xFE, 0xED, 0xFE, 0xED, 0, 0])) True))"
proof -
  have "detectArchiveFormat [0xFE, 0xED, 0xFE, 0xED, 0, 0] = archiveFormatNone"
    "detectJavaKeystore [0xFE, 0xED, 0xFE, 0xED, 0, 0] \<noteq> None"
    by code_simp+
  then show ?thesis
    using java_keystore_never_capped [of "sample_env 4", OF _ stable_sample_file,
        of "[0xFE, 0xED, 0xFE, 0xED, 0, 0]" True]
    by simp
qed

end
