(* ===== verification/ZipCount.thy ===== *)
theory ZipCount
  imports ArchiveScan
begin

text \<open>
  The entry count a ZIP archive declares (\<^verbatim>\<open>checkZIPEntryCount\<close>): the end record of an archive
  is found behind any prefix, and the archive is refused exactly when it declares more entries
  than the limit leaves.
\<close>

definition le_bytes :: "nat \<Rightarrow> nat \<Rightarrow> bytes" where
  "le_bytes n v = rev (be_bytes n v)"

lemma length_le_bytes [simp]: "length (le_bytes n v) = n"
  by (simp add: le_bytes_def)

lemma unat_le_word:
  assumes "8 * n = LENGTH('a::len)" and "v < 256 ^ n"
  shows "unat (le_word (le_bytes n v) :: 'a word) = v"
  using assms by (simp add: le_word_def le_bytes_def unat_be_word)

text \<open>
  An end-of-central-directory record: the signature, six bytes of disk numbers and counts, the
  number of entries, eight bytes of sizes and offsets, and the comment.
\<close>

definition end_record :: "bytes \<Rightarrow> nat \<Rightarrow> bytes \<Rightarrow> bytes \<Rightarrow> bytes" where
  "end_record disks count directory comment =
     le_bytes 4 0x06054b50 @ disks @ le_bytes 2 count @ directory @ le_bytes 2 (length comment) @ comment"

definition end_record_ok :: "bytes \<Rightarrow> nat \<Rightarrow> bytes \<Rightarrow> bytes \<Rightarrow> bool" where
  "end_record_ok disks count directory comment \<longleftrightarrow>
     length disks = 6 \<and> length directory = 8 \<and> length comment < 65536 \<and> count < 65535 \<and>
     \<not> list_ex (end_record_at (end_record disks count directory comment))
        [1..<length (end_record disks count directory comment) - 21]"

lemma length_end_record: "end_record_ok a n b c \<Longrightarrow> length (end_record a n b c) = 22 + length c"
  by (simp add: end_record_def end_record_ok_def)

lemma end_record_fields:
  assumes "end_record_ok a n b c"
  shows "take 4 (end_record a n b c) = le_bytes 4 0x06054b50"
    and "take 2 (drop 10 (end_record a n b c)) = le_bytes 2 n"
    and "take 2 (drop 20 (end_record a n b c)) = le_bytes 2 (length c)"
  using assms by (simp_all add: end_record_def end_record_ok_def)

lemma end_record_signature: "(le_word (le_bytes 4 0x06054b50) :: 32 word) = 0x06054b50"
  by (subst word_unat_eq_iff) (simp add: unat_le_word)

lemma end_record_here:
  assumes "end_record_ok a n b c"
  shows "end_record_at (end_record a n b c) 0"
  using end_record_fields [OF assms] length_end_record [OF assms] assms
  by (simp add: end_record_at_def end_record_signature unat_le_word end_record_ok_def)

lemma end_record_at_append: "end_record_at (p @ x) (length p + k) = end_record_at x k"
  by (simp add: end_record_at_def drop_append add.assoc)

lemma find_end_record_last:
  assumes "end_record_at tail k" and "\<forall>j. k < j \<and> j \<le> n \<longrightarrow> \<not> end_record_at tail j" and "k \<le> n"
  shows "find_end_record tail n = Some k"
  using assms
proof (induction n)
  case 0
  then show ?case by simp
next
  case (Suc n)
  then show ?case by (cases "k = Suc n") auto
qed

lemma find_end_record_append:
  assumes "end_record_ok a n b c"
  shows "find_end_record (p @ end_record a n b c) (length (p @ end_record a n b c) - 22) = Some (length p)"
proof (rule find_end_record_last)
  let ?x = "end_record a n b c"
  show "end_record_at (p @ ?x) (length p)"
    using end_record_at_append [of p ?x 0] end_record_here [OF assms] by simp
  show "\<forall>j. length p < j \<and> j \<le> length (p @ ?x) - 22 \<longrightarrow> \<not> end_record_at (p @ ?x) j"
  proof (intro allI impI)
    fix j assume j: "length p < j \<and> j \<le> length (p @ ?x) - 22"
    then have "j = length p + (j - length p)" by simp
    moreover have "j - length p \<in> set [1..<length ?x - 21]"
      using j length_end_record [OF assms] by auto
    then have "\<not> end_record_at ?x (j - length p)"
      using assms unfolding end_record_ok_def by (metis list_ex_iff)
    ultimately show "\<not> end_record_at (p @ ?x) j"
      using end_record_at_append [of p ?x "j - length p"] by simp
  qed
  show "length p \<le> length (p @ ?x) - 22"
    using length_end_record [OF assms] by simp
qed

lemma uint_word_of_int_64: "0 \<le> i \<Longrightarrow> i < 2 ^ 63 \<Longrightarrow> uint (word_of_int i :: 64 word) = i"
  by (simp add: uint_word_of_int_eq take_bit_int_eq_self)

lemma bytes_ReadAt_inside: "k + n \<le> length d \<Longrightarrow> bytes_ReadAt d (int k) n = Inr (take n (drop k d))"
  by (simp add: bytes_ReadAt_def)

lemma bytes_ReadAt_suffix:
  assumes "k \<le> length pre" and "n = length (pre @ x) - k"
  shows "bytes_ReadAt (pre @ x) (int k) n = Inr (drop k pre @ x)"
  using assms by (subst bytes_ReadAt_inside) simp_all

text \<open>
  C37: an archive with a well-formed end record passes exactly when it declares no more entries than
  the limit leaves, wherever the record lies, whatever precedes it and whatever comment follows.
\<close>

theorem zip_entry_count_checked:
  assumes "end_record_ok disks count directory comment"
    and "as_entries scanner \<le> opt_ArchiveMaxEntries (ae_options env)" and "0 \<le> as_entries scanner"
    and "opt_ArchiveMaxEntries (ae_options env) < 2 ^ 63"
  shows "checkZIPEntryCount env scanner
      (bytes_ReadAt (pre @ end_record disks count directory comment))
      (int (length (pre @ end_record disks count directory comment))) = None \<longleftrightarrow>
    as_entries scanner + int count \<le> opt_ArchiveMaxEntries (ae_options env)"
proof -
  let ?x = "end_record disks count directory comment" and ?left = "opt_ArchiveMaxEntries (ae_options env) - as_entries scanner"
  note len = length_end_record [OF assms(1)]
  have comment: "length comment < 65536" "count < 65535" using assms(1) by (simp_all add: end_record_ok_def)
  define m where "m = min (length (pre @ ?x)) 65557"
  define p where "p = drop (length (pre @ ?x) - m) pre"
  have off: "length (pre @ ?x) - m \<le> length pre" "m \<le> length (pre @ ?x)" "22 \<le> m"
    using len comment by (auto simp: m_def)
  have int_m: "min (int (length (pre @ ?x))) 65557 = int m" by (simp add: m_def)
  have k: "int (length (pre @ ?x)) - int m = int (length (pre @ ?x) - m)" using off(2) by (simp only: of_nat_diff)
  have "m = length (pre @ ?x) - (length (pre @ ?x) - m)" using off(2) by simp
  then have tail: "bytes_ReadAt (pre @ ?x) (int (length (pre @ ?x)) - int m) m = Inr (p @ ?x)"
    unfolding k p_def by (rule bytes_ReadAt_suffix [OF off(1)])
  have count: "take 2 (drop (length p + 10) (p @ ?x)) = le_bytes 2 count"
    using end_record_fields(2) [OF assms(1)] by (simp add: drop_append)
  define w where "w = (ucast (le_word (le_bytes 2 count) :: 16 word) :: 64 word)"
  have w: "unat w = count"
    using comment by (simp add: w_def unsigned_ucast_eq unat_le_word take_bit_nat_eq_self_iff)
  have "unat (0xFFFF :: 64 word) = 65535" by simp
  then have "w \<noteq> 0xFFFF" using w comment by auto
  moreover have "w > word_of_int ?left \<longleftrightarrow> ?left < int count"
  proof -
    have "uint (word_of_int ?left :: 64 word) = ?left"
      by (rule uint_word_of_int_64) (use assms(2-4) in linarith)+
    moreover have "uint w = int count" by (simp only: uint_nat w)
    ultimately show ?thesis by (simp add: word_less_def)
  qed
  moreover have "checkZIPEntryCount env scanner (bytes_ReadAt (pre @ ?x)) (int (length (pre @ ?x))) = None \<longleftrightarrow>
      \<not> word_of_int ?left < w"
    using find_end_record_append [OF assms(1), of p] tail count off(3) \<open>w \<noteq> 0xFFFF\<close>
    unfolding checkZIPEntryCount_def Let_def
    by (simp add: int_m w_def [symmetric] del: length_append)
  ultimately show ?thesis by linarith
qed

text \<open>Eleven entries are too many for a limit of ten, whatever precedes the record.\<close>

lemma zip_entry_count_checked_witness:
  "checkZIPEntryCount (sample_env 0) sample_scanner
     (bytes_ReadAt ([0x50, 0x4B] @ end_record (replicate 6 0) 11 (replicate 8 0) [1, 2]))
     (int (length ([0x50, 0x4B] @ end_record (replicate 6 0) 11 (replicate 8 0) [1, 2]))) \<noteq> None"
proof -
  have ok: "end_record_ok (replicate 6 0) 11 (replicate 8 0) [1, 2]"
    by code_simp
  have sc: "as_entries sample_scanner = 0" by (simp add: new_archiveScanner_def)
  show ?thesis
    using zip_entry_count_checked [OF ok, of sample_scanner "sample_env 0" "[0x50, 0x4B]"] sc
    by (simp del: length_append)
qed

end
