(* ===== verification/Verify.thy ===== *)
theory Verify
  imports Content Samples
begin

text \<open>
  Offline chain verification (verify.go). Path building is \<^verbatim>\<open>x509.Certificate.Verify\<close>, a
  parameter: its result is the chains, or an error of which the source observes its text and
  what \<^verbatim>\<open>errors.As\<close> finds in it.
\<close>

section \<open>The verifier\<close>

text \<open>
  \<open>ve_Invalid\<close> is the \<^verbatim>\<open>CertificateInvalidError\<close> in the error: its certificate and whether
  its reason is \<^verbatim>\<open>Expired\<close>. \<open>ve_UnknownAuthority\<close> is the certificate of the
  \<^verbatim>\<open>UnknownAuthorityError\<close> in it; a nil certificate is \<open>None\<close>.
\<close>

record verify_error =
  ve_Error :: string
  ve_Invalid :: "(x509_cert option \<times> bool) option"
  ve_UnknownAuthority :: "x509_cert option option"

record cert_pool =
  cp_System :: bool
  cp_Certs :: "x509_cert list"

record verify_query =
  vq_Roots :: cert_pool
  vq_Intermediates :: cert_pool
  vq_CurrentTime :: go_time
  vq_DNSName :: string

record verify_lib =
  SystemCertPool :: "cert_pool option go_result"
  x509_Verify :: "x509_cert \<Rightarrow> verify_query \<Rightarrow> verify_error + x509_cert list list"
  verify_sha256 :: "bytes \<Rightarrow> bytes"

definition NewCertPool :: cert_pool where
  "NewCertPool = \<lparr>cp_System = False, cp_Certs = []\<rparr>"

text \<open>A pool holds a certificate once.\<close>

definition AddCert :: "cert_pool \<Rightarrow> x509_cert \<Rightarrow> cert_pool" where
  "AddCert pool c =
     (if list_ex (\<lambda>d. x_Raw d = x_Raw c) (cp_Certs pool) then pool
      else pool\<lparr>cp_Certs := cp_Certs pool @ [c]\<rparr>)"

text \<open>The zero time is \<open>None\<close>.\<close>

record verification_options =
  vo_CurrentTime :: "go_time option"
  vo_DNSName :: string
  vo_IncludeSystemRoots :: bool
  vo_Roots :: "certificate list"

definition VerificationTrusted :: string where "VerificationTrusted = ''trusted''"

definition VerificationUntrusted :: string where "VerificationUntrusted = ''untrusted''"

definition VerificationExpired :: string where "VerificationExpired = ''expired''"

definition VerificationNotYetValid :: string where "VerificationNotYetValid = ''not-yet-valid''"

definition VerificationMissingIntermediate :: string where
  "VerificationMissingIntermediate = ''missing-intermediate''"

lemmas verification_statuses = VerificationTrusted_def VerificationUntrusted_def VerificationExpired_def
  VerificationNotYetValid_def VerificationMissingIntermediate_def

text \<open>The loop that adds parsed certificates to a pool; the message is that of the caller.\<close>

fun add_parsed :: "string \<Rightarrow> nat \<Rightarrow> certificate list \<Rightarrow> cert_pool \<Rightarrow> cert_pool go_result" where
  "add_parsed message index [] pool = Inr pool"
| "add_parsed message index (certificate # cs) pool =
     (case cert_parsed certificate of
        None \<Rightarrow> Inl (Errorf message [AInt (int index), AStr (cert_Path certificate)])
      | Some parsed \<Rightarrow> add_parsed message (index + 1) cs (AddCert pool parsed))"

definition verificationRootPool :: "verify_lib \<Rightarrow> verification_options \<Rightarrow> cert_pool go_result" where
  "verificationRootPool lib options =
     (case (if vo_IncludeSystemRoots options then SystemCertPool lib else Inr None) of
        Inl err \<Rightarrow> Inl (Wrapf ''load system roots: %w'' [] err)
      | Inr roots \<Rightarrow>
          let roots = (case roots of None \<Rightarrow> NewCertPool | Some pool \<Rightarrow> pool)
          in add_parsed ''root certificate %d at %q has no parsed X.509 data'' 0 (vo_Roots options) roots)"

definition classifyVerificationError :: "x509_cert \<Rightarrow> verify_error \<Rightarrow> go_time \<Rightarrow> string" where
  "classifyVerificationError certificate verifyErr currentTime =
     (if currentTime < x_NotBefore certificate then VerificationNotYetValid
      else if x_NotAfter certificate < currentTime then VerificationExpired
      else
        (case ve_Invalid verifyErr of
           Some (Some cert, True) \<Rightarrow>
             if currentTime < x_NotBefore cert then VerificationNotYetValid else VerificationExpired
         | _ \<Rightarrow>
            (case ve_UnknownAuthority verifyErr of
               Some (Some cert) \<Rightarrow>
                 if x_RawSubject cert = x_RawIssuer cert then VerificationUntrusted
                 else VerificationMissingIntermediate
             | _ \<Rightarrow> VerificationUntrusted)))"

text \<open>\<open>n\<close> is the length of the chain, \<open>index\<close> the position in it.\<close>

fun describe_chain ::
  "verify_lib \<Rightarrow> nat \<Rightarrow> nat \<Rightarrow> x509_cert list \<Rightarrow> verification_chain_certificate list" where
  "describe_chain lib n index [] = []"
| "describe_chain lib n index (certificate # chain) =
     \<lparr>vc_Subject = x_Subject certificate, vc_Issuer = x_Issuer certificate,
      vc_SHA256Fingerprint = hex_EncodeToString (verify_sha256 lib (x_Raw certificate)),
      vc_TrustAnchor = (int index = int n - 1)\<rparr> # describe_chain lib n (index + 1) chain"

definition describeVerifiedChains ::
  "verify_lib \<Rightarrow> x509_cert list list \<Rightarrow> verification_chain_certificate list list" where
  "describeVerifiedChains lib verifiedChains = map (\<lambda>chain. describe_chain lib (length chain) 0 chain) verifiedChains"

definition describeVerification ::
  "verify_lib \<Rightarrow> x509_cert \<Rightarrow> verify_error + x509_cert list list \<Rightarrow> go_time \<Rightarrow> verification_result" where
  "describeVerification lib certificate result currentTime =
     (case result of
        Inr verifiedChains \<Rightarrow> \<lparr>vr_Status = VerificationTrusted, vr_Error = [],
          vr_Chains = describeVerifiedChains lib verifiedChains\<rparr>
      | Inl verifyErr \<Rightarrow> \<lparr>vr_Status = classifyVerificationError certificate verifyErr currentTime,
          vr_Error = ve_Error verifyErr, vr_Chains = []\<rparr>)"

text \<open>The body of the loop over the certificates, all parsed at that point.\<close>

definition verify_one :: "verify_lib \<Rightarrow> verify_query \<Rightarrow> certificate \<Rightarrow> certificate" where
  "verify_one lib query certificate =
     (case cert_parsed certificate of
        None \<Rightarrow> certificate
      | Some parsed \<Rightarrow>
          certificate\<lparr>cert_Verification :=
            Some (describeVerification lib parsed (x509_Verify lib parsed query) (vq_CurrentTime query))\<rparr>)"

definition VerifyCertificates ::
  "verify_lib \<Rightarrow> go_time \<Rightarrow> certificate list \<Rightarrow> verification_options \<Rightarrow> certificate list go_result" where
  "VerifyCertificates lib now certificates options =
     (case verificationRootPool lib options of
        Inl err \<Rightarrow> Inl err
      | Inr roots \<Rightarrow>
          (case add_parsed ''certificate %d at %q has no parsed X.509 data'' 0 certificates NewCertPool of
             Inl err \<Rightarrow> Inl err
           | Inr intermediates \<Rightarrow>
               let currentTime = (case vo_CurrentTime options of None \<Rightarrow> now | Some t \<Rightarrow> t)
               in Inr (map (verify_one lib \<lparr>vq_Roots = roots, vq_Intermediates = intermediates,
                    vq_CurrentTime = currentTime, vq_DNSName = vo_DNSName options\<rparr>) certificates)))"

section \<open>The pools\<close>

definition parsed_of :: "certificate list \<Rightarrow> x509_cert list" where
  "parsed_of cs = map (the \<circ> cert_parsed) cs"

lemma add_parsed_ok:
  "(\<exists>pool'. add_parsed message index cs pool = Inr pool') \<longleftrightarrow> list_all (\<lambda>c. cert_parsed c \<noteq> None) cs"
  by (induction cs arbitrary: index pool) (auto split: option.split)

lemma AddCert_raw: "x_Raw ` set (cp_Certs (AddCert pool c)) = insert (x_Raw c) (x_Raw ` set (cp_Certs pool))"
  by (auto simp: AddCert_def list_ex_iff) (metis image_eqI)

lemma add_parsed_raw:
  "add_parsed message index cs pool = Inr pool' \<Longrightarrow>
     x_Raw ` set (cp_Certs pool') = x_Raw ` set (cp_Certs pool) \<union> x_Raw ` set (parsed_of cs)"
proof (induction cs arbitrary: index pool)
  case (Cons c cs)
  then show ?case
    by (auto simp: parsed_of_def AddCert_raw split: option.splits)
qed (simp add: parsed_of_def)

lemma AddCert_system [simp]: "cp_System (AddCert pool c) = cp_System pool"
  by (simp add: AddCert_def)

lemma add_parsed_system: "add_parsed message index cs pool = Inr pool' \<Longrightarrow> cp_System pool' = cp_System pool"
  by (induction cs arbitrary: index pool) (auto split: option.splits)

text \<open>
  Verification fails as a whole exactly when the system roots are wanted and cannot be loaded,
  or a root or a certificate has no parsed data.
\<close>

theorem verify_succeeds_iff:
  "(\<exists>verified. VerifyCertificates lib now certificates options = Inr verified) \<longleftrightarrow>
     (if vo_IncludeSystemRoots options then \<exists>pool. SystemCertPool lib = Inr pool else True) \<and>
     list_all (\<lambda>c. cert_parsed c \<noteq> None) (vo_Roots options @ certificates)"
proof -
  have "(\<exists>pool. verificationRootPool lib options = Inr pool) \<longleftrightarrow>
      (if vo_IncludeSystemRoots options then \<exists>pool. SystemCertPool lib = Inr pool else True) \<and>
      list_all (\<lambda>c. cert_parsed c \<noteq> None) (vo_Roots options)"
    by (cases "SystemCertPool lib") (simp_all add: verificationRootPool_def Let_def add_parsed_ok)
  moreover have "(\<exists>verified. VerifyCertificates lib now certificates options = Inr verified) \<longleftrightarrow>
      (\<exists>pool. verificationRootPool lib options = Inr pool) \<and>
      (\<exists>pool. add_parsed ''certificate %d at %q has no parsed X.509 data'' 0 certificates NewCertPool = Inr pool)"
    by (auto simp: VerifyCertificates_def Let_def split: sum.split)
  ultimately show ?thesis by (simp add: add_parsed_ok)
qed

definition without_verification :: "certificate \<Rightarrow> certificate" where
  "without_verification c = c\<lparr>cert_Verification := None\<rparr>"

lemma verify_one_parsed: "cert_parsed c = Some x \<Longrightarrow> verify_one lib query c =
    c\<lparr>cert_Verification := Some (describeVerification lib x (x509_Verify lib x query) (vq_CurrentTime query))\<rparr>"
  by (simp add: verify_one_def)

text \<open>
  C22: verification keeps the certificates and their order, changes nothing of them but the
  verification, and verifies every one. Every certificate is available as an intermediate,
  and with system roots off the only roots are the given ones.
\<close>

theorem verify_annotates_only:
  assumes "VerifyCertificates lib now certificates options = Inr verified"
  shows "map without_verification verified = map without_verification certificates \<and>
    (\<exists>query. map cert_Verification verified =
        map (\<lambda>x. Some (describeVerification lib x (x509_Verify lib x query) (vq_CurrentTime query))) (parsed_of certificates) \<and>
      x_Raw ` set (cp_Certs (vq_Intermediates query)) = x_Raw ` set (parsed_of certificates) \<and>
      (vo_IncludeSystemRoots options \<or> \<not> cp_System (vq_Roots query) \<and>
       x_Raw ` set (cp_Certs (vq_Roots query)) = x_Raw ` set (parsed_of (vo_Roots options))))"
proof -
  let ?t = "case vo_CurrentTime options of None \<Rightarrow> now | Some t \<Rightarrow> t"
  from assms obtain roots inter where r: "verificationRootPool lib options = Inr roots"
    and i: "add_parsed ''certificate %d at %q has no parsed X.509 data'' 0 certificates NewCertPool = Inr inter"
    and v: "verified = map (verify_one lib \<lparr>vq_Roots = roots, vq_Intermediates = inter,
      vq_CurrentTime = ?t, vq_DNSName = vo_DNSName options\<rparr>) certificates"
    by (auto simp: VerifyCertificates_def Let_def split: sum.splits)
  define query where "query = \<lparr>vq_Roots = roots, vq_Intermediates = inter,
      vq_CurrentTime = ?t, vq_DNSName = vo_DNSName options\<rparr>"
  have parsed: "list_all (\<lambda>c. cert_parsed c \<noteq> None) certificates" using i add_parsed_ok by blast
  have "map cert_Verification verified =
      map (\<lambda>x. Some (describeVerification lib x (x509_Verify lib x query) (vq_CurrentTime query))) (parsed_of certificates)"
    using parsed unfolding v query_def [symmetric] by (auto simp: parsed_of_def list_all_iff verify_one_parsed)
  moreover have "map without_verification verified = map without_verification certificates"
    by (simp add: v without_verification_def verify_one_def split: option.split)
  moreover have "x_Raw ` set (cp_Certs (vq_Intermediates query)) = x_Raw ` set (parsed_of certificates)"
    using add_parsed_raw [OF i] by (simp add: query_def NewCertPool_def)
  moreover have "\<not> cp_System roots \<and> x_Raw ` set (cp_Certs roots) = x_Raw ` set (parsed_of (vo_Roots options))"
    if "\<not> vo_IncludeSystemRoots options"
  proof -
    have a: "add_parsed ''root certificate %d at %q has no parsed X.509 data'' 0 (vo_Roots options) NewCertPool = Inr roots"
      using r that by (simp add: verificationRootPool_def)
    show ?thesis using add_parsed_raw [OF a] add_parsed_system [OF a] by (simp add: NewCertPool_def)
  qed
  then have "vo_IncludeSystemRoots options \<or> \<not> cp_System (vq_Roots query) \<and>
       x_Raw ` set (cp_Certs (vq_Roots query)) = x_Raw ` set (parsed_of (vo_Roots options))"
    by (auto simp: query_def)
  ultimately show ?thesis by blast
qed

section \<open>The results\<close>

lemma describe_chain_anchor:
  "map vc_TrustAnchor (describe_chain lib n index chain) = map (\<lambda>i. int i = int n - 1) [index..<index + length chain]"
proof (induction chain arbitrary: index)
  case (Cons c chain)
  have "[index..<index + length (c # chain)] = index # [Suc index..<Suc index + length chain]"
    by (subst upt_conv_Cons) simp_all
  with Cons show ?case by (simp del: upt_Suc)
qed simp

text \<open>
  C23: a certificate is reported as trusted exactly when the verifier found no error; only then are
  chains reported, each with exactly its last certificate marked as the trust anchor. An
  untrusted certificate outside its own validity is reported as expired or not yet valid,
  whatever else is wrong with it.
\<close>

theorem verification_status:
  "(vr_Status (describeVerification lib c result t) = VerificationTrusted \<longleftrightarrow> (\<exists>cs. result = Inr cs)) \<and>
   map (map vc_TrustAnchor) (vr_Chains (describeVerification lib c result t)) =
     (case result of Inl _ \<Rightarrow> [] | Inr cs \<Rightarrow> map (\<lambda>chain. map (\<lambda>i. i + 1 = length chain) [0..<length chain]) cs) \<and>
   (case result of Inr _ \<Rightarrow> True
    | Inl e \<Rightarrow> if t < x_NotBefore c then vr_Status (describeVerification lib c result t) = VerificationNotYetValid
        else if x_NotAfter c < t then vr_Status (describeVerification lib c result t) = VerificationExpired
        else True)"
proof -
  have "classifyVerificationError c e t \<noteq> VerificationTrusted" for e
    by (auto simp: classifyVerificationError_def verification_statuses split: option.split prod.split bool.split)
  moreover have "(int i = int n - 1) = (i + 1 = n)" for i n :: nat by linarith
  ultimately show ?thesis
    by (auto simp: describeVerification_def describeVerifiedChains_def describe_chain_anchor
        classifyVerificationError_def split: sum.split)
qed

text \<open>A library without system roots, whose verifier rejects everything as of unknown authority.\<close>

definition sample_verify_lib :: verify_lib where
  "sample_verify_lib = \<lparr>SystemCertPool = Inr None,
     x509_Verify = (\<lambda>c _. Inl \<lparr>ve_Error = ''unknown authority'', ve_Invalid = None, ve_UnknownAuthority = Some (Some c)\<rparr>),
     verify_sha256 = take 32\<rparr>"

definition sample_verification :: verification_options where
  "sample_verification = \<lparr>vo_CurrentTime = Some 5, vo_DNSName = [], vo_IncludeSystemRoots = False, vo_Roots = []\<rparr>"

lemma verify_annotates_only_witness:
  "\<exists>verified. VerifyCertificates sample_verify_lib 0 [describe sample_lib ''p'' 0 (sample_cert [1])] sample_verification =
      Inr verified \<and>
    map without_verification verified = [describe sample_lib ''p'' 0 (sample_cert [1])]"
proof -
  let ?c = "describe sample_lib ''p'' 0 (sample_cert [1])"
  have f: "cert_parsed ?c = Some (sample_cert [1])" "without_verification ?c = ?c"
    by (simp_all add: describe_def without_verification_def split: prod.split)
  then obtain verified where v: "VerifyCertificates sample_verify_lib 0 [?c] sample_verification = Inr verified"
    by (simp add: VerifyCertificates_def verificationRootPool_def sample_verification_def Let_def)
  from verify_annotates_only [OF v] v f show ?thesis by auto
qed

end
