(* ===== verification/Report.thy ===== *)
theory Report
  imports Types "HOL-Library.Product_Lexorder" "HOL-Library.Multiset" "HOL-Library.Sublist"
begin

text \<open>
  The report of a scan (scanner.go) and the grouping of its certificates by fingerprint
  (duplicates.go). \<^verbatim>\<open>sort.Slice\<close> sorts by a comparison function; where two elements compare
  equal its order is unspecified, and the model keeps their order.
\<close>

section \<open>Sorting\<close>

fun insert_by :: "('a \<Rightarrow> 'a \<Rightarrow> bool) \<Rightarrow> 'a \<Rightarrow> 'a list \<Rightarrow> 'a list" where
  "insert_by lt x [] = [x]"
| "insert_by lt x (y # ys) = (if lt y x then y # insert_by lt x ys else x # y # ys)"

definition sort_Slice :: "('a \<Rightarrow> 'a \<Rightarrow> bool) \<Rightarrow> 'a list \<Rightarrow> 'a list" where
  "sort_Slice lt xs = foldr (insert_by lt) xs []"

lemma sort_Slice_key:
  fixes key :: "'a \<Rightarrow> 'k::linorder"
  assumes "\<And>x y. lt x y \<longleftrightarrow> key x < key y"
  shows "sort_Slice lt xs = sort_key key xs"
proof -
  have "insert_by lt x ys = insort_key key x ys" for x ys
    by (induction ys) (auto simp: assms not_less)
  then have "insert_by lt = insort_key key" by (intro ext)
  then show ?thesis by (simp add: sort_Slice_def sort_key_def)
qed

text \<open>\<^verbatim>\<open>slices.Compare\<close>.\<close>

fun slices_Compare :: "'a::linorder list \<Rightarrow> 'a list \<Rightarrow> int" where
  "slices_Compare [] [] = 0"
| "slices_Compare [] (y # ys) = -1"
| "slices_Compare (x # xs) [] = 1"
| "slices_Compare (x # xs) (y # ys) = (if x < y then -1 else if y < x then 1 else slices_Compare xs ys)"

lemma slices_Compare_eq_0 [simp]: "slices_Compare xs ys = 0 \<longleftrightarrow> xs = ys"
  by (induction xs ys rule: slices_Compare.induct) auto

lemma slices_Compare_less [simp]: "slices_Compare xs ys < 0 \<longleftrightarrow> xs < ys"
  by (induction xs ys rule: slices_Compare.induct) auto

section \<open>The report\<close>

record report =
  rp_Certificates :: "certificate list"
  rp_PKCS12Encrypted :: "pkcs12_encrypted_content list"
  rp_Errors :: "file_error list"

definition empty_report :: report where
  "empty_report = \<lparr>rp_Certificates = [], rp_PKCS12Encrypted = [], rp_Errors = []\<rparr>"

definition certificate_less :: "certificate \<Rightarrow> certificate \<Rightarrow> bool" where
  "certificate_less a b =
     (if cert_Path a = cert_Path b then
        (let compared = slices_Compare (cert_ArchiveEntries a) (cert_ArchiveEntries b) in
         if compared \<noteq> 0 then compared < 0 else cert_Index a < cert_Index b)
      else cert_Path a < cert_Path b)"

definition encrypted_less :: "pkcs12_encrypted_content \<Rightarrow> pkcs12_encrypted_content \<Rightarrow> bool" where
  "encrypted_less a b =
     (if enc_Path a = enc_Path b then
        (let compared = slices_Compare (enc_ArchiveEntries a) (enc_ArchiveEntries b) in
         if compared \<noteq> 0 then compared < 0 else enc_ContentIndex a < enc_ContentIndex b)
      else enc_Path a < enc_Path b)"

definition error_less :: "file_error \<Rightarrow> file_error \<Rightarrow> bool" where
  "error_less a b \<longleftrightarrow> fe_Path a < fe_Path b"

definition sortReport :: "report \<Rightarrow> report" where
  "sortReport r = \<lparr>rp_Certificates = sort_Slice certificate_less (rp_Certificates r),
     rp_PKCS12Encrypted = sort_Slice encrypted_less (rp_PKCS12Encrypted r),
     rp_Errors = sort_Slice error_less (rp_Errors r)\<rparr>"

text \<open>The comparisons are the lexicographic order of path, entries and position.\<close>

definition cert_key :: "certificate \<Rightarrow> string \<times> string list \<times> int" where
  "cert_key c = (cert_Path c, cert_ArchiveEntries c, cert_Index c)"

definition enc_key :: "pkcs12_encrypted_content \<Rightarrow> string \<times> string list \<times> int" where
  "enc_key c = (enc_Path c, enc_ArchiveEntries c, enc_ContentIndex c)"

lemma certificate_less_key: "certificate_less a b \<longleftrightarrow> cert_key a < cert_key b"
  by (auto simp: certificate_less_def cert_key_def Let_def)

lemma encrypted_less_key: "encrypted_less a b \<longleftrightarrow> enc_key a < enc_key b"
  by (auto simp: encrypted_less_def enc_key_def Let_def)

lemma sort_certificates: "sort_Slice certificate_less = sort_key cert_key"
  by (rule ext) (rule sort_Slice_key, rule certificate_less_key)

lemma sort_encrypted: "sort_Slice encrypted_less = sort_key enc_key"
  by (rule ext) (rule sort_Slice_key, rule encrypted_less_key)

lemma sort_errors: "sort_Slice error_less = sort_key fe_Path"
  by (rule ext) (rule sort_Slice_key, simp add: error_less_def)

text \<open>
  The order in which the workers deliver their findings does not matter: when no two findings
  have the same path, entries and position, every order of the same findings is sorted into
  the same report.
\<close>

theorem sortReport_deterministic:
  assumes "mset (rp_Certificates r) = mset (rp_Certificates r')"
    and "mset (rp_PKCS12Encrypted r) = mset (rp_PKCS12Encrypted r')"
    and "mset (rp_Errors r) = mset (rp_Errors r')"
    and "inj_on cert_key (set (rp_Certificates r))" and "inj_on enc_key (set (rp_PKCS12Encrypted r))"
    and "inj_on fe_Path (set (rp_Errors r))"
  shows "sortReport r = sortReport r'"
  using assms
  by (simp add: sortReport_def sort_certificates sort_encrypted sort_errors sort_key_inj_key_eq)

section \<open>Groups of identical certificates\<close>

record certificate_location =
  loc_Path :: string
  loc_ArchiveEntries :: "string list"
  loc_Index :: int
  loc_Keystore :: "keystore_info option"

record certificate_group =
  gr_Certificate :: certificate
  gr_Locations :: "certificate_location list"

record identity_summary =
  id_Matched :: int
  id_Unique :: int
  id_DuplicateOccurrences :: int

definition location_of :: "certificate \<Rightarrow> certificate_location" where
  "location_of c = \<lparr>loc_Path = cert_Path c, loc_ArchiveEntries = cert_ArchiveEntries c,
     loc_Index = cert_Index c, loc_Keystore = cert_Keystore c\<rparr>"

text \<open>One iteration: the groups so far, and the map from fingerprints to their positions.\<close>

definition group_certificate ::
  "certificate \<Rightarrow> certificate_group list \<times> (string \<rightharpoonup> nat) \<Rightarrow> certificate_group list \<times> (string \<rightharpoonup> nat)" where
  "group_certificate certificate st =
     (case st of (groups, groupByFingerprint) \<Rightarrow>
        let (groups, groupByFingerprint, groupIndex) =
              (case groupByFingerprint (cert_SHA256Fingerprint certificate) of
                 None \<Rightarrow> (groups @ [\<lparr>gr_Certificate = certificate, gr_Locations = []\<rparr>],
                          groupByFingerprint(cert_SHA256Fingerprint certificate \<mapsto> length groups),
                          length groups)
               | Some groupIndex \<Rightarrow> (groups, groupByFingerprint, groupIndex));
            g = groups ! groupIndex
        in (groups[groupIndex := g\<lparr>gr_Locations := gr_Locations g @ [location_of certificate]\<rparr>],
            groupByFingerprint))"

definition groupCertificates :: "certificate list \<Rightarrow> certificate_group list" where
  "groupCertificates certificates =
     fst (fold group_certificate (sort_Slice certificate_less certificates) ([], Map.empty))"

definition duplicateCertificateGroups :: "certificate_group list \<Rightarrow> certificate_group list" where
  "duplicateCertificateGroups groups = filter (\<lambda>group. length (gr_Locations group) > 1) groups"

text \<open>
  The map of counts is an association list with distinct keys; its order, which Go leaves open,
  does not matter to a sum.
\<close>

definition summarizeCertificateIdentities :: "(string \<times> int) list \<Rightarrow> identity_summary" where
  "summarizeCertificateIdentities counts =
     fold (\<lambda>(_, count) summary.
         let summary = summary\<lparr>id_Matched := id_Matched summary + count\<rparr>
         in if count > 1
            then summary\<lparr>id_DuplicateOccurrences := id_DuplicateOccurrences summary + (count - 1)\<rparr>
            else summary)
       counts \<lparr>id_Matched = 0, id_Unique = int (length counts), id_DuplicateOccurrences = 0\<rparr>"

text \<open>
  What the groups are: for the fingerprints in the order of their first occurrence, the first
  certificate with each, and the locations of all with it.
\<close>

definition same_fingerprint :: "string \<Rightarrow> certificate list \<Rightarrow> certificate list" where
  "same_fingerprint f cs = filter (\<lambda>c. cert_SHA256Fingerprint c = f) cs"

definition group_for :: "certificate list \<Rightarrow> string \<Rightarrow> certificate_group" where
  "group_for cs f = \<lparr>gr_Certificate = hd (same_fingerprint f cs),
     gr_Locations = map location_of (same_fingerprint f cs)\<rparr>"

definition fingerprints :: "certificate list \<Rightarrow> string list" where
  "fingerprints cs = rev (remdups (rev (map cert_SHA256Fingerprint cs)))"

lemma fingerprints_snoc: "fingerprints (cs @ [c]) =
    (if cert_SHA256Fingerprint c \<in> cert_SHA256Fingerprint ` set cs then fingerprints cs
     else fingerprints cs @ [cert_SHA256Fingerprint c])"
  by (simp add: fingerprints_def)

lemma set_fingerprints [simp]: "set (fingerprints cs) = cert_SHA256Fingerprint ` set cs"
  by (simp add: fingerprints_def)

lemma distinct_fingerprints [simp]: "distinct (fingerprints cs)"
  by (simp add: fingerprints_def)

definition groups_inv :: "certificate list \<Rightarrow> certificate_group list \<times> (string \<rightharpoonup> nat) \<Rightarrow> bool" where
  "groups_inv cs st \<longleftrightarrow>
     fst st = map (group_for cs) (fingerprints cs) \<and>
     (\<forall>f i. snd st f = Some i \<longleftrightarrow> i < length (fingerprints cs) \<and> fingerprints cs ! i = f)"

lemma same_fingerprint_empty: "f \<notin> cert_SHA256Fingerprint ` set cs \<Longrightarrow> same_fingerprint f cs = []"
  by (auto simp: same_fingerprint_def filter_empty_conv)

lemma same_fingerprint_in: "f \<in> cert_SHA256Fingerprint ` set cs \<Longrightarrow> same_fingerprint f cs \<noteq> []"
  by (auto simp: same_fingerprint_def filter_empty_conv)

lemma group_for_snoc_other:
  "cert_SHA256Fingerprint c \<noteq> f \<Longrightarrow> group_for (cs @ [c]) f = group_for cs f"
  by (simp add: group_for_def same_fingerprint_def)

lemma group_known_certificate:
  assumes "groups_inv cs (gs, m)" and known: "cert_SHA256Fingerprint c \<in> cert_SHA256Fingerprint ` set cs"
  shows "group_certificate c (gs, m) = (map (group_for (cs @ [c])) (fingerprints cs), m)"
proof -
  let ?f = "cert_SHA256Fingerprint c" and ?fs = "fingerprints cs"
  have gs: "gs = map (group_for cs) ?fs"
    and m: "\<And>f i. m f = Some i \<longleftrightarrow> i < length ?fs \<and> ?fs ! i = f"
    using assms(1) by (simp_all add: groups_inv_def)
  obtain i where i: "i < length ?fs" "?fs ! i = ?f" "m ?f = Some i"
    using known m set_fingerprints [of cs] by (metis in_set_conv_nth)
  have "(map (group_for cs) ?fs)[i := g] ! j = group_for (cs @ [c]) (?fs ! j)"
    if "j < length ?fs" "g = group_for (cs @ [c]) ?f" for j g
  proof (cases "j = i")
    case False
    then have "?fs ! j \<noteq> ?f" using i that(1) by (metis distinct_fingerprints nth_eq_iff_index_eq)
    with False that show ?thesis by (simp add: group_for_snoc_other)
  qed (use i that in simp)
  then have upd: "(map (group_for cs) ?fs)[i := group_for (cs @ [c]) ?f] = map (group_for (cs @ [c])) ?fs"
    by (intro nth_equalityI) simp_all
  have "(group_for cs ?f)\<lparr>gr_Locations := gr_Locations (group_for cs ?f) @ [location_of c]\<rparr> = group_for (cs @ [c]) ?f"
    using same_fingerprint_in [OF known] by (simp add: group_for_def same_fingerprint_def)
  with i upd show ?thesis by (simp add: gs group_certificate_def)
qed

lemma group_new_certificate:
  assumes "groups_inv cs (gs, m)" and new: "cert_SHA256Fingerprint c \<notin> cert_SHA256Fingerprint ` set cs"
  shows "groups_inv (cs @ [c]) (group_certificate c (gs, m))"
proof -
  let ?f = "cert_SHA256Fingerprint c" and ?fs = "fingerprints cs"
  have gs: "gs = map (group_for cs) ?fs"
    and m: "\<And>f i. m f = Some i \<longleftrightarrow> i < length ?fs \<and> ?fs ! i = f"
    using assms(1) by (simp_all add: groups_inv_def)
  have none: "m ?f = None"
    using new m set_fingerprints [of cs] by (metis in_set_conv_nth not_Some_eq)
  have old: "map (group_for (cs @ [c])) ?fs = map (group_for cs) ?fs"
    using new by (intro map_cong refl group_for_snoc_other) auto
  have own: "group_for (cs @ [c]) ?f = \<lparr>gr_Certificate = c, gr_Locations = [location_of c]\<rparr>"
    using same_fingerprint_empty [OF new] by (simp add: group_for_def same_fingerprint_def)
  have "(m(?f \<mapsto> length ?fs)) f = Some i \<longleftrightarrow> i < Suc (length ?fs) \<and> (?fs @ [?f]) ! i = f" for f i
  proof -
    have "?fs ! i \<noteq> ?f" if "i < length ?fs"
      using new set_fingerprints [of cs] nth_mem [OF that] by auto
    then show ?thesis using m by (auto simp: nth_append less_Suc_eq)
  qed
  moreover have "group_certificate c (gs, m) =
      (map (group_for (cs @ [c])) ?fs @ [group_for (cs @ [c]) ?f], m(?f \<mapsto> length ?fs))"
    using none own list_update_length [of "map (group_for (cs @ [c])) ?fs"]
    by (simp add: gs [folded old] group_certificate_def nth_append)
  ultimately show ?thesis using new by (simp add: groups_inv_def fingerprints_snoc)
qed

lemma groups_inv_step:
  assumes "groups_inv cs st"
  shows "groups_inv (cs @ [c]) (group_certificate c st)"
proof -
  obtain gs m where st: "st = (gs, m)" by (cases st)
  show ?thesis
  proof (cases "cert_SHA256Fingerprint c \<in> cert_SHA256Fingerprint ` set cs")
    case True
    with group_known_certificate [OF assms [unfolded st] True] assms st show ?thesis
      by (simp add: groups_inv_def fingerprints_snoc)
  next
    case False
    with group_new_certificate [OF assms [unfolded st]] st show ?thesis by simp
  qed
qed

lemma groups_inv_fold: "groups_inv cs st \<Longrightarrow> groups_inv (cs @ ds) (fold group_certificate ds st)"
proof (induction ds arbitrary: cs st)
  case Nil
  then show ?case by simp
next
  case (Cons d ds)
  from Cons.IH [OF groups_inv_step [OF Cons.prems]] show ?case by simp
qed

lemma groupCertificates_eq:
  "groupCertificates cs =
     map (group_for (sort_key cert_key cs)) (fingerprints (sort_key cert_key cs))"
proof -
  have "groups_inv [] ([], Map.empty)" by (simp add: groups_inv_def fingerprints_def)
  from groups_inv_fold [OF this, of "sort_key cert_key cs"] show ?thesis
    by (simp add: groupCertificates_def groups_inv_def sort_certificates)
qed

lemma mset_partition:
  assumes "distinct fs" and "f ` set cs = set fs"
  shows "mset (concat (map (\<lambda>v. filter (\<lambda>c. f c = v) cs) fs)) = mset cs"
proof -
  have "count (mset (concat (map (\<lambda>v. filter (\<lambda>c. f c = v) cs) vs))) x =
      (if f x \<in> set vs then count (mset cs) x else 0)" if "distinct vs" for vs x
    using that by (induction vs) auto
  from this [OF assms(1)] show ?thesis
  proof (intro multiset_eqI)
    fix x
    have "count (mset cs) x = 0" if "f x \<notin> set fs"
      using that assms(2) by (metis count_mset_0_iff image_eqI)
    with \<open>\<And>x. count (mset (concat (map (\<lambda>v. filter (\<lambda>c. f c = v) cs) fs))) x =
        (if f x \<in> set fs then count (mset cs) x else 0)\<close>
    show "count (mset (concat (map (\<lambda>v. filter (\<lambda>c. f c = v) cs) fs))) x = count (mset cs) x"
      by simp
  qed
qed

text \<open>The first certificates with each fingerprint, in the order of the list.\<close>

lemma subseq_sorted: "subseq xs ys \<Longrightarrow> sorted ys \<Longrightarrow> sorted xs" for xs :: "'a::linorder list"
  by (induction rule: list_emb.induct) (auto elim: list_emb_set)

lemma firsts_subseq: "subseq (map (\<lambda>f. hd (same_fingerprint f cs)) (fingerprints cs)) cs"
proof (induction cs rule: rev_induct)
  case (snoc c cs)
  have old: "map (\<lambda>f. hd (same_fingerprint f (cs @ [c]))) (fingerprints cs) =
      map (\<lambda>f. hd (same_fingerprint f cs)) (fingerprints cs)"
    using same_fingerprint_in [of _ cs] by (intro map_cong refl) (auto simp: same_fingerprint_def)
  show ?case
  proof (cases "cert_SHA256Fingerprint c \<in> cert_SHA256Fingerprint ` set cs")
    case True
    then have "fingerprints (cs @ [c]) = fingerprints cs" by (simp add: fingerprints_snoc)
    then show ?thesis using old list_emb_prefix [OF snoc] by (simp only:)
  next
    case False
    have hd: "hd (same_fingerprint (cert_SHA256Fingerprint c) (cs @ [c])) = c"
      using same_fingerprint_empty [OF False] by (simp add: same_fingerprint_def)
    have "fingerprints (cs @ [c]) = fingerprints cs @ [cert_SHA256Fingerprint c]"
      using False by (simp add: fingerprints_snoc)
    then show ?thesis
      using old hd list_emb_append_mono [OF snoc, of "[c]" "[c]"] by (simp only: map_append list.map)
  qed
qed (simp add: fingerprints_def)

text \<open>
  C25: grouping loses and invents nothing: the groups have different fingerprints, their locations
  together are those of all certificates, every location of a group is that of a certificate
  with the group's fingerprint, in report order, and the certificate shown for a group is
  the one at its first location. The groups come in the order of their first locations: their
  certificates are a subsequence of the sorted certificates, and so sorted by path, entries
  and position.
\<close>

theorem groups_partition:
  "distinct (map (cert_SHA256Fingerprint \<circ> gr_Certificate) (groupCertificates cs)) \<and>
   mset (concat (map gr_Locations (groupCertificates cs))) = mset (map location_of cs) \<and>
   list_all (\<lambda>g. gr_Locations g =
       map location_of (same_fingerprint (cert_SHA256Fingerprint (gr_Certificate g)) (sort_key cert_key cs)) \<and>
       gr_Locations g \<noteq> [] \<and> location_of (gr_Certificate g) = hd (gr_Locations g))
     (groupCertificates cs) \<and>
   subseq (map gr_Certificate (groupCertificates cs)) (sort_key cert_key cs) \<and>
   sorted (map (cert_key \<circ> gr_Certificate) (groupCertificates cs))"
proof -
  let ?cs = "sort_key cert_key cs" and ?fs = "fingerprints (sort_key cert_key cs)"
  have hd: "same_fingerprint f ?cs \<noteq> []" "cert_SHA256Fingerprint (hd (same_fingerprint f ?cs)) = f"
    if "f \<in> set ?fs" for f
  proof -
    from that show ne: "same_fingerprint f ?cs \<noteq> []"
      using same_fingerprint_in [of f ?cs] by simp
    then have "hd (same_fingerprint f ?cs) \<in> set (same_fingerprint f ?cs)" by simp
    then show "cert_SHA256Fingerprint (hd (same_fingerprint f ?cs)) = f"
      by (simp add: same_fingerprint_def del: hd_in_set)
  qed
  have "map (cert_SHA256Fingerprint \<circ> gr_Certificate) (groupCertificates cs) = ?fs"
    unfolding groupCertificates_eq map_map
    by (rule map_idI) (simp add: group_for_def hd(2))
  then have d: "distinct (map (cert_SHA256Fingerprint \<circ> gr_Certificate) (groupCertificates cs))"
    using distinct_fingerprints [of ?cs] by simp
  have "concat (map gr_Locations (groupCertificates cs)) =
      map location_of (concat (map (\<lambda>v. filter (\<lambda>c. cert_SHA256Fingerprint c = v) ?cs) ?fs))"
    by (simp add: groupCertificates_eq map_concat comp_def group_for_def same_fingerprint_def)
  moreover have "mset (concat (map (\<lambda>v. filter (\<lambda>c. cert_SHA256Fingerprint c = v) ?cs) ?fs)) = mset cs"
    using mset_partition [of ?fs cert_SHA256Fingerprint ?cs] by simp
  ultimately have m: "mset (concat (map gr_Locations (groupCertificates cs))) = mset (map location_of cs)"
    by simp
  have "list_all (\<lambda>g. gr_Locations g =
       map location_of (same_fingerprint (cert_SHA256Fingerprint (gr_Certificate g)) ?cs) \<and>
       gr_Locations g \<noteq> [] \<and> location_of (gr_Certificate g) = hd (gr_Locations g)) (groupCertificates cs)"
    using hd by (auto simp: groupCertificates_eq list_all_iff group_for_def hd_map)
  moreover have sub: "subseq (map gr_Certificate (groupCertificates cs)) ?cs"
    using firsts_subseq [of ?cs] by (simp add: groupCertificates_eq comp_def group_for_def)
  moreover have "sorted (map cert_key (map gr_Certificate (groupCertificates cs)))"
    using subseq_sorted [OF subseq_map [OF sub, of cert_key]] by simp
  ultimately show ?thesis using d m by simp
qed

section \<open>The identity summary\<close>

text \<open>The statement \<^verbatim>\<open>identityCounts[fingerprint]++\<close>.\<close>

fun count_identity :: "string \<Rightarrow> (string \<times> int) list \<Rightarrow> (string \<times> int) list" where
  "count_identity f [] = [(f, 1)]"
| "count_identity f ((g, n) # counts) = (if g = f then (g, n + 1) # counts else (g, n) # count_identity f counts)"

definition identity_counts :: "certificate list \<Rightarrow> (string \<times> int) list" where
  "identity_counts cs = fold (\<lambda>c. count_identity (cert_SHA256Fingerprint c)) cs []"

lemma count_identity_map:
  "distinct fs \<Longrightarrow> count_identity f (map (\<lambda>g. (g, n g)) fs) =
     (if f \<in> set fs then map (\<lambda>g. (g, if g = f then n g + 1 else n g)) fs
      else map (\<lambda>g. (g, n g)) fs @ [(f, 1)])"
  by (induction fs) auto

lemma identity_counts_eq:
  "identity_counts cs = map (\<lambda>f. (f, int (length (same_fingerprint f cs)))) (fingerprints cs)"
proof (induction cs rule: rev_induct)
  case Nil
  then show ?case by (simp add: identity_counts_def fingerprints_def)
next
  case (snoc c cs)
  have "same_fingerprint f (cs @ [c]) =
      same_fingerprint f cs @ (if cert_SHA256Fingerprint c = f then [c] else [])" for f
    by (simp add: same_fingerprint_def)
  moreover have "identity_counts (cs @ [c]) = count_identity (cert_SHA256Fingerprint c) (identity_counts cs)"
    by (simp add: identity_counts_def)
  ultimately show ?case
    using snoc.IH same_fingerprint_empty [of "cert_SHA256Fingerprint c" cs]
    by (auto simp: count_identity_map fingerprints_snoc)
qed

lemma summarize_eq:
  "summarizeCertificateIdentities counts =
     \<lparr>id_Matched = sum_list (map snd counts), id_Unique = int (length counts),
      id_DuplicateOccurrences = sum_list (map (\<lambda>(_, n). if n > 1 then n - 1 else 0) counts)\<rparr>"
proof -
  have "fold (\<lambda>(_, count) summary.
         let summary = summary\<lparr>id_Matched := id_Matched summary + count\<rparr>
         in if count > 1
            then summary\<lparr>id_DuplicateOccurrences := id_DuplicateOccurrences summary + (count - 1)\<rparr>
            else summary) counts \<lparr>id_Matched = a, id_Unique = u, id_DuplicateOccurrences = d\<rparr> =
      \<lparr>id_Matched = a + sum_list (map snd counts), id_Unique = u,
       id_DuplicateOccurrences = d + sum_list (map (\<lambda>(_, n). if n > 1 then n - 1 else 0) counts)\<rparr>" for a u d
    by (induction counts arbitrary: a d) (auto simp: Let_def)
  then show ?thesis by (simp add: summarizeCertificateIdentities_def)
qed

lemma sum_list_mset: "mset xs = mset ys \<Longrightarrow> sum_list (map f xs) = sum_list (map f ys :: int list)"
  by (metis mset_map sum_mset_sum_list)

lemma sum_list_int: "sum_list (map (\<lambda>x. int (f x)) xs) = int (sum_list (map f xs))"
  by (induction xs) simp_all

lemma same_fingerprint_sorted:
  "length (same_fingerprint f (sort_key cert_key cs)) = length (same_fingerprint f cs)"
  unfolding same_fingerprint_def by (metis mset_filter mset_sort size_mset)

lemma fingerprints_sorted: "mset (fingerprints (sort_key cert_key cs)) = mset (fingerprints cs)"
  by (simp add: set_eq_iff_mset_eq_distinct [symmetric])

lemma sum_filter_if:
  "sum_list (map (\<lambda>x. int (n x) - 1) (filter (\<lambda>x. n x > 1) xs)) =
     sum_list (map (\<lambda>x. if int (n x) > 1 then int (n x) - 1 else 0) xs)"
  by (induction xs) auto

text \<open>
  C26: the summary printed at the end agrees with the groups: as many unique identities as groups,
  as many matches as certificates, and the duplicate occurrences are the locations beyond
  the first of the groups that \<^verbatim>\<open>-duplicates\<close> prints.
\<close>

theorem summary_matches_groups:
  "summarizeCertificateIdentities (identity_counts cs) =
     \<lparr>id_Matched = int (length cs), id_Unique = int (length (groupCertificates cs)),
      id_DuplicateOccurrences =
        sum_list (map (\<lambda>g. int (length (gr_Locations g)) - 1) (duplicateCertificateGroups (groupCertificates cs)))\<rparr>"
proof -
  let ?s = "sort_key cert_key cs" and ?n = "\<lambda>f. length (same_fingerprint f cs)"
  have len: "length (gr_Locations (group_for ?s f)) = ?n f" for f
    by (simp add: group_for_def same_fingerprint_sorted)
  have "length (concat (map (\<lambda>v. filter (\<lambda>c. cert_SHA256Fingerprint c = v) cs) (fingerprints cs))) = length cs"
    using mset_partition [of "fingerprints cs" cert_SHA256Fingerprint cs] by (metis distinct_fingerprints set_fingerprints size_mset)
  then have matched: "sum_list (map (\<lambda>f. int (?n f)) (fingerprints cs)) = int (length cs)"
    by (simp add: length_concat same_fingerprint_def comp_def sum_list_int)
  have unique: "length (fingerprints cs) = length (groupCertificates cs)"
    using fingerprints_sorted [of cs] by (metis groupCertificates_eq length_map size_mset)
  have "sum_list (map (\<lambda>g. int (length (gr_Locations g)) - 1) (duplicateCertificateGroups (groupCertificates cs))) =
      sum_list (map (\<lambda>f. if int (?n f) > 1 then int (?n f) - 1 else 0) (fingerprints ?s))"
    using sum_filter_if [of ?n "fingerprints ?s"]
    by (simp add: groupCertificates_eq duplicateCertificateGroups_def filter_map comp_def len)
  also have "\<dots> = sum_list (map (\<lambda>f. if int (?n f) > 1 then int (?n f) - 1 else 0) (fingerprints cs))"
    by (rule sum_list_mset) (rule fingerprints_sorted)
  finally show ?thesis
    using matched unique by (simp add: summarize_eq identity_counts_eq comp_def)
qed

text \<open>Two orders of two findings at different paths.\<close>

definition sample_finding :: "string \<Rightarrow> certificate" where
  "sample_finding path = \<lparr>cert_Path = path, cert_Index = 0, cert_Subject = [], cert_Issuer = [],
     cert_SerialNumber = [], cert_IsCA = False, cert_SelfSigned = False, cert_SANs = [], cert_KeyUsage = [],
     cert_ExtendedKeyUsage = [], cert_ExtendedKeyUsageUnrestricted = False, cert_PublicKeyAlgorithm = [],
     cert_PublicKeyBits = 0, cert_PublicKeyCurve = [], cert_SignatureAlgorithm = [], cert_SHA1Fingerprint = [],
     cert_SHA256Fingerprint = ''00'', cert_SPKISHA256Fingerprint = [], cert_NotBefore = 0, cert_NotAfter = 9,
     cert_Keystore = None, cert_Verification = None, cert_ArchiveEntries = [], cert_dnsNames = [],
     cert_ipAddresses = [], cert_parsed = None\<rparr>"

lemma sortReport_deterministic_witness:
  "sortReport (empty_report\<lparr>rp_Certificates := [sample_finding ''b'', sample_finding ''a'']\<rparr>) =
   sortReport (empty_report\<lparr>rp_Certificates := [sample_finding ''a'', sample_finding ''b'']\<rparr>)"
  by (rule sortReport_deterministic) (simp_all add: empty_report_def cert_key_def sample_finding_def)

end
