(* ===== verification/Pipeline.thy ===== *)
theory Pipeline
  imports ScanFile Report
begin

text \<open>
  The concurrent scan (\<^verbatim>\<open>Scan\<close>, \<^verbatim>\<open>worker\<close>, \<^verbatim>\<open>queuePath\<close>, \<^verbatim>\<open>sendOutcome\<close>, scanner.go): a
  discovery goroutine that queues paths and reports errors, workers that scan files, a
  goroutine that closes the outcomes when the workers are done, and the collector that
  builds the report. A step is one communication or one local action of one of them; the
  context can be cancelled at any time.
\<close>

section \<open>The state\<close>

text \<open>What the discovery sends: a path for the workers, or an error for the collector.\<close>

datatype disc_item = DJob string | DErr file_error

datatype worker_state = WIdle | WScanning string | WHolding outcome | WExited

record progress_counters =
  pc_filesDiscovered :: int
  pc_filesScanned :: int
  pc_filesCapped :: int
  pc_archiveEntriesDiscovered :: int
  pc_archiveEntriesScanned :: int
  pc_archiveEntriesCapped :: int
  pc_certificatesFound :: int
  pc_pkcs12Encrypted :: int
  pc_scanErrors :: int
  pc_discoveryComplete :: bool

text \<open>
  \<open>pl_announced\<close> tells that the first item of the discovery is a path that \<^verbatim>\<open>queuePath\<close> has
  counted and not yet sent. \<open>pl_onCertificate\<close> and \<open>pl_onEncrypted\<close> are the calls of the
  callbacks. \<open>pl_result\<close> is what \<^verbatim>\<open>Scan\<close> has returned.
\<close>

record pipeline =
  pl_todo :: "disc_item list"
  pl_announced :: bool
  pl_jobs :: "string list"
  pl_jobsClosed :: bool
  pl_workers :: "worker_state list"
  pl_outcomesClosed :: bool
  pl_report :: report
  pl_counters :: progress_counters
  pl_onCertificate :: "certificate list"
  pl_onEncrypted :: "pkcs12_encrypted_content list"
  pl_cancelled :: bool
  pl_panicked :: bool
  pl_result :: "report go_result option"

record pipeline_env =
  pe_options :: options
  pe_scan :: "string \<Rightarrow> outcome \<times> (int \<times> int \<times> int) list"

definition jobsCapacity :: nat where
  "jobsCapacity = 1024"

definition context_Canceled :: go_error where
  "context_Canceled = ErrSentinel ''context canceled''"

definition zero_counters :: progress_counters where
  "zero_counters = \<lparr>pc_filesDiscovered = 0, pc_filesScanned = 0, pc_filesCapped = 0,
     pc_archiveEntriesDiscovered = 0, pc_archiveEntriesScanned = 0, pc_archiveEntriesCapped = 0,
     pc_certificatesFound = 0, pc_pkcs12Encrypted = 0, pc_scanErrors = 0, pc_discoveryComplete = False\<rparr>"

text \<open>The state after the goroutines have been started for the items of the discovery.\<close>

definition start_pipeline :: "options \<Rightarrow> disc_item list \<Rightarrow> pipeline" where
  "start_pipeline options items =
     \<lparr>pl_todo = items, pl_announced = False, pl_jobs = [], pl_jobsClosed = False,
      pl_workers = replicate (nat (opt_Workers options)) WIdle, pl_outcomesClosed = False,
      pl_report = empty_report, pl_counters = zero_counters, pl_onCertificate = [], pl_onEncrypted = [],
      pl_cancelled = False, pl_panicked = False, pl_result = None\<rparr>"

section \<open>The actions\<close>

text \<open>The outcome a worker sends for a path, and the counts the archive callback adds.\<close>

definition worker_outcome :: "pipeline_env \<Rightarrow> string \<Rightarrow> outcome" where
  "worker_outcome env path =
     (let result = fst (pe_scan env path) in
      result\<lparr>oc_scanned := True, oc_err := map_option (\<lambda>e. e\<lparr>fe_Path := path\<rparr>) (oc_err result)\<rparr>)"

definition add_progress :: "(int \<times> int \<times> int) list \<Rightarrow> progress_counters \<Rightarrow> progress_counters" where
  "add_progress calls counters =
     fold (\<lambda>(discovered, scanned, capped) c.
       c\<lparr>pc_archiveEntriesDiscovered := pc_archiveEntriesDiscovered c + discovered,
         pc_archiveEntriesScanned := pc_archiveEntriesScanned c + scanned,
         pc_archiveEntriesCapped := pc_archiveEntriesCapped c + capped\<rparr>) calls counters"

text \<open>The outcome of an error of the discovery.\<close>

definition reported_error :: "file_error \<Rightarrow> outcome" where
  "reported_error e = empty_outcome\<lparr>oc_err := Some e\<rparr>"

text \<open>What the collector does with an outcome.\<close>

definition collect_counters :: "outcome \<Rightarrow> progress_counters \<Rightarrow> progress_counters" where
  "collect_counters result c =
     (let c = (if oc_scanned result
           then c\<lparr>pc_filesScanned := pc_filesScanned c + 1,
                  pc_filesCapped := pc_filesCapped c + (if oc_capped result then 1 else 0),
                  pc_certificatesFound := pc_certificatesFound c + int (length (oc_certificates result)),
                  pc_pkcs12Encrypted := pc_pkcs12Encrypted c + int (length (oc_pkcs12Encrypted result))\<rparr>
           else c)
      in if oc_err result \<noteq> None then c\<lparr>pc_scanErrors := pc_scanErrors c + 1\<rparr> else c)"

definition collect_report :: "options \<Rightarrow> outcome \<Rightarrow> report \<Rightarrow> report" where
  "collect_report options result r =
     \<lparr>rp_Certificates = rp_Certificates r @ (if \<not> opt_DiscardCertificates options then oc_certificates result else []),
      rp_PKCS12Encrypted = rp_PKCS12Encrypted r @
        (if \<not> opt_DiscardPKCS12Encrypted options then oc_pkcs12Encrypted result else []),
      rp_Errors = rp_Errors r @ option_list (oc_err result)\<rparr>"

definition collect :: "options \<Rightarrow> outcome \<Rightarrow> pipeline \<Rightarrow> pipeline" where
  "collect options result st =
     st\<lparr>pl_report := collect_report options result (pl_report st),
        pl_counters := collect_counters result (pl_counters st),
        pl_onCertificate := pl_onCertificate st @ oc_certificates result,
        pl_onEncrypted := pl_onEncrypted st @ oc_pkcs12Encrypted result\<rparr>"

definition count_discovered :: "int \<Rightarrow> pipeline \<Rightarrow> pipeline" where
  "count_discovered n st =
     st\<lparr>pl_counters := (pl_counters st)\<lparr>pc_filesDiscovered := pc_filesDiscovered (pl_counters st) + n\<rparr>\<rparr>"

section \<open>The steps\<close>

datatype event =
    DiscAnnounce | DiscSend | DiscError | DiscDrop | DiscStop | DiscEnd
  | WorkerTake nat | WorkerScan nat | WorkerSend nat | WorkerQuit nat
  | CloseOutcomes | CollectEnd | CollectCancel | Cancel

text \<open>
  The discovery: \<^verbatim>\<open>queuePath\<close> counts a path and sends it when the channel has room;
  \<^verbatim>\<open>reportError\<close> hands an error to the collector, and panics when the channel of the
  outcomes has been closed. When the context is cancelled it can give up an item, or all.
\<close>

fun discovery_step :: "pipeline_env \<Rightarrow> event \<Rightarrow> pipeline \<Rightarrow> pipeline option" where
  "discovery_step env DiscAnnounce st =
     (case pl_todo st of
        DJob path # _ \<Rightarrow> if pl_announced st then None
          else Some (count_discovered 1 (st\<lparr>pl_announced := True\<rparr>))
      | _ \<Rightarrow> None)"
| "discovery_step env DiscSend st =
     (case pl_todo st of
        DJob path # todo \<Rightarrow> if pl_announced st \<and> length (pl_jobs st) < jobsCapacity
          then Some (st\<lparr>pl_todo := todo, pl_announced := False, pl_jobs := pl_jobs st @ [path]\<rparr>)
          else None
      | _ \<Rightarrow> None)"
| "discovery_step env DiscError st =
     (case pl_todo st of
        DErr e # todo \<Rightarrow>
          if pl_outcomesClosed st then Some (st\<lparr>pl_todo := todo, pl_panicked := True\<rparr>)
          else if pl_result st = None
          then Some (collect (pe_options env) (reported_error e) (st\<lparr>pl_todo := todo\<rparr>))
          else None
      | _ \<Rightarrow> None)"
| "discovery_step env DiscDrop st =
     (case pl_todo st of
        DErr e # todo \<Rightarrow> if pl_cancelled st then Some (st\<lparr>pl_todo := todo\<rparr>) else None
      | _ \<Rightarrow> None)"
| "discovery_step env DiscStop st =
     (if pl_cancelled st \<and> pl_todo st \<noteq> []
      then Some (count_discovered (if pl_announced st then -1 else 0) (st\<lparr>pl_todo := [], pl_announced := False\<rparr>))
      else None)"
| "discovery_step env DiscEnd st =
     (if pl_todo st = [] \<and> \<not> pl_jobsClosed st
      then Some (st\<lparr>pl_jobsClosed := True, pl_counters := (pl_counters st)\<lparr>pc_discoveryComplete := True\<rparr>\<rparr>)
      else None)"
| "discovery_step env _ st = None"

definition set_worker :: "nat \<Rightarrow> worker_state \<Rightarrow> pipeline \<Rightarrow> pipeline" where
  "set_worker i w st = st\<lparr>pl_workers := (pl_workers st)[i := w]\<rparr>"

text \<open>
  A worker takes a path, scans it, and hands the outcome to the collector; it ends when the paths
  are closed and taken, or when the context is cancelled while it waits.
\<close>

fun worker_step :: "pipeline_env \<Rightarrow> event \<Rightarrow> pipeline \<Rightarrow> pipeline option" where
  "worker_step env (WorkerTake i) st =
     (case pl_jobs st of
        path # jobs \<Rightarrow> if i < length (pl_workers st) \<and> pl_workers st ! i = WIdle
          then Some (set_worker i (WScanning path) (st\<lparr>pl_jobs := jobs\<rparr>)) else None
      | [] \<Rightarrow> None)"
| "worker_step env (WorkerScan i) st =
     (if i < length (pl_workers st)
      then (case pl_workers st ! i of
          WScanning path \<Rightarrow> Some (set_worker i (WHolding (worker_outcome env path))
            (st\<lparr>pl_counters := add_progress (snd (pe_scan env path)) (pl_counters st)\<rparr>))
        | _ \<Rightarrow> None)
      else None)"
| "worker_step env (WorkerSend i) st =
     (if i < length (pl_workers st) \<and> pl_result st = None
      then (case pl_workers st ! i of
          WHolding result \<Rightarrow> Some (collect (pe_options env) result (set_worker i WIdle st))
        | _ \<Rightarrow> None)
      else None)"
| "worker_step env (WorkerQuit i) st =
     (if i < length (pl_workers st)
      then (case pl_workers st ! i of
          WIdle \<Rightarrow> if pl_cancelled st \<or> pl_jobs st = [] \<and> pl_jobsClosed st
            then Some (set_worker i WExited st) else None
        | WHolding _ \<Rightarrow> if pl_cancelled st then Some (set_worker i WExited st) else None
        | _ \<Rightarrow> None)
      else None)"
| "worker_step env _ st = None"

text \<open>
  The outcomes are closed when all workers have ended. The collector returns the sorted report
  when they are closed, and the error of the context when it is cancelled; when both hold,
  either can happen.
\<close>

fun main_step :: "event \<Rightarrow> pipeline \<Rightarrow> pipeline option" where
  "main_step CloseOutcomes st =
     (if list_all (\<lambda>w. w = WExited) (pl_workers st) \<and> \<not> pl_outcomesClosed st
      then Some (st\<lparr>pl_outcomesClosed := True\<rparr>) else None)"
| "main_step CollectEnd st =
     (if pl_outcomesClosed st \<and> pl_result st = None
      then Some (st\<lparr>pl_report := sortReport (pl_report st), pl_result := Some (Inr (sortReport (pl_report st)))\<rparr>)
      else None)"
| "main_step CollectCancel st =
     (if pl_cancelled st \<and> pl_result st = None
      then Some (st\<lparr>pl_result := Some (Inl context_Canceled)\<rparr>) else None)"
| "main_step Cancel st = (if \<not> pl_cancelled st then Some (st\<lparr>pl_cancelled := True\<rparr>) else None)"
| "main_step _ st = None"

definition pipeline_step :: "pipeline_env \<Rightarrow> event \<Rightarrow> pipeline \<Rightarrow> pipeline option" where
  "pipeline_step env ev st =
     (if pl_panicked st then None
      else (case ev of
          WorkerTake _ \<Rightarrow> worker_step env ev st | WorkerScan _ \<Rightarrow> worker_step env ev st
        | WorkerSend _ \<Rightarrow> worker_step env ev st | WorkerQuit _ \<Rightarrow> worker_step env ev st
        | CloseOutcomes \<Rightarrow> main_step ev st | CollectEnd \<Rightarrow> main_step ev st
        | CollectCancel \<Rightarrow> main_step ev st | Cancel \<Rightarrow> main_step ev st
        | _ \<Rightarrow> discovery_step env ev st))"

inductive pipeline_run :: "pipeline_env \<Rightarrow> pipeline \<Rightarrow> event list \<Rightarrow> pipeline \<Rightarrow> bool" for env where
  run_Nil: "pipeline_run env st [] st"
| run_snoc: "pipeline_run env st evs st' \<Longrightarrow> pipeline_step env ev st' = Some st'' \<Longrightarrow>
    pipeline_run env st (evs @ [ev]) st''"

inductive_cases run_NilE: "pipeline_run env st [] st'"
inductive_cases run_snocE: "pipeline_run env st (evs @ [ev]) st'"

text \<open>The same as a function, to evaluate runs.\<close>

fun run_events :: "pipeline_env \<Rightarrow> event list \<Rightarrow> pipeline \<Rightarrow> pipeline option" where
  "run_events env [] st = Some st"
| "run_events env (ev # evs) st =
     (case pipeline_step env ev st of None \<Rightarrow> None | Some st' \<Rightarrow> run_events env evs st')"

end
