(* ===== verification/PipelineFacts.thy ===== *)
theory PipelineFacts
  imports Pipeline
begin

text \<open>
  What every run of the concurrent scan keeps: no outcome is lost or invented, the counters count
  what was collected, the channels are closed in order, and every step uses something up. From
  these: a scan that is not cancelled returns the complete report, whatever the interleaving,
  and always returns. The last section is about what cancelling a scan can do.
\<close>

section \<open>What is on its way\<close>

fun item_outcome :: "pipeline_env \<Rightarrow> disc_item \<Rightarrow> outcome" where
  "item_outcome env (DJob path) = worker_outcome env path"
| "item_outcome env (DErr e) = reported_error e"

fun worker_pending :: "pipeline_env \<Rightarrow> worker_state \<Rightarrow> outcome multiset" where
  "worker_pending env (WScanning path) = {#worker_outcome env path#}"
| "worker_pending env (WHolding result) = {#result#}"
| "worker_pending env _ = {#}"

definition expected :: "pipeline_env \<Rightarrow> disc_item list \<Rightarrow> outcome multiset" where
  "expected env items = mset (map (item_outcome env) items)"

definition outstanding :: "pipeline_env \<Rightarrow> pipeline \<Rightarrow> outcome multiset" where
  "outstanding env st = expected env (pl_todo st) + mset (map (worker_outcome env) (pl_jobs st)) +
     sum_list (map (worker_pending env) (pl_workers st))"

text \<open>The outcome a step hands to the collector.\<close>

fun collected :: "event \<Rightarrow> pipeline \<Rightarrow> outcome option" where
  "collected DiscError st =
     (case pl_todo st of DErr e # _ \<Rightarrow> if pl_outcomesClosed st then None else Some (reported_error e) | _ \<Rightarrow> None)"
| "collected (WorkerSend i) st =
     (case pl_workers st ! i of WHolding result \<Rightarrow> Some result | _ \<Rightarrow> None)"
| "collected _ st = None"

lemma sum_list_list_update:
  fixes f :: "'a \<Rightarrow> 'b::cancel_comm_monoid_add"
  assumes "i < length xs"
  shows "sum_list (map f (xs[i := y])) + f (xs ! i) = sum_list (map f xs) + f y"
  using assms
proof (induction xs arbitrary: i)
  case (Cons x xs)
  then show ?case by (cases i) (auto simp: ac_simps)
qed simp

lemma workers_update:
  assumes "i < length ws"
  shows "sum_list (map (worker_pending env) (ws[i := w])) + worker_pending env (ws ! i) =
    sum_list (map (worker_pending env) ws) + worker_pending env w"
  by (rule sum_list_list_update) (rule assms)

lemma pipeline_step_cases:
  assumes "pipeline_step env ev st = Some st'"
  shows "\<not> pl_panicked st" "discovery_step env ev st = Some st' \<or> worker_step env ev st = Some st' \<or> main_step ev st = Some st'"
  using assms by (auto simp: pipeline_step_def split: if_splits event.splits)

lemma collect_simps [simp]:
  "pl_todo (collect opts r st) = pl_todo st" "pl_announced (collect opts r st) = pl_announced st"
  "pl_jobs (collect opts r st) = pl_jobs st" "pl_jobsClosed (collect opts r st) = pl_jobsClosed st"
  "pl_workers (collect opts r st) = pl_workers st" "pl_outcomesClosed (collect opts r st) = pl_outcomesClosed st"
  "pl_cancelled (collect opts r st) = pl_cancelled st" "pl_panicked (collect opts r st) = pl_panicked st"
  "pl_result (collect opts r st) = pl_result st"
  "pl_report (collect opts r st) = collect_report opts r (pl_report st)"
  "pl_counters (collect opts r st) = collect_counters r (pl_counters st)"
  "pl_onCertificate (collect opts r st) = pl_onCertificate st @ oc_certificates r"
  by (simp_all add: collect_def)

lemma count_discovered_simps [simp]:
  "pl_todo (count_discovered n st) = pl_todo st" "pl_announced (count_discovered n st) = pl_announced st"
  "pl_jobs (count_discovered n st) = pl_jobs st" "pl_jobsClosed (count_discovered n st) = pl_jobsClosed st"
  "pl_workers (count_discovered n st) = pl_workers st" "pl_outcomesClosed (count_discovered n st) = pl_outcomesClosed st"
  "pl_cancelled (count_discovered n st) = pl_cancelled st" "pl_panicked (count_discovered n st) = pl_panicked st"
  "pl_result (count_discovered n st) = pl_result st" "pl_report (count_discovered n st) = pl_report st"
  "pl_onCertificate (count_discovered n st) = pl_onCertificate st"
  by (simp_all add: count_discovered_def)

lemma set_worker_simps [simp]:
  "pl_todo (set_worker i w st) = pl_todo st" "pl_announced (set_worker i w st) = pl_announced st"
  "pl_jobs (set_worker i w st) = pl_jobs st" "pl_jobsClosed (set_worker i w st) = pl_jobsClosed st"
  "pl_workers (set_worker i w st) = (pl_workers st)[i := w]"
  "pl_outcomesClosed (set_worker i w st) = pl_outcomesClosed st"
  "pl_cancelled (set_worker i w st) = pl_cancelled st" "pl_panicked (set_worker i w st) = pl_panicked st"
  "pl_result (set_worker i w st) = pl_result st" "pl_report (set_worker i w st) = pl_report st"
  "pl_counters (set_worker i w st) = pl_counters st"
  "pl_onCertificate (set_worker i w st) = pl_onCertificate st"
  by (simp_all add: set_worker_def)

lemma expected_simps [simp]:
  "expected env [] = {#}" "expected env (x # xs) = add_mset (item_outcome env x) (expected env xs)"
  by (simp_all add: expected_def)

text \<open>The steps, one by one.\<close>

lemma discovery_stepE:
  assumes "discovery_step env ev st = Some st'"
  obtains (announce) path todo where "ev = DiscAnnounce" "pl_todo st = DJob path # todo" "\<not> pl_announced st"
      "st' = count_discovered 1 (st\<lparr>pl_announced := True\<rparr>)"
    | (send) path todo where "ev = DiscSend" "pl_todo st = DJob path # todo" "pl_announced st"
      "length (pl_jobs st) < jobsCapacity"
      "st' = st\<lparr>pl_todo := todo, pl_announced := False, pl_jobs := pl_jobs st @ [path]\<rparr>"
    | (panic) e todo where "ev = DiscError" "pl_todo st = DErr e # todo" "pl_outcomesClosed st"
      "st' = st\<lparr>pl_todo := todo, pl_panicked := True\<rparr>"
    | (error) e todo where "ev = DiscError" "pl_todo st = DErr e # todo" "\<not> pl_outcomesClosed st" "pl_result st = None"
      "st' = collect (pe_options env) (reported_error e) (st\<lparr>pl_todo := todo\<rparr>)"
    | (drop) e todo where "ev = DiscDrop" "pl_todo st = DErr e # todo" "pl_cancelled st" "st' = st\<lparr>pl_todo := todo\<rparr>"
    | (stop) "ev = DiscStop" "pl_cancelled st" "pl_todo st \<noteq> []"
      "st' = count_discovered (if pl_announced st then -1 else 0) (st\<lparr>pl_todo := [], pl_announced := False\<rparr>)"
    | (finish) "ev = DiscEnd" "pl_todo st = []" "\<not> pl_jobsClosed st"
      "st' = st\<lparr>pl_jobsClosed := True, pl_counters := (pl_counters st)\<lparr>pc_discoveryComplete := True\<rparr>\<rparr>"
  using assms by (auto elim!: discovery_step.elims split: list.splits disc_item.splits if_splits)

lemma worker_stepE:
  assumes "worker_step env ev st = Some st'"
  obtains (take) i path jobs where "ev = WorkerTake i" "pl_jobs st = path # jobs" "i < length (pl_workers st)"
      "pl_workers st ! i = WIdle" "st' = set_worker i (WScanning path) (st\<lparr>pl_jobs := jobs\<rparr>)"
    | (scan) i path where "ev = WorkerScan i" "i < length (pl_workers st)" "pl_workers st ! i = WScanning path"
      "st' = set_worker i (WHolding (worker_outcome env path))
        (st\<lparr>pl_counters := add_progress (snd (pe_scan env path)) (pl_counters st)\<rparr>)"
    | (send) i result where "ev = WorkerSend i" "i < length (pl_workers st)" "pl_workers st ! i = WHolding result"
      "pl_result st = None" "st' = collect (pe_options env) result (set_worker i WIdle st)"
    | (quit) i where "ev = WorkerQuit i" "i < length (pl_workers st)" "pl_workers st ! i = WIdle"
      "pl_cancelled st \<or> pl_jobs st = [] \<and> pl_jobsClosed st" "st' = set_worker i WExited st"
    | (lose) i result where "ev = WorkerQuit i" "i < length (pl_workers st)" "pl_workers st ! i = WHolding result"
      "pl_cancelled st" "st' = set_worker i WExited st"
  using assms by (auto elim!: worker_step.elims split: list.splits if_splits worker_state.splits)

lemma main_stepE:
  assumes "main_step ev st = Some st'"
  obtains (close) "ev = CloseOutcomes" "list_all (\<lambda>w. w = WExited) (pl_workers st)" "\<not> pl_outcomesClosed st"
      "st' = st\<lparr>pl_outcomesClosed := True\<rparr>"
    | (report) "ev = CollectEnd" "pl_outcomesClosed st" "pl_result st = None"
      "st' = st\<lparr>pl_report := sortReport (pl_report st), pl_result := Some (Inr (sortReport (pl_report st)))\<rparr>"
    | (fail) "ev = CollectCancel" "pl_cancelled st" "pl_result st = None"
      "st' = st\<lparr>pl_result := Some (Inl context_Canceled)\<rparr>"
    | (cancel) "ev = Cancel" "\<not> pl_cancelled st" "st' = st\<lparr>pl_cancelled := True\<rparr>"
  using assms by (auto elim!: main_step.elims split: if_splits)

text \<open>
  A step hands what it collects from what is outstanding to the report; only a cancelled scan
  loses anything.
\<close>

lemma discovery_flow:
  assumes "discovery_step env ev st = Some st'"
  shows "mset (option_list (collected ev st)) + outstanding env st' \<subseteq># outstanding env st"
    and "pl_cancelled st' \<or> mset (option_list (collected ev st)) + outstanding env st' = outstanding env st \<or> pl_panicked st'"
    and "pl_report st' = fold (collect_report (pe_options env)) (option_list (collected ev st)) (pl_report st)"
  using assms
  by (auto simp: outstanding_def split: event.splits list.splits disc_item.splits if_splits
      elim!: discovery_step.elims)

lemma worker_flow:
  assumes "worker_step env ev st = Some st'"
  shows "mset (option_list (collected ev st)) + outstanding env st' \<subseteq># outstanding env st"
    and "pl_cancelled st' \<or> mset (option_list (collected ev st)) + outstanding env st' = outstanding env st"
    and "pl_report st' = fold (collect_report (pe_options env)) (option_list (collected ev st)) (pl_report st)"
proof -
  have "mset (option_list (collected ev st)) + outstanding env st' \<subseteq># outstanding env st \<and>
    (pl_cancelled st' \<or> mset (option_list (collected ev st)) + outstanding env st' = outstanding env st) \<and>
    pl_report st' = fold (collect_report (pe_options env)) (option_list (collected ev st)) (pl_report st)"
    using assms
  proof (cases rule: worker_stepE)
    case (take i path jobs)
    with workers_update [of i "pl_workers st" env "WScanning path"] show ?thesis by (simp add: outstanding_def)
  next
    case (scan i path)
    with workers_update [of i "pl_workers st" env "WHolding (worker_outcome env path)"] show ?thesis
      by (simp add: outstanding_def)
  next
    case (send i result)
    with workers_update [of i "pl_workers st" env WIdle] show ?thesis
      by (simp add: outstanding_def flip: add_mset_add_single)
  next
    case (quit i)
    with workers_update [of i "pl_workers st" env WExited] show ?thesis by (simp add: outstanding_def)
  next
    case (lose i result)
    with workers_update [of i "pl_workers st" env WExited] show ?thesis
      by (simp add: outstanding_def) (metis add_mset_add_single mset_subset_eq_add_left)
  qed
  then show "mset (option_list (collected ev st)) + outstanding env st' \<subseteq># outstanding env st"
    "pl_cancelled st' \<or> mset (option_list (collected ev st)) + outstanding env st' = outstanding env st"
    "pl_report st' = fold (collect_report (pe_options env)) (option_list (collected ev st)) (pl_report st)"
    by blast+
qed

lemma main_flow:
  assumes "main_step ev st = Some st'"
  shows "mset (option_list (collected ev st)) + outstanding env st' = outstanding env st"
    and "pl_report st' = (if ev = CollectEnd then sortReport (pl_report st) else pl_report st)"
    and "collected ev st = None"
  using assms by (auto simp: outstanding_def elim!: main_step.elims split: if_splits)

lemma not_main_CollectEnd:
  "discovery_step env CollectEnd st = None" "worker_step env CollectEnd st = None"
  by simp_all

lemma step_flow:
  assumes "pipeline_step env ev st = Some st'"
  shows "mset (option_list (collected ev st)) + outstanding env st' \<subseteq># outstanding env st"
    and "pl_cancelled st' \<or> pl_panicked st' \<or> mset (option_list (collected ev st)) + outstanding env st' = outstanding env st"
    and "pl_report st' = (if ev = CollectEnd then sortReport (pl_report st)
      else fold (collect_report (pe_options env)) (option_list (collected ev st)) (pl_report st))"
proof -
  have "mset (option_list (collected ev st)) + outstanding env st' \<subseteq># outstanding env st \<and>
    (pl_cancelled st' \<or> pl_panicked st' \<or> mset (option_list (collected ev st)) + outstanding env st' = outstanding env st) \<and>
    pl_report st' = (if ev = CollectEnd then sortReport (pl_report st)
      else fold (collect_report (pe_options env)) (option_list (collected ev st)) (pl_report st))"
    using pipeline_step_cases(2) [OF assms]
  proof (elim disjE)
    assume d: "discovery_step env ev st = Some st'"
    then have "ev \<noteq> CollectEnd" by auto
    with discovery_flow [OF d] show ?thesis by auto
  next
    assume w: "worker_step env ev st = Some st'"
    then have "ev \<noteq> CollectEnd" by auto
    with worker_flow [OF w] show ?thesis by auto
  next
    assume m: "main_step ev st = Some st'"
    show ?thesis using main_flow(1) [OF m, of env] main_flow(2,3) [OF m] by simp
  qed
  then show "mset (option_list (collected ev st)) + outstanding env st' \<subseteq># outstanding env st"
    "pl_cancelled st' \<or> pl_panicked st' \<or> mset (option_list (collected ev st)) + outstanding env st' = outstanding env st"
    "pl_report st' = (if ev = CollectEnd then sortReport (pl_report st)
      else fold (collect_report (pe_options env)) (option_list (collected ev st)) (pl_report st))"
    by blast+
qed

section \<open>The order of the channels\<close>

text \<open>
  The structure of the goroutines: a counted path is the next item, the paths are closed after the
  last item, a worker ends when there is nothing left or the scan is cancelled, and the
  outcomes are closed when all workers have ended.
\<close>

definition well_ordered :: "pipeline \<Rightarrow> bool" where
  "well_ordered st \<longleftrightarrow>
     pl_workers st \<noteq> [] \<and>
     (pl_announced st \<longrightarrow> (\<exists>path todo. pl_todo st = DJob path # todo)) \<and>
     (pl_jobsClosed st \<longrightarrow> pl_todo st = []) \<and>
     (WExited \<in> set (pl_workers st) \<longrightarrow> pl_cancelled st \<or> pl_jobsClosed st \<and> pl_jobs st = []) \<and>
     (pl_outcomesClosed st \<longrightarrow> list_all (\<lambda>w. w = WExited) (pl_workers st)) \<and>
     (pl_panicked st \<longrightarrow> pl_cancelled st) \<and>
     (\<forall>e. pl_result st = Some (Inl e) \<longrightarrow> pl_cancelled st) \<and>
     (\<forall>r. pl_result st = Some (Inr r) \<longrightarrow> pl_outcomesClosed st)"

lemma well_ordered_start: "1 \<le> opt_Workers options \<Longrightarrow> well_ordered (start_pipeline options items)"
  by (auto simp: well_ordered_def start_pipeline_def)

lemma all_exited_in: "ws \<noteq> [] \<Longrightarrow> list_all (\<lambda>w. w = WExited) ws \<Longrightarrow> WExited \<in> set ws"
  by (cases ws) auto

lemma discovery_ordered:
  assumes "well_ordered st" and "discovery_step env ev st = Some st'"
  shows "well_ordered st'"
  using assms(2)
proof (cases rule: discovery_stepE)
  case panic
  have "WExited \<in> set (pl_workers st)"
    using assms(1) panic(3) all_exited_in [of "pl_workers st"] by (simp add: well_ordered_def)
  with assms(1) panic show ?thesis by (auto simp: well_ordered_def)
next
  case finish
  have "\<not> pl_outcomesClosed st \<or> pl_cancelled st"
    using assms(1) finish(3) all_exited_in [of "pl_workers st"] by (auto simp: well_ordered_def)
  with assms(1) finish show ?thesis by (auto simp: well_ordered_def)
next
  case send
  with assms(1) show ?thesis by (auto simp: well_ordered_def)
qed (use assms(1) in \<open>auto simp: well_ordered_def\<close>)

lemma exited_update:
  "i < length ws \<Longrightarrow> w \<noteq> WExited \<Longrightarrow> WExited \<in> set (ws[i := w]) \<Longrightarrow> WExited \<in> set ws"
  using set_update_subset_insert [of ws i w] by auto

lemma not_all_exited: "i < length ws \<Longrightarrow> ws ! i \<noteq> WExited \<Longrightarrow> \<not> list_all (\<lambda>w. w = WExited) ws"
  by (auto simp: list_all_length)

lemma worker_ordered:
  assumes "well_ordered st" and "worker_step env ev st = Some st'"
  shows "well_ordered st'"
  using assms(2)
proof (cases rule: worker_stepE)
  case (take i path jobs)
  with assms(1) exited_update [OF take(3), of "WScanning path"] not_all_exited [OF take(3)]
  show ?thesis by (auto simp: well_ordered_def)
next
  case (scan i path)
  with assms(1) exited_update [OF scan(2), of "WHolding (worker_outcome env path)"] not_all_exited [OF scan(2)]
  show ?thesis by (auto simp: well_ordered_def)
next
  case (send i result)
  with assms(1) exited_update [OF send(2), of WIdle] not_all_exited [OF send(2)]
  show ?thesis by (auto simp: well_ordered_def)
next
  case (quit i)
  with assms(1) not_all_exited [OF quit(2)] show ?thesis by (auto simp: well_ordered_def)
next
  case (lose i result)
  with assms(1) not_all_exited [OF lose(2)] show ?thesis by (auto simp: well_ordered_def)
qed

lemma main_ordered:
  assumes "well_ordered st" and "main_step ev st = Some st'"
  shows "well_ordered st'"
  using assms(2) by (cases rule: main_stepE) (use assms(1) in \<open>auto simp: well_ordered_def\<close>)

lemma step_ordered: "well_ordered st \<Longrightarrow> pipeline_step env ev st = Some st' \<Longrightarrow> well_ordered st'"
  using pipeline_step_cases(2) discovery_ordered worker_ordered main_ordered by metis

section \<open>What has been delivered\<close>

definition report_of :: "options \<Rightarrow> outcome list \<Rightarrow> report" where
  "report_of options delivered = fold (collect_report options) delivered empty_report"

lemma report_of_snoc [simp]:
  "report_of options (delivered @ [r]) = collect_report options r (report_of options delivered)"
  by (simp add: report_of_def)

lemma report_of_fields:
  "rp_Certificates (report_of options delivered) =
     (if opt_DiscardCertificates options then [] else concat (map oc_certificates delivered))"
  "rp_PKCS12Encrypted (report_of options delivered) =
     (if opt_DiscardPKCS12Encrypted options then [] else concat (map oc_pkcs12Encrypted delivered))"
  "rp_Errors (report_of options delivered) = concat (map (option_list \<circ> oc_err) delivered)"
proof -
  have "rp_Certificates (report_of options delivered) =
     (if opt_DiscardCertificates options then [] else concat (map oc_certificates delivered)) \<and>
   rp_PKCS12Encrypted (report_of options delivered) =
     (if opt_DiscardPKCS12Encrypted options then [] else concat (map oc_pkcs12Encrypted delivered)) \<and>
   rp_Errors (report_of options delivered) = concat (map (option_list \<circ> oc_err) delivered)"
    by (induction delivered rule: rev_induct)
      (auto simp: report_of_def empty_report_def collect_report_def)
  then show "rp_Certificates (report_of options delivered) =
     (if opt_DiscardCertificates options then [] else concat (map oc_certificates delivered))"
    "rp_PKCS12Encrypted (report_of options delivered) =
     (if opt_DiscardPKCS12Encrypted options then [] else concat (map oc_pkcs12Encrypted delivered))"
    "rp_Errors (report_of options delivered) = concat (map (option_list \<circ> oc_err) delivered)"
    by blast+
qed

text \<open>The counters the collector keeps.\<close>

definition counted :: "outcome list \<Rightarrow> progress_counters \<Rightarrow> bool" where
  "counted delivered c \<longleftrightarrow>
     pc_filesScanned c = int (length (filter oc_scanned delivered)) \<and>
     pc_filesCapped c = int (length (filter (\<lambda>r. oc_scanned r \<and> oc_capped r) delivered)) \<and>
     pc_certificatesFound c = int (length (concat (map oc_certificates (filter oc_scanned delivered)))) \<and>
     pc_pkcs12Encrypted c = int (length (concat (map oc_pkcs12Encrypted (filter oc_scanned delivered)))) \<and>
     pc_scanErrors c = int (length (filter (\<lambda>r. oc_err r \<noteq> None) delivered))"

lemma counted_snoc: "counted delivered c \<Longrightarrow> counted (delivered @ [r]) (collect_counters r c)"
  by (auto simp: counted_def collect_counters_def Let_def)

lemma counted_cong:
  "pc_filesScanned c' = pc_filesScanned c \<Longrightarrow> pc_filesCapped c' = pc_filesCapped c \<Longrightarrow>
   pc_certificatesFound c' = pc_certificatesFound c \<Longrightarrow> pc_pkcs12Encrypted c' = pc_pkcs12Encrypted c \<Longrightarrow>
   pc_scanErrors c' = pc_scanErrors c \<Longrightarrow> counted delivered c' = counted delivered c"
  by (simp add: counted_def)

lemma add_progress_simps [simp]:
  "pc_filesDiscovered (add_progress calls c) = pc_filesDiscovered c"
  "pc_filesScanned (add_progress calls c) = pc_filesScanned c"
  "pc_filesCapped (add_progress calls c) = pc_filesCapped c"
  "pc_certificatesFound (add_progress calls c) = pc_certificatesFound c"
  "pc_pkcs12Encrypted (add_progress calls c) = pc_pkcs12Encrypted c"
  "pc_scanErrors (add_progress calls c) = pc_scanErrors c"
  by (induction calls arbitrary: c) (auto simp: add_progress_def)

lemma count_discovered_counters [simp]:
  "pc_filesDiscovered (pl_counters (count_discovered n st)) = pc_filesDiscovered (pl_counters st) + n"
  "counted delivered (pl_counters (count_discovered n st)) = counted delivered (pl_counters st)"
  "pc_filesScanned (pl_counters (count_discovered n st)) = pc_filesScanned (pl_counters st)"
  by (simp_all add: count_discovered_def counted_def)

lemma counted_simps [simp]:
  "counted delivered (c\<lparr>pc_discoveryComplete := b\<rparr>) = counted delivered c"
  "counted delivered (add_progress calls c) = counted delivered c"
  by (simp_all add: counted_def)

lemma collect_counters_simps [simp]:
  "pc_filesDiscovered (collect_counters r c) = pc_filesDiscovered c"
  "pc_filesScanned (collect_counters r c) = pc_filesScanned c + (if oc_scanned r then 1 else 0)"
  by (simp_all add: collect_counters_def Let_def)

lemma step_collects:
  assumes "pipeline_step env ev st = Some st'"
  shows "counted delivered (pl_counters st) \<Longrightarrow>
      counted (delivered @ option_list (collected ev st)) (pl_counters st')"
    and "pl_onCertificate st' = pl_onCertificate st @ concat (map oc_certificates (option_list (collected ev st)))"
proof -
  have "(counted delivered (pl_counters st) \<longrightarrow>
      counted (delivered @ option_list (collected ev st)) (pl_counters st')) \<and>
    pl_onCertificate st' = pl_onCertificate st @ concat (map oc_certificates (option_list (collected ev st)))"
    using pipeline_step_cases(2) [OF assms]
  proof (elim disjE)
    assume "discovery_step env ev st = Some st'"
    then show ?thesis
      by (cases rule: discovery_stepE) (auto simp: counted_snoc reported_error_def)
  next
    assume "worker_step env ev st = Some st'"
    then show ?thesis
      by (cases rule: worker_stepE) (auto simp: counted_snoc)
  next
    assume "main_step ev st = Some st'"
    then show ?thesis by (cases rule: main_stepE) auto
  qed
  then show "counted delivered (pl_counters st) \<Longrightarrow>
      counted (delivered @ option_list (collected ev st)) (pl_counters st')"
    "pl_onCertificate st' = pl_onCertificate st @ concat (map oc_certificates (option_list (collected ev st)))"
    by blast+
qed

text \<open>
  The invariant: there is a list of delivered outcomes which, with the outstanding ones, are the
  expected ones (or some of them, after a cancellation), from which the report and the
  counters are computed.
\<close>

definition delivers :: "pipeline_env \<Rightarrow> disc_item list \<Rightarrow> outcome list \<Rightarrow> pipeline \<Rightarrow> bool" where
  "delivers env items delivered st \<longleftrightarrow>
     mset delivered + outstanding env st \<subseteq># expected env items \<and>
     (pl_cancelled st \<or> mset delivered + outstanding env st = expected env items) \<and>
     (case pl_result st of Some (Inr r) \<Rightarrow> r = sortReport (report_of (pe_options env) delivered) \<and> pl_report st = r
      | _ \<Rightarrow> pl_report st = report_of (pe_options env) delivered) \<and>
     counted delivered (pl_counters st) \<and> pl_onCertificate st = concat (map oc_certificates delivered)"

lemma delivers_start: "delivers env items [] (start_pipeline options items)"
proof -
  have "sum_list (map (worker_pending env) (replicate n WIdle)) = {#}" for n
    by (induction n) simp_all
  then show ?thesis
    by (simp add: delivers_def start_pipeline_def outstanding_def report_of_def counted_def zero_counters_def)
qed

lemma step_result:
  assumes "pipeline_step env ev st = Some st'"
  shows "pl_result st' = (case ev of CollectEnd \<Rightarrow> Some (Inr (sortReport (pl_report st)))
      | CollectCancel \<Rightarrow> Some (Inl context_Canceled) | _ \<Rightarrow> pl_result st)"
    and "ev = CollectEnd \<or> ev = CollectCancel \<or> collected ev st \<noteq> None \<Longrightarrow> pl_result st = None"
    and "pl_cancelled st \<Longrightarrow> pl_cancelled st'"
proof -
  have "(pl_result st' = (case ev of CollectEnd \<Rightarrow> Some (Inr (sortReport (pl_report st)))
      | CollectCancel \<Rightarrow> Some (Inl context_Canceled) | _ \<Rightarrow> pl_result st)) \<and>
    (ev = CollectEnd \<or> ev = CollectCancel \<or> collected ev st \<noteq> None \<longrightarrow> pl_result st = None) \<and>
    (pl_cancelled st \<longrightarrow> pl_cancelled st')"
    using pipeline_step_cases(2) [OF assms]
  proof (elim disjE)
    assume "discovery_step env ev st = Some st'"
    then show ?thesis by (cases rule: discovery_stepE) auto
  next
    assume "worker_step env ev st = Some st'"
    then show ?thesis by (cases rule: worker_stepE) auto
  next
    assume "main_step ev st = Some st'"
    then show ?thesis by (cases rule: main_stepE) auto
  qed
  then show "pl_result st' = (case ev of CollectEnd \<Rightarrow> Some (Inr (sortReport (pl_report st)))
      | CollectCancel \<Rightarrow> Some (Inl context_Canceled) | _ \<Rightarrow> pl_result st)"
    "ev = CollectEnd \<or> ev = CollectCancel \<or> collected ev st \<noteq> None \<Longrightarrow> pl_result st = None"
    "pl_cancelled st \<Longrightarrow> pl_cancelled st'"
    by blast+
qed

lemma delivers_step:
  assumes "delivers env items delivered st" and "pipeline_step env ev st = Some st'" and "well_ordered st"
  shows "delivers env items (delivered @ option_list (collected ev st)) st'"
proof -
  note flow = step_flow [OF assms(2)] and res = step_result [OF assms(2)] and col = step_collects [OF assms(2)]
  let ?new = "option_list (collected ev st)"
  have panic: "pl_panicked st' \<Longrightarrow> pl_cancelled st'"
    using step_ordered [OF assms(3,2)] by (simp add: well_ordered_def)
  have "mset (delivered @ ?new) + outstanding env st' \<subseteq># mset delivered + outstanding env st"
    using flow(1) by (simp add: add.assoc)
  moreover have "mset delivered + outstanding env st \<subseteq># expected env items"
    using assms(1) unfolding delivers_def by blast
  ultimately have sub: "mset (delivered @ ?new) + outstanding env st' \<subseteq># expected env items"
    by (rule subset_mset.order_trans)
  have eq: "pl_cancelled st' \<or> mset (delivered @ ?new) + outstanding env st' = expected env items"
    using flow(2) assms(1) panic res(3) by (auto simp: delivers_def add.assoc)
  have rep: "case pl_result st' of Some (Inr r) \<Rightarrow> r = sortReport (report_of (pe_options env) (delivered @ ?new)) \<and> pl_report st' = r
      | _ \<Rightarrow> pl_report st' = report_of (pe_options env) (delivered @ ?new)"
  proof (cases "pl_result st")
    case None
    then have old: "pl_report st = report_of (pe_options env) delivered" using assms(1) by (simp add: delivers_def)
    then show ?thesis
      using None res(1) flow(3) by (cases ev) (auto simp: report_of_def split: option.splits)
  next
    case (Some r)
    then have "?new = []" "ev \<noteq> CollectEnd" "ev \<noteq> CollectCancel" using res(2) by (cases "collected ev st"; auto)+
    then show ?thesis
      using Some res(1) flow(3) assms(1) by (cases ev) (auto simp: delivers_def split: sum.splits)
  qed
  show ?thesis
    using sub eq rep col assms(1) by (simp add: delivers_def)
qed

lemma run_delivers:
  assumes "pipeline_run env st evs st'" and "well_ordered st" and "delivers env items delivered st"
  shows "well_ordered st' \<and> (\<exists>delivered'. delivers env items delivered' st')"
  using assms
  by (induction rule: pipeline_run.induct) (blast intro: step_ordered delivers_step)+

lemma run_from_start:
  assumes "pipeline_run env (start_pipeline options items) evs st" and "1 \<le> opt_Workers options"
  obtains delivered where "well_ordered st" "delivers env items delivered st"
  using run_delivers [OF assms(1) well_ordered_start [OF assms(2)] delivers_start] by blast

section \<open>A scan that is not cancelled\<close>

text \<open>When such a scan has returned, nothing is outstanding.\<close>

lemma all_exited_pending: "list_all (\<lambda>w. w = WExited) ws \<Longrightarrow> sum_list (map (worker_pending env) ws) = {#}"
  by (induction ws) auto

lemma finished_outstanding:
  assumes "well_ordered st" and "\<not> pl_cancelled st" and "pl_outcomesClosed st"
  shows "outstanding env st = {#}" and "pl_todo st = []" and "pl_jobs st = []"
proof -
  have ex: "list_all (\<lambda>w. w = WExited) (pl_workers st)" and ne: "pl_workers st \<noteq> []"
    using assms by (auto simp: well_ordered_def)
  then have "WExited \<in> set (pl_workers st)" using all_exited_in by blast
  then show "pl_todo st = []" "pl_jobs st = []" using assms by (auto simp: well_ordered_def)
  then show "outstanding env st = {#}" using all_exited_pending [OF ex] by (simp add: outstanding_def)
qed

lemma mset_concat_cong: "mset xs = mset ys \<Longrightarrow> mset (concat (map f xs)) = mset (concat (map f ys))"
  by (metis mset_concat mset_map sum_mset_sum_list)

lemma finished_delivered:
  assumes "pipeline_run env (start_pipeline options items) evs st" and "1 \<le> opt_Workers options"
    and "\<not> pl_cancelled st" and "pl_result st = Some result"
  obtains delivered r where "result = Inr r" "r = sortReport (report_of (pe_options env) delivered)"
    "mset delivered = mset (map (item_outcome env) items)" "counted delivered (pl_counters st)"
    "pl_onCertificate st = concat (map oc_certificates delivered)"
proof -
  obtain delivered where wo: "well_ordered st" and d: "delivers env items delivered st"
    by (rule run_from_start [OF assms(1,2)])
  obtain r where r: "result = Inr r" and closed: "pl_outcomesClosed st"
    using wo assms(3,4) by (cases result) (auto simp: well_ordered_def)
  have m: "mset delivered = mset (map (item_outcome env) items)"
    using d assms(3) finished_outstanding(1) [OF wo assms(3) closed, of env] by (simp add: delivers_def expected_def)
  show thesis
    by (rule that [OF r _ m]) (use d assms(4) r in \<open>simp_all add: delivers_def\<close>)
qed

text \<open>What the discovery found: the paths and the errors.\<close>

definition disc_jobs :: "disc_item list \<Rightarrow> string list" where
  "disc_jobs items = concat (map (\<lambda>i. case i of DJob path \<Rightarrow> [path] | DErr _ \<Rightarrow> []) items)"

definition disc_errors :: "disc_item list \<Rightarrow> file_error list" where
  "disc_errors items = concat (map (\<lambda>i. case i of DJob _ \<Rightarrow> [] | DErr e \<Rightarrow> [e]) items)"

lemma reported_error_simps [simp]:
  "oc_certificates (reported_error e) = []" "oc_pkcs12Encrypted (reported_error e) = []"
  "oc_err (reported_error e) = Some e" "\<not> oc_scanned (reported_error e)" "\<not> oc_capped (reported_error e)"
  by (simp_all add: reported_error_def)

lemma worker_outcome_simps [simp]:
  "oc_certificates (worker_outcome env path) = oc_certificates (fst (pe_scan env path))"
  "oc_pkcs12Encrypted (worker_outcome env path) = oc_pkcs12Encrypted (fst (pe_scan env path))"
  "oc_scanned (worker_outcome env path)" "oc_capped (worker_outcome env path) = oc_capped (fst (pe_scan env path))"
  "oc_err (worker_outcome env path) = map_option (\<lambda>e. e\<lparr>fe_Path := path\<rparr>) (oc_err (fst (pe_scan env path)))"
  by (simp_all add: worker_outcome_def Let_def)

lemma items_certificates:
  "concat (map (oc_certificates \<circ> item_outcome env) items) =
     concat (map (\<lambda>p. oc_certificates (fst (pe_scan env p))) (disc_jobs items))"
  by (induction items) (auto simp: disc_jobs_def split: disc_item.split)

lemma items_encrypted:
  "concat (map (oc_pkcs12Encrypted \<circ> item_outcome env) items) =
     concat (map (\<lambda>p. oc_pkcs12Encrypted (fst (pe_scan env p))) (disc_jobs items))"
  by (induction items) (auto simp: disc_jobs_def split: disc_item.split)

definition scan_errors :: "pipeline_env \<Rightarrow> string \<Rightarrow> file_error list" where
  "scan_errors env path = option_list (map_option (\<lambda>e. e\<lparr>fe_Path := path\<rparr>) (oc_err (fst (pe_scan env path))))"

lemma items_errors:
  "mset (concat (map (option_list \<circ> oc_err \<circ> item_outcome env) items)) =
     mset (disc_errors items) + mset (concat (map (scan_errors env) (disc_jobs items)))"
  by (induction items) (auto simp: disc_jobs_def disc_errors_def scan_errors_def split: disc_item.split)

lemma items_scanned: "length (filter oc_scanned (map (item_outcome env) items)) = length (disc_jobs items)"
  by (induction items) (auto simp: disc_jobs_def split: disc_item.split)

text \<open>
  C2: a scan that is not cancelled returns the sorted report of everything the discovery found: the
  certificates and encrypted contents of every queued file, each once, the errors of the
  discovery and those of the files with their paths, however the goroutines interleave. The
  callback has seen the same certificates, and every file is counted as scanned.
\<close>

theorem scan_complete:
  assumes "pipeline_run env (start_pipeline options items) evs st" and "1 \<le> opt_Workers options"
    and "\<not> pl_cancelled st" and "pl_result st = Some result" and "\<not> opt_DiscardCertificates (pe_options env)"
    and "\<not> opt_DiscardPKCS12Encrypted (pe_options env)"
  shows "\<exists>r. result = Inr r \<and> sortReport r = r \<and>
    mset (rp_Certificates r) = mset (concat (map (\<lambda>p. oc_certificates (fst (pe_scan env p))) (disc_jobs items))) \<and>
    mset (rp_PKCS12Encrypted r) = mset (concat (map (\<lambda>p. oc_pkcs12Encrypted (fst (pe_scan env p))) (disc_jobs items))) \<and>
    mset (rp_Errors r) = mset (disc_errors items) + mset (concat (map (scan_errors env) (disc_jobs items))) \<and>
    mset (pl_onCertificate st) = mset (rp_Certificates r) \<and>
    pc_filesScanned (pl_counters st) = int (length (disc_jobs items))"
proof -
  obtain delivered r where r: "result = Inr r" "r = sortReport (report_of (pe_options env) delivered)"
    and m: "mset delivered = mset (map (item_outcome env) items)" and c: "counted delivered (pl_counters st)"
    and cb: "pl_onCertificate st = concat (map oc_certificates delivered)"
    by (rule finished_delivered [OF assms(1-4)])
  have fields: "mset (rp_Certificates r) = mset (concat (map oc_certificates delivered))"
    "mset (rp_PKCS12Encrypted r) = mset (concat (map oc_pkcs12Encrypted delivered))"
    "mset (rp_Errors r) = mset (concat (map (option_list \<circ> oc_err) delivered))"
    using assms(5,6) by (simp_all add: r(2) sortReport_def sort_certificates sort_encrypted sort_errors report_of_fields)
  have sorted: "sortReport r = r"
    by (simp add: r(2) sortReport_def sort_certificates sort_encrypted sort_errors sort_key_id_if_sorted)
  have "length (filter oc_scanned delivered) = length (disc_jobs items)"
    using items_scanned [of env items] m by (metis mset_filter size_mset)
  moreover note mset_concat_cong [OF m, of oc_certificates] mset_concat_cong [OF m, of oc_pkcs12Encrypted]
    mset_concat_cong [OF m, of "option_list \<circ> oc_err"]
  ultimately show ?thesis
    using r(1) fields sorted c cb
    by (simp add: items_certificates items_encrypted items_errors counted_def)
qed

lemma sort_key_keys:
  assumes "mset xs = mset ys"
  shows "map f (sort_key f xs) = map f (sort_key f ys)"
proof -
  have "mset (map f (sort_key f xs)) = mset (map f (sort_key f ys))" using assms by (metis mset_map mset_sort)
  then show ?thesis by (metis properties_for_sort sorted_sort_key)
qed

text \<open>
  C6: two scans of the same files that both return without being cancelled find the same certificates,
  encrypted contents and errors and list them with the same sequence of places (path, entries and
  position), whatever the number of workers and the interleaving. Each of the three lists is even
  identical if no two different members of it share a place: among members that do, the unstable
  sort leaves the order open.
\<close>

theorem scan_deterministic:
  assumes "pipeline_run env (start_pipeline options items) evs st" and "1 \<le> opt_Workers options"
    and "\<not> pl_cancelled st" and "pl_result st = Some result"
    and "pipeline_run env (start_pipeline options' items) evs' st'" and "1 \<le> opt_Workers options'"
    and "\<not> pl_cancelled st'" and "pl_result st' = Some result'"
  shows "\<exists>r r'. result = Inr r \<and> result' = Inr r' \<and>
    mset (rp_Certificates r) = mset (rp_Certificates r') \<and>
    mset (rp_PKCS12Encrypted r) = mset (rp_PKCS12Encrypted r') \<and> mset (rp_Errors r) = mset (rp_Errors r') \<and>
    map cert_key (rp_Certificates r) = map cert_key (rp_Certificates r') \<and>
    map enc_key (rp_PKCS12Encrypted r) = map enc_key (rp_PKCS12Encrypted r') \<and>
    map fe_Path (rp_Errors r) = map fe_Path (rp_Errors r') \<and>
    (inj_on cert_key (set (rp_Certificates r)) \<longrightarrow> rp_Certificates r = rp_Certificates r') \<and>
    (inj_on enc_key (set (rp_PKCS12Encrypted r)) \<longrightarrow> rp_PKCS12Encrypted r = rp_PKCS12Encrypted r') \<and>
    (inj_on fe_Path (set (rp_Errors r)) \<longrightarrow> rp_Errors r = rp_Errors r')"
proof -
  obtain d r where r: "result = Inr r" "r = sortReport (report_of (pe_options env) d)"
    and m: "mset d = mset (map (item_outcome env) items)"
    by (rule finished_delivered [OF assms(1-4)])
  obtain d' r' where r': "result' = Inr r'" "r' = sortReport (report_of (pe_options env) d')"
    and m': "mset d' = mset (map (item_outcome env) items)"
    by (rule finished_delivered [OF assms(5-8)])
  have mm: "mset d = mset d'" using m m' by simp
  define x y z where "x d = rp_Certificates (report_of (pe_options env) d)"
    and "y d = rp_PKCS12Encrypted (report_of (pe_options env) d)" and "z d = rp_Errors (report_of (pe_options env) d)" for d
  have xyz: "mset (x d) = mset (x d')" "mset (y d) = mset (y d')" "mset (z d) = mset (z d')"
    using mset_concat_cong [OF mm, of oc_certificates] mset_concat_cong [OF mm, of oc_pkcs12Encrypted]
      mset_concat_cong [OF mm, of "option_list \<circ> oc_err"]
    by (simp_all add: x_def y_def z_def report_of_fields)
  have rr: "rp_Certificates r = sort_key cert_key (x d)" "rp_PKCS12Encrypted r = sort_key enc_key (y d)"
    "rp_Errors r = sort_key fe_Path (z d)"
    and rr': "rp_Certificates r' = sort_key cert_key (x d')" "rp_PKCS12Encrypted r' = sort_key enc_key (y d')"
    "rp_Errors r' = sort_key fe_Path (z d')"
    by (simp_all add: r(2) r'(2) x_def y_def z_def sortReport_def sort_certificates sort_encrypted sort_errors)
  show ?thesis
    by (intro exI [of _ r] exI [of _ r'] conjI impI)
      (auto simp: rr rr' r(1) r'(1) xyz intro: sort_key_keys sort_key_inj_key_eq)
qed

section \<open>Every run ends\<close>

fun item_work :: "disc_item \<Rightarrow> nat" where
  "item_work (DJob path) = 5"
| "item_work (DErr e) = 1"

fun worker_work :: "worker_state \<Rightarrow> nat" where
  "worker_work WIdle = 1"
| "worker_work (WScanning path) = 3"
| "worker_work (WHolding result) = 2"
| "worker_work WExited = 0"

text \<open>What is left to do, in steps.\<close>

definition work_left :: "pipeline \<Rightarrow> nat" where
  "work_left st =
     sum_list (map item_work (pl_todo st)) - (if pl_announced st then 1 else 0) + 3 * length (pl_jobs st) +
     sum_list (map worker_work (pl_workers st)) + (if pl_jobsClosed st then 0 else 1) +
     (if pl_outcomesClosed st then 0 else 1) + (if pl_result st = None then 1 else 0) +
     (if pl_cancelled st then 0 else 1)"

lemma worker_work_update:
  "i < length ws \<Longrightarrow> sum_list (map worker_work (ws[i := w])) + worker_work (ws ! i) =
     sum_list (map worker_work ws) + worker_work w"
  by (rule sum_list_list_update)

lemma step_work:
  assumes "pipeline_step env ev st = Some st'" and "well_ordered st"
  shows "work_left st' < work_left st"
  using pipeline_step_cases(2) [OF assms(1)]
proof (elim disjE)
  assume "discovery_step env ev st = Some st'"
  then show ?thesis
  proof (cases rule: discovery_stepE)
    case stop
    have "0 < sum_list (map item_work (pl_todo st)) - (if pl_announced st then 1 else 0)"
      using stop(3) assms(2) by (cases "pl_todo st"; cases "hd (pl_todo st)") (auto simp: well_ordered_def)
    with stop show ?thesis by (simp add: work_left_def)
  qed (use assms(2) in \<open>auto simp: work_left_def well_ordered_def\<close>)
next
  assume "worker_step env ev st = Some st'"
  then show ?thesis
  proof (cases rule: worker_stepE)
    case (take i path jobs)
    with worker_work_update [OF take(3), of "WScanning path"] show ?thesis by (simp add: work_left_def)
  next
    case (scan i path)
    with worker_work_update [OF scan(2), of "WHolding (worker_outcome env path)"] show ?thesis
      by (simp add: work_left_def)
  next
    case (send i result)
    with worker_work_update [OF send(2), of WIdle] show ?thesis by (simp add: work_left_def)
  next
    case (quit i)
    with worker_work_update [OF quit(2), of WExited] show ?thesis by (simp add: work_left_def)
  next
    case (lose i result)
    with worker_work_update [OF lose(2), of WExited] show ?thesis by (simp add: work_left_def)
  qed
next
  assume "main_step ev st = Some st'"
  then show ?thesis by (cases rule: main_stepE) (auto simp: work_left_def)
qed

lemma run_work:
  "pipeline_run env st evs st' \<Longrightarrow> well_ordered st \<Longrightarrow> work_left st' + length evs \<le> work_left st \<and> well_ordered st'"
proof (induction rule: pipeline_run.induct)
  case (run_snoc st evs st' ev st'')
  then show ?case using step_work [of env ev st' st''] step_ordered [of st' env ev st''] by fastforce
qed simp

text \<open>
  As long as not everything has ended, some goroutine can move by itself: neither the cancellation nor
  the collector giving up because of it is needed.
\<close>

lemma worker_can_move:
  assumes "i < length (pl_workers st)" and "pl_workers st ! i \<noteq> WExited" and "pl_result st = None"
    and "pl_jobs st \<noteq> [] \<or> pl_cancelled st \<or> pl_jobsClosed st"
  shows "\<exists>ev st'. worker_step env ev st = Some st' \<and> (\<exists>i. ev \<in> {WorkerTake i, WorkerScan i, WorkerSend i, WorkerQuit i})"
proof (cases "pl_workers st ! i")
  case WIdle
  show ?thesis
  proof (cases "pl_jobs st")
    case Nil
    with WIdle assms have "worker_step env (WorkerQuit i) st = Some (set_worker i WExited st)" by auto
    then show ?thesis by blast
  next
    case (Cons path jobs)
    with WIdle assms have "worker_step env (WorkerTake i) st = Some (set_worker i (WScanning path) (st\<lparr>pl_jobs := jobs\<rparr>))"
      by simp
    then show ?thesis by blast
  qed
next
  case (WScanning path)
  with assms have "worker_step env (WorkerScan i) st \<noteq> None" by simp
  then show ?thesis by blast
next
  case (WHolding result)
  with assms have "worker_step env (WorkerSend i) st \<noteq> None" by simp
  then show ?thesis by blast
qed (use assms(2) in simp)

lemma pipeline_step_simps:
  assumes "\<not> pl_panicked st"
  shows "ev \<in> {DiscAnnounce, DiscSend, DiscError, DiscDrop, DiscStop, DiscEnd} \<Longrightarrow>
      pipeline_step env ev st = discovery_step env ev st"
    and "ev \<in> {WorkerTake i, WorkerScan i, WorkerSend i, WorkerQuit i} \<Longrightarrow>
      pipeline_step env ev st = worker_step env ev st"
    and "ev \<in> {CloseOutcomes, CollectEnd, CollectCancel, Cancel} \<Longrightarrow>
      pipeline_step env ev st = main_step ev st"
  using assms by (auto simp: pipeline_step_def)

lemma discovery_can_move:
  assumes "pl_todo st \<noteq> [] \<or> \<not> pl_jobsClosed st" and "\<not> pl_announced st \<or> length (pl_jobs st) < jobsCapacity"
    and "pl_announced st \<longrightarrow> (\<exists>path todo. pl_todo st = DJob path # todo)" and "pl_result st = None"
  obtains ev st' where "discovery_step env ev st = Some st'" "ev \<in> {DiscAnnounce, DiscSend, DiscError, DiscEnd}"
proof (cases "pl_todo st")
  case Nil
  with assms(1) show thesis by (intro that [of DiscEnd]) simp_all
next
  case (Cons item todo)
  show thesis
  proof (cases item)
    case (DErr e)
    with Cons assms(4) show thesis by (cases "pl_outcomesClosed st") (auto intro: that [of DiscError])
  next
    case (DJob path)
    with Cons assms(2) show thesis by (cases "pl_announced st") (auto intro: that [of DiscAnnounce] that [of DiscSend])
  qed
qed

lemma end_can_move:
  assumes "list_all (\<lambda>w. w = WExited) (pl_workers st)" and "pl_result st = None"
  obtains ev st' where "main_step ev st = Some st'" "ev \<in> {CloseOutcomes, CollectEnd}"
  using assms by (cases "pl_outcomesClosed st") (auto intro: that [of CollectEnd] that [of CloseOutcomes])

text \<open>A step of the discovery, of a worker, of the closing goroutine, or the return of the report.\<close>

definition own_event :: "event \<Rightarrow> bool" where
  "own_event ev \<longleftrightarrow> ev \<noteq> Cancel \<and> ev \<noteq> CollectCancel"

lemma can_move:
  assumes "well_ordered st" and "\<not> pl_panicked st" and "pl_result st = None"
  shows "\<exists>ev st'. own_event ev \<and> pipeline_step env ev st = Some st'"
proof (cases "(pl_todo st \<noteq> [] \<or> \<not> pl_jobsClosed st) \<and> (\<not> pl_announced st \<or> length (pl_jobs st) < jobsCapacity)")
  case True
  have "pl_announced st \<longrightarrow> (\<exists>path todo. pl_todo st = DJob path # todo)" using assms(1) by (simp add: well_ordered_def)
  with True obtain ev st' where "discovery_step env ev st = Some st'" "ev \<in> {DiscAnnounce, DiscSend, DiscError, DiscEnd}"
    using discovery_can_move [OF _ _ _ assms(3)] by blast
  with pipeline_step_simps(1) [OF assms(2), of ev env] show ?thesis by (auto simp: own_event_def)
next
  case stuck: False
  then have waiting: "pl_jobs st \<noteq> [] \<or> pl_jobsClosed st" by (auto simp: jobsCapacity_def)
  show ?thesis
  proof (cases "list_all (\<lambda>w. w = WExited) (pl_workers st)")
    case True
    then obtain ev st' where "main_step ev st = Some st'" "ev \<in> {CloseOutcomes, CollectEnd}"
      by (rule end_can_move [OF _ assms(3)])
    with pipeline_step_simps(3) [OF assms(2), of ev env] show ?thesis by (auto simp: own_event_def)
  next
    case False
    then obtain i where "i < length (pl_workers st)" "pl_workers st ! i \<noteq> WExited" by (auto simp: list_all_length)
    with worker_can_move [OF this assms(3), of env] waiting obtain ev st' i where
      "worker_step env ev st = Some st'" "ev \<in> {WorkerTake i, WorkerScan i, WorkerSend i, WorkerQuit i}" by metis
    with pipeline_step_simps(2) [OF assms(2), of ev i env] show ?thesis by (auto simp: own_event_def)
  qed
qed

text \<open>
  Everything has ended: the scan has returned and none of its goroutines is left.
\<close>

definition scan_ended :: "pipeline \<Rightarrow> bool" where
  "scan_ended st \<longleftrightarrow> pl_result st \<noteq> None \<and> pl_todo st = [] \<and> pl_jobsClosed st \<and>
     list_all (\<lambda>w. w = WExited) (pl_workers st) \<and> pl_outcomesClosed st"

text \<open>What is left behind when the collector gave up: the goroutines see the cancellation.\<close>

lemma cancelled_can_move:
  assumes "\<not> pl_panicked st" and "pl_cancelled st" and "\<not> scan_ended st"
  shows "\<exists>ev st'. own_event ev \<and> pipeline_step env ev st = Some st'"
proof -
  note step = pipeline_step_simps [OF assms(1)]
  consider (stop) "pl_todo st \<noteq> []" | (finish) "pl_todo st = []" "\<not> pl_jobsClosed st"
    | (worker) i where "i < length (pl_workers st)" "pl_workers st ! i \<noteq> WExited"
    | (close) "list_all (\<lambda>w. w = WExited) (pl_workers st)" "\<not> pl_outcomesClosed st"
    | (report) "pl_outcomesClosed st" "pl_result st = None"
    using assms(3) unfolding scan_ended_def list_all_length by blast
  then show ?thesis
  proof cases
    case stop
    with assms(2) step(1) [of DiscStop env] show ?thesis by (intro exI [of _ DiscStop]) (simp add: own_event_def)
  next
    case finish
    with step(1) [of DiscEnd env] show ?thesis by (intro exI [of _ DiscEnd]) (simp add: own_event_def)
  next
    case worker
    with assms(2) step(2) [of "WorkerScan i" i env] step(2) [of "WorkerQuit i" i env] show ?thesis
      by (cases "pl_workers st ! i") (auto simp: own_event_def intro: exI [of _ "WorkerScan i"] exI [of _ "WorkerQuit i"])
  next
    case close
    with step(3) [of CloseOutcomes env] show ?thesis by (intro exI [of _ CloseOutcomes]) (simp add: own_event_def)
  next
    case report
    with step(3) [of CollectEnd env] show ?thesis by (intro exI [of _ CollectEnd]) (simp add: own_event_def)
  qed
qed

lemma returned_ended:
  assumes "well_ordered st" and "\<not> pl_cancelled st" and "pl_result st \<noteq> None"
  shows "scan_ended st"
proof -
  obtain x where x: "pl_result st = Some x" using assms(3) by auto
  have closed: "pl_outcomesClosed st" using assms(1,2) x by (cases x) (auto simp: well_ordered_def)
  then have exited: "list_all (\<lambda>w. w = WExited) (pl_workers st)" and "WExited \<in> set (pl_workers st)"
    using assms(1) all_exited_in by (auto simp: well_ordered_def)
  then show ?thesis
    using closed assms finished_outstanding(2) [OF assms(1,2) closed] by (auto simp: scan_ended_def well_ordered_def)
qed

text \<open>
  C5: a scan always ends. A run has a bounded number of steps; and until it has panicked, or returned
  with the discovery, all workers and the closing goroutine gone, one of these goroutines or the
  collector can take a step of its own. Neither a cancellation nor the collector's giving up
  counts as one, so there is no deadlock that only a cancellation could resolve, and a
  cancelled scan leaves no goroutine behind.
\<close>

theorem scan_terminates:
  assumes "pipeline_run env (start_pipeline options items) evs st" and "1 \<le> opt_Workers options"
  shows "length evs \<le> 5 * length items + nat (opt_Workers options) + 4 \<and>
    (scan_ended st \<or> pl_panicked st \<or> (\<exists>ev st'. own_event ev \<and> pipeline_step env ev st = Some st'))"
proof -
  have "sum_list (map item_work items) \<le> 5 * length items"
  proof (induction items)
    case (Cons i items)
    then show ?case by (cases i) simp_all
  qed simp
  moreover have "sum_list (map worker_work (replicate n WIdle)) = n" for n by (induction n) simp_all
  ultimately have "work_left (start_pipeline options items) \<le> 5 * length items + nat (opt_Workers options) + 4"
    by (simp add: work_left_def start_pipeline_def)
  moreover have "work_left st + length evs \<le> work_left (start_pipeline options items)" and wo: "well_ordered st"
    using run_work [OF assms(1) well_ordered_start [OF assms(2)]] by simp_all
  moreover have "scan_ended st \<or> pl_panicked st \<or> (\<exists>ev st'. own_event ev \<and> pipeline_step env ev st = Some st')"
    using can_move [OF wo] cancelled_can_move returned_ended [OF wo] by metis
  ultimately show ?thesis by simp
qed

section \<open>The progress counters\<close>

fun busy :: "worker_state \<Rightarrow> int" where
  "busy (WScanning path) = 1"
| "busy (WHolding result) = (if oc_scanned result then 1 else 2)"
| "busy _ = 0"

text \<open>Files that are counted as discovered and not yet as scanned.\<close>

definition in_progress :: "pipeline \<Rightarrow> int" where
  "in_progress st = (if pl_announced st then 1 else 0) + int (length (pl_jobs st)) + sum_list (map busy (pl_workers st))"

definition discovered_ok :: "pipeline \<Rightarrow> bool" where
  "discovered_ok st \<longleftrightarrow>
     list_all (\<lambda>w. case w of WHolding result \<Rightarrow> oc_scanned result | _ \<Rightarrow> True) (pl_workers st) \<and>
     pc_filesScanned (pl_counters st) + in_progress st \<le> pc_filesDiscovered (pl_counters st)"

lemma busy_update:
  "i < length ws \<Longrightarrow> sum_list (map busy (ws[i := w])) + busy (ws ! i) = sum_list (map busy ws) + busy w"
  by (rule sum_list_list_update)

lemma list_all_update: "list_all P xs \<Longrightarrow> P x \<Longrightarrow> list_all P (xs[i := x])"
  by (auto simp: list_all_iff dest: set_update_subset_insert [THEN subsetD])

lemma step_discovered:
  assumes "discovered_ok st" and "pipeline_step env ev st = Some st'"
  shows "discovered_ok st'"
  using pipeline_step_cases(2) [OF assms(2)]
proof (elim disjE)
  assume "discovery_step env ev st = Some st'"
  then show ?thesis
    by (cases rule: discovery_stepE) (use assms(1) in \<open>auto simp: discovered_ok_def in_progress_def\<close>)
next
  assume "worker_step env ev st = Some st'"
  then show ?thesis
  proof (cases rule: worker_stepE)
    case (take i path jobs)
    with busy_update [OF take(3), of "WScanning path"] assms(1) show ?thesis
      by (simp add: discovered_ok_def in_progress_def list_all_update)
  next
    case (scan i path)
    with busy_update [OF scan(2), of "WHolding (worker_outcome env path)"] assms(1) show ?thesis
      by (simp add: discovered_ok_def in_progress_def list_all_update)
  next
    case (send i result)
    then have "oc_scanned result" using assms(1) by (auto simp: discovered_ok_def list_all_length)
    with send busy_update [OF send(2), of WIdle] assms(1) show ?thesis
      by (simp add: discovered_ok_def in_progress_def list_all_update)
  next
    case (quit i)
    with busy_update [OF quit(2), of WExited] assms(1) show ?thesis
      by (simp add: discovered_ok_def in_progress_def list_all_update)
  next
    case (lose i result)
    with busy_update [OF lose(2), of WExited] assms(1) show ?thesis
      by (simp add: discovered_ok_def in_progress_def list_all_update split: if_splits)
  qed
next
  assume "main_step ev st = Some st'"
  then show ?thesis
    by (cases rule: main_stepE) (use assms(1) in \<open>auto simp: discovered_ok_def in_progress_def\<close>)
qed

lemma run_discovered: "pipeline_run env st evs st' \<Longrightarrow> discovered_ok st \<Longrightarrow> discovered_ok st'"
  by (induction rule: pipeline_run.induct) (auto dest: step_discovered)

lemma discovered_start: "discovered_ok (start_pipeline options items)"
  by (simp add: discovered_ok_def start_pipeline_def in_progress_def zero_counters_def list_all_iff sum_list_replicate)

lemma busy_nonneg: "0 \<le> sum_list (map busy ws)"
proof (induction ws)
  case (Cons w ws)
  then show ?case by (cases w) simp_all
qed simp

lemma errors_counted:
  assumes "delivers env items delivered st"
  shows "pc_scanErrors (pl_counters st) = int (length (rp_Errors (pl_report st)))"
proof -
  have "length (concat (map (option_list \<circ> oc_err) delivered)) = length (filter (\<lambda>r. oc_err r \<noteq> None) delivered)"
    by (induction delivered) (auto simp: option_list_def split: option.split)
  moreover have "length (rp_Errors (pl_report st)) = length (rp_Errors (report_of (pe_options env) delivered))"
    using assms by (auto simp: delivers_def sortReport_def sort_errors split: option.splits sum.splits)
  moreover have "counted delivered (pl_counters st)" using assms by (simp add: delivers_def)
  ultimately show ?thesis by (simp add: counted_def report_of_fields)
qed

text \<open>
  C38: the counters are consistent at every moment, also while the context is being cancelled: no
  more files are capped than scanned, none is scanned that was not discovered, and as many
  errors are counted as the collector has put into the report.
\<close>

theorem progress_consistent:
  assumes "pipeline_run env (start_pipeline options items) evs st" and "1 \<le> opt_Workers options"
  shows "0 \<le> pc_filesCapped (pl_counters st) \<and>
    pc_filesCapped (pl_counters st) \<le> pc_filesScanned (pl_counters st) \<and>
    pc_filesScanned (pl_counters st) \<le> pc_filesDiscovered (pl_counters st) \<and>
    pc_scanErrors (pl_counters st) = int (length (rp_Errors (pl_report st)))"
proof -
  obtain delivered where d: "delivers env items delivered st"
    by (rule run_from_start [OF assms])
  then have c: "counted delivered (pl_counters st)" by (simp add: delivers_def)
  have "length (filter (\<lambda>r. oc_scanned r \<and> oc_capped r) delivered) \<le> length (filter oc_scanned delivered)"
    by (induction delivered) auto
  moreover have "pc_filesScanned (pl_counters st) \<le> pc_filesDiscovered (pl_counters st)"
    using run_discovered [OF assms(1) discovered_start] busy_nonneg [of "pl_workers st"]
    by (simp add: discovered_ok_def in_progress_def split: if_splits)
  ultimately show ?thesis using c errors_counted [OF d] by (simp add: counted_def)
qed

section \<open>Cancelled or not\<close>

lemma mset_concat_mono:
  assumes "mset xs \<subseteq># mset ys"
  shows "mset (concat (map f xs)) \<subseteq># mset (concat (map f ys))"
proof -
  obtain zs where "mset ys = mset (xs @ zs)"
    using assms by (metis ex_mset mset_append subset_mset.le_iff_add)
  then have "mset (concat (map f ys)) = mset (concat (map f (xs @ zs)))" by (rule mset_concat_cong)
  then show ?thesis by simp
qed

lemma report_within:
  assumes "delivers env items delivered st"
  shows "mset (rp_Certificates (pl_report st)) \<subseteq>#
      mset (concat (map (\<lambda>p. oc_certificates (fst (pe_scan env p))) (disc_jobs items)))"
proof -
  have "mset delivered + outstanding env st \<subseteq># expected env items" using assms by (simp add: delivers_def)
  then have "mset delivered \<subseteq># mset (map (item_outcome env) items)"
    unfolding expected_def by (rule subset_mset.order_trans [OF mset_subset_eq_add_left])
  then have "mset (concat (map oc_certificates delivered)) \<subseteq>#
      mset (concat (map oc_certificates (map (item_outcome env) items)))"
    by (rule mset_concat_mono)
  moreover have "mset (rp_Certificates (pl_report st)) \<subseteq># mset (concat (map oc_certificates delivered))"
    using assms by (auto simp: delivers_def report_of_fields sortReport_def sort_certificates split: option.splits sum.splits)
  moreover have "concat (map oc_certificates (map (item_outcome env) items)) =
      concat (map (\<lambda>p. oc_certificates (fst (pe_scan env p))) (disc_jobs items))"
    unfolding map_map by (rule items_certificates)
  ultimately show ?thesis by (metis subset_mset.order_trans)
qed

text \<open>
  At every moment of every run, cancelled or not, the report holds no certificate that a scan of
  a queued file did not yield, none more often than it was found; and only a cancelled scan
  can panic.
\<close>

theorem scan_reports_only_found:
  assumes "pipeline_run env (start_pipeline options items) evs st" and "1 \<le> opt_Workers options"
  shows "mset (rp_Certificates (pl_report st)) \<subseteq>#
      mset (concat (map (\<lambda>p. oc_certificates (fst (pe_scan env p))) (disc_jobs items))) \<and>
    (if pl_panicked st then pl_cancelled st else True)"
proof -
  obtain delivered where "delivers env items delivered st" and "well_ordered st"
    by (rule run_from_start [OF assms])
  then show ?thesis by (auto simp: well_ordered_def dest: report_within)
qed

end
