(* ===== verification/PipelineRuns.thy ===== *)
theory PipelineRuns
  imports PipelineFacts
begin

text \<open>
  Concrete runs of the scan: two files and an unreadable directory scanned by one worker and by two,
  on which the properties are evaluated, and what a scan can end in that is cancelled after any part
  of its work.
\<close>

lemma pipeline_run_Cons:
  assumes "pipeline_run env st' evs st''" and "pipeline_step env ev st = Some st'"
  shows "pipeline_run env st (ev # evs) st''"
  using assms
proof (induction rule: pipeline_run.induct)
  case (run_Nil st1)
  then show ?case using pipeline_run.run_snoc [OF pipeline_run.run_Nil] by fastforce
next
  case (run_snoc st1 evs st2 ev2 st3)
  then have "pipeline_run env st (ev # evs) st2" by blast
  then have "pipeline_run env st ((ev # evs) @ [ev2]) st3" by (rule pipeline_run.run_snoc) (rule run_snoc)
  then show ?case by simp
qed

lemma run_events_run: "run_events env evs st = Some st' \<Longrightarrow> pipeline_run env st evs st'"
  by (induction evs arbitrary: st) (auto intro: run_Nil pipeline_run_Cons split: option.splits)

text \<open>Every file holds one certificate, found at its path.\<close>

definition sample_pipeline_env :: pipeline_env where
  "sample_pipeline_env = \<lparr>pe_options = sample_options 0,
     pe_scan = (\<lambda>path. (scanOutcome [sample_finding path] [] False None, [(1, 1, 0)]))\<rparr>"

definition sample_items :: "disc_item list" where
  "sample_items = [DJob ''b'', DErr \<lparr>fe_Path = ''d'', fe_Err = io_EOF\<rparr>, DJob ''a'']"

definition sample_run :: "event list" where
  "sample_run = [DiscAnnounce, DiscSend, WorkerTake 0, DiscError, WorkerScan 0, WorkerSend 0, DiscAnnounce,
     DiscSend, DiscEnd, WorkerTake 0, WorkerScan 0, WorkerSend 0, WorkerQuit 0, CloseOutcomes, CollectEnd]"

definition sample_run_two :: "event list" where
  "sample_run_two = [DiscAnnounce, DiscSend, DiscError, DiscAnnounce, DiscSend, WorkerTake 1, WorkerTake 0,
     WorkerScan 0, WorkerSend 0, DiscEnd, WorkerQuit 0, WorkerScan 1, WorkerSend 1, WorkerQuit 1,
     CloseOutcomes, CollectEnd]"

definition two_workers :: options where
  "two_workers = (sample_options 0)\<lparr>opt_Workers := 2\<rparr>"

definition sample_report :: report where
  "sample_report = \<lparr>rp_Certificates = [sample_finding ''a'', sample_finding ''b''], rp_PKCS12Encrypted = [],
     rp_Errors = [\<lparr>fe_Path = ''d'', fe_Err = io_EOF\<rparr>]\<rparr>"

lemmas sample_run_defs = sample_pipeline_env_def sample_items_def sample_run_def sample_run_two_def two_workers_def
  sample_report_def start_pipeline_def pipeline_step_def count_discovered_def set_worker_def collect_def
  collect_report_def collect_counters_def worker_outcome_def reported_error_def add_progress_def zero_counters_def
  empty_report_def option_list_def jobsCapacity_def

lemma sample_run_result:
  "\<exists>st. pipeline_run sample_pipeline_env (start_pipeline (sample_options 0) sample_items) sample_run st \<and>
    pl_result st = Some (Inr sample_report) \<and> \<not> pl_cancelled st"
proof -
  have "\<exists>st. run_events sample_pipeline_env sample_run (start_pipeline (sample_options 0) sample_items) = Some st \<and>
    pl_result st = Some (Inr sample_report) \<and> \<not> pl_cancelled st"
    by (simp add: sample_run_defs sample_options_def sortReport_def sort_Slice_def certificate_less_def
      sample_finding_def)
  then show ?thesis using run_events_run by blast
qed

lemma sample_run_two_result:
  "\<exists>st. pipeline_run sample_pipeline_env (start_pipeline two_workers sample_items) sample_run_two st \<and>
    pl_result st = Some (Inr sample_report) \<and> \<not> pl_cancelled st"
proof -
  have "\<exists>st. run_events sample_pipeline_env sample_run_two (start_pipeline two_workers sample_items) = Some st \<and>
    pl_result st = Some (Inr sample_report) \<and> \<not> pl_cancelled st"
    by (simp add: sample_run_defs sample_options_def sortReport_def sort_Slice_def certificate_less_def
      sample_finding_def numeral_2_eq_2)
  then show ?thesis using run_events_run by blast
qed

lemma sample_workers [simp]:
  "opt_Workers (sample_options n) = 1" "opt_Workers two_workers = 2"
  "\<not> opt_DiscardCertificates (pe_options sample_pipeline_env)"
  "\<not> opt_DiscardPKCS12Encrypted (pe_options sample_pipeline_env)"
  by (simp_all add: sample_options_def two_workers_def sample_pipeline_env_def)

lemma sample_items_simps:
  "disc_jobs sample_items = [''b'', ''a'']"
  "disc_errors sample_items = [\<lparr>fe_Path = ''d'', fe_Err = io_EOF\<rparr>]"
  "fst (pe_scan sample_pipeline_env path) = scanOutcome [sample_finding path] [] False None"
  "scan_errors sample_pipeline_env path = []"
  by (simp_all add: disc_jobs_def disc_errors_def sample_items_def sample_pipeline_env_def scan_errors_def
      worker_outcome_def option_list_def)

lemma scan_complete_witness:
  "\<exists>st. pipeline_run sample_pipeline_env (start_pipeline (sample_options 0) sample_items) sample_run st \<and>
    mset (pl_onCertificate st) = {#sample_finding ''a'', sample_finding ''b''#} \<and> pc_filesScanned (pl_counters st) = 2"
proof -
  obtain st where run: "pipeline_run sample_pipeline_env (start_pipeline (sample_options 0) sample_items) sample_run st"
    and res: "pl_result st = Some (Inr sample_report)" "\<not> pl_cancelled st"
    using sample_run_result by blast
  show ?thesis
    using run scan_complete [OF run _ res(2) res(1)] by (auto simp: sample_items_simps sample_report_def)
qed

lemma scan_deterministic_witness:
  "\<exists>st st' r r'. pipeline_run sample_pipeline_env (start_pipeline (sample_options 0) sample_items) sample_run st \<and>
    pipeline_run sample_pipeline_env (start_pipeline two_workers sample_items) sample_run_two st' \<and>
    pl_result st = Some (Inr r) \<and> pl_result st' = Some (Inr r') \<and> rp_Certificates r = rp_Certificates r' \<and>
    rp_Errors r = rp_Errors r'"
proof -
  obtain st where run: "pipeline_run sample_pipeline_env (start_pipeline (sample_options 0) sample_items) sample_run st"
    and res: "pl_result st = Some (Inr sample_report)" "\<not> pl_cancelled st"
    using sample_run_result by blast
  obtain st' where run': "pipeline_run sample_pipeline_env (start_pipeline two_workers sample_items) sample_run_two st'"
    and res': "pl_result st' = Some (Inr sample_report)" "\<not> pl_cancelled st'"
    using sample_run_two_result by blast
  have "inj_on cert_key (set (rp_Certificates sample_report))" "inj_on fe_Path (set (rp_Errors sample_report))"
    by (auto simp: sample_report_def cert_key_def sample_finding_def)
  with scan_deterministic [OF run _ res(2) res(1) run' _ res'(2) res'(1)]
  have "\<exists>r r'. Inr sample_report = (Inr r :: report go_result) \<and> Inr sample_report = (Inr r' :: report go_result) \<and>
      rp_Certificates r = rp_Certificates r' \<and> rp_Errors r = rp_Errors r'"
    by simp
  with run run' res(1) res'(1) show ?thesis by auto
qed

lemma scan_terminates_witness:
  "\<exists>st. pipeline_run sample_pipeline_env (start_pipeline (sample_options 0) sample_items) [DiscAnnounce, DiscSend] st \<and>
    (\<exists>ev st'. own_event ev \<and> pipeline_step sample_pipeline_env ev st = Some st')"
proof -
  have "\<exists>st. run_events sample_pipeline_env [DiscAnnounce, DiscSend] (start_pipeline (sample_options 0) sample_items) = Some st \<and>
    \<not> scan_ended st \<and> \<not> pl_panicked st"
    by (simp add: sample_run_defs scan_ended_def)
  then obtain st where "pipeline_run sample_pipeline_env (start_pipeline (sample_options 0) sample_items) [DiscAnnounce, DiscSend] st"
    and "\<not> scan_ended st" "\<not> pl_panicked st"
    using run_events_run by blast
  with scan_terminates [of sample_pipeline_env "sample_options 0" sample_items "[DiscAnnounce, DiscSend]" st]
  show ?thesis by auto
qed

lemma progress_consistent_witness:
  "\<exists>st. pipeline_run sample_pipeline_env (start_pipeline (sample_options 0) sample_items) sample_run st \<and>
    pc_filesScanned (pl_counters st) \<le> pc_filesDiscovered (pl_counters st) \<and> pc_scanErrors (pl_counters st) \<ge> 0"
  using sample_run_result
    progress_consistent [of sample_pipeline_env "sample_options 0" sample_items sample_run] by fastforce

lemma scan_reports_only_found_witness:
  "\<exists>st. pipeline_run sample_pipeline_env (start_pipeline (sample_options 0) sample_items) sample_run st \<and>
    mset (rp_Certificates (pl_report st)) \<subseteq># {#sample_finding ''b'', sample_finding ''a''#} \<and> \<not> pl_panicked st"
  using sample_run_result
    scan_reports_only_found [of sample_pipeline_env "sample_options 0" sample_items sample_run]
  by (fastforce simp: sample_items_simps)

section \<open>Cancelled scans\<close>

lemma run_events_append:
  "run_events env (evs @ evs') st = (case run_events env evs st of None \<Rightarrow> None | Some st' \<Rightarrow> run_events env evs' st')"
  by (induction evs arbitrary: st) (simp_all split: option.split)

text \<open>A scan at rest: every item so far has been found, scanned by the first worker and collected.\<close>

definition at_rest :: "pipeline_env \<Rightarrow> disc_item list \<Rightarrow> disc_item list \<Rightarrow> pipeline \<Rightarrow> bool" where
  "at_rest env past todo st \<longleftrightarrow>
     pl_todo st = todo \<and> \<not> pl_announced st \<and> pl_jobs st = [] \<and> pl_workers st \<noteq> [] \<and>
     list_all (\<lambda>w. w = WIdle) (pl_workers st) \<and> \<not> pl_outcomesClosed st \<and>
     pl_report st = report_of (pe_options env) (map (item_outcome env) past) \<and>
     \<not> pl_cancelled st \<and> \<not> pl_panicked st \<and> pl_result st = None"

lemma at_rest_start: "1 \<le> opt_Workers options \<Longrightarrow> at_rest env [] items (start_pipeline options items)"
  by (simp add: at_rest_def start_pipeline_def report_of_def list_all_iff)

lemma at_rest_item:
  assumes "at_rest env past (item # todo) st"
  shows "\<exists>evs st'. run_events env evs st = Some st' \<and> at_rest env (past @ [item]) todo st'"
proof -
  obtain w ws where w: "pl_workers st = w # ws" "w = WIdle" "list_all (\<lambda>w. w = WIdle) ws"
    using assms by (cases "pl_workers st") (auto simp: at_rest_def)
  show ?thesis
  proof (cases item)
    case (DErr e)
    with assms w show ?thesis
      by (intro exI [of _ "[DiscError]"]) (simp add: at_rest_def pipeline_step_def)
  next
    case (DJob path)
    with assms w show ?thesis
      by (intro exI [of _ "[DiscAnnounce, DiscSend, WorkerTake 0, WorkerScan 0, WorkerSend 0]"])
        (simp add: at_rest_def pipeline_step_def jobsCapacity_def)
  qed
qed

lemma at_rest_items:
  assumes "at_rest env past (items @ todo) st"
  shows "\<exists>evs st'. run_events env evs st = Some st' \<and> at_rest env (past @ items) todo st'"
  using assms
proof (induction items arbitrary: past st)
  case Nil
  then show ?case by (intro exI [of _ "[]"]) simp
next
  case (Cons item items)
  then obtain evs st1 where 1: "run_events env evs st = Some st1" "at_rest env (past @ [item]) (items @ todo) st1"
    using at_rest_item by fastforce
  from Cons.IH [OF 1(2)] obtain evs' st' where "run_events env evs' st1 = Some st'"
    "at_rest env (past @ item # items) todo st'" by auto
  with 1(1) show ?case by (intro exI [of _ "evs @ evs'"]) (simp add: run_events_append)
qed

text \<open>When the context is cancelled, the workers end and the outcomes are closed.\<close>

lemma workers_quit:
  assumes "pl_cancelled st" and "\<not> pl_panicked st" and "list_all (\<lambda>w. w = WIdle) (drop n (pl_workers st))"
    and "list_all (\<lambda>w. w = WExited) (take n (pl_workers st))"
  shows "\<exists>evs. run_events env evs st = Some (st\<lparr>pl_workers := replicate (length (pl_workers st)) WExited\<rparr>)"
  using assms
proof (induction "length (pl_workers st) - n" arbitrary: n st)
  case 0
  then have "list_all (\<lambda>w. w = WExited) (pl_workers st)" by simp
  then have "\<And>w. w \<in> set (pl_workers st) \<Longrightarrow> w = WExited" by (simp add: list_all_iff)
  from replicate_eqI [OF refl this] have "replicate (length (pl_workers st)) WExited = pl_workers st" by simp
  then show ?case by (intro exI [of _ "[]"]) simp
next
  case (Suc m)
  define st1 where "st1 = set_worker n WExited st"
  have n: "n < length (pl_workers st)" using Suc.hyps(2) by simp
  then have d: "drop n (pl_workers st) = pl_workers st ! n # drop (Suc n) (pl_workers st)"
    by (simp add: Cons_nth_drop_Suc)
  then have step: "pipeline_step env (WorkerQuit n) st = Some st1"
    using Suc.prems n by (simp add: pipeline_step_def st1_def)
  have "list_all (\<lambda>w. w = WExited) (take (Suc n) (pl_workers st1))"
    using Suc.prems(4) n by (simp add: st1_def take_Suc_conv_app_nth)
  moreover have "list_all (\<lambda>w. w = WIdle) (drop (Suc n) (pl_workers st1))"
    using Suc.prems(3) d by (simp add: st1_def)
  moreover have m: "m = length (pl_workers st1) - Suc n" using Suc.hyps(2) by (simp add: st1_def)
  ultimately obtain evs where "run_events env evs st1 = Some (st1\<lparr>pl_workers := replicate (length (pl_workers st1)) WExited\<rparr>)"
    using Suc.hyps(1) [of st1 "Suc n"] m Suc.prems(1,2) by (auto simp: st1_def)
  with step show ?case by (intro exI [of _ "WorkerQuit n # evs"]) (simp add: st1_def set_worker_def)
qed

lemma at_rest_cancelled:
  assumes "at_rest env past todo st"
  shows "\<exists>evs st'. run_events env evs st = Some st' \<and> pl_cancelled st' \<and> pl_outcomesClosed st' \<and> \<not> pl_panicked st' \<and>
    pl_todo st' = todo \<and> pl_result st' = None \<and> pl_report st' = pl_report st"
proof -
  define st1 where "st1 = st\<lparr>pl_cancelled := True\<rparr>"
  have "pipeline_step env Cancel st = Some st1" using assms by (simp add: at_rest_def pipeline_step_def st1_def)
  moreover obtain evs where "run_events env evs st1 = Some (st1\<lparr>pl_workers := replicate (length (pl_workers st1)) WExited\<rparr>)"
    using workers_quit [of st1 0 env] assms by (auto simp: at_rest_def st1_def)
  ultimately show ?thesis
    using assms by (intro exI [of _ "Cancel # evs @ [CloseOutcomes]"])
      (simp add: run_events_append at_rest_def pipeline_step_def st1_def list_all_iff)
qed

lemma cancelled_after:
  assumes "1 \<le> opt_Workers options"
  obtains evs st where "pipeline_run env (start_pipeline options (items @ todo)) evs st" "pl_cancelled st"
    "pl_outcomesClosed st" "\<not> pl_panicked st" "pl_todo st = todo" "pl_result st = None"
    "pl_report st = report_of (pe_options env) (map (item_outcome env) items)"
proof -
  have "at_rest env [] (items @ todo) (start_pipeline options (items @ todo))" using at_rest_start assms by blast
  then obtain evs st1 where run: "run_events env evs (start_pipeline options (items @ todo)) = Some st1"
    and rest: "at_rest env items todo st1"
    using at_rest_items by fastforce
  from at_rest_cancelled [OF rest] obtain evs' st where "run_events env evs' st1 = Some st" "pl_cancelled st"
    "pl_outcomesClosed st" "\<not> pl_panicked st" "pl_todo st = todo" "pl_result st = None" "pl_report st = pl_report st1"
    by blast
  with run rest show thesis
    by (intro that [of "evs @ evs'" st] run_events_run) (simp_all add: run_events_append at_rest_def)
qed

text \<open>What holds of every run.\<close>

definition honest_end :: "pipeline \<Rightarrow> bool" where
  "honest_end st \<longleftrightarrow> (\<forall>e. pl_result st = Some (Inl e) \<longrightarrow> e = context_Canceled) \<and> (pl_panicked st \<longrightarrow> pl_outcomesClosed st)"

lemma honest_end_step:
  assumes "honest_end st" and "pipeline_step env ev st = Some st'"
  shows "honest_end st'"
  using pipeline_step_cases(2) [OF assms(2)]
proof (elim disjE)
  assume "discovery_step env ev st = Some st'"
  then show ?thesis by (cases rule: discovery_stepE) (use assms(1) in \<open>auto simp: honest_end_def\<close>)
next
  assume "worker_step env ev st = Some st'"
  then show ?thesis by (cases rule: worker_stepE) (use assms(1) in \<open>auto simp: honest_end_def\<close>)
next
  assume "main_step ev st = Some st'"
  then show ?thesis by (cases rule: main_stepE) (use assms(1) in \<open>auto simp: honest_end_def\<close>)
qed

lemma run_honest_end: "pipeline_run env st evs st' \<Longrightarrow> honest_end st \<Longrightarrow> honest_end st'"
  by (induction rule: pipeline_run.induct) (auto dest: honest_end_step)

lemma report_of_sorted: "sortReport (sortReport r) = sortReport r"
  by (simp add: sortReport_def sort_certificates sort_encrypted sort_errors sort_key_id_if_sorted)

text \<open>
  C21: what a cancelled scan can end in. In every run, an error returned is that of the cancelled
  context, a panic needs a cancellation and the closed outcomes, and a report returned is sorted and
  holds only certificates of queued files, each no more often than it was found. But the scan need
  not return the error: whatever part of the items has been dealt with when the context is
  cancelled, it can return the report of just that part as if it were complete, because the
  closed outcomes and the cancellation are ready at the same time; and if the next item
  is an error of the discovery, sending it on the closed outcomes can panic.
\<close>

theorem cancelled_scan_races:
  assumes "1 \<le> opt_Workers options"
  shows "(\<forall>evs st. pipeline_run env (start_pipeline options (items @ todo)) evs st \<longrightarrow>
      (pl_panicked st \<longrightarrow> pl_cancelled st \<and> pl_outcomesClosed st) \<and>
      (\<forall>e. pl_result st = Some (Inl e) \<longrightarrow> e = context_Canceled \<and> pl_cancelled st) \<and>
      (\<forall>r. pl_result st = Some (Inr r) \<longrightarrow> sortReport r = r \<and> mset (rp_Certificates r) \<subseteq>#
         mset (concat (map (\<lambda>p. oc_certificates (fst (pe_scan env p))) (disc_jobs (items @ todo)))))) \<and>
    (\<exists>evs st. pipeline_run env (start_pipeline options (items @ todo)) evs st \<and> pl_cancelled st \<and> pl_todo st = todo \<and>
      pl_result st = Some (Inr (sortReport (report_of (pe_options env) (map (item_outcome env) items))))) \<and>
    (\<forall>e rest. todo = DErr e # rest \<longrightarrow>
      (\<exists>evs st. pipeline_run env (start_pipeline options (items @ todo)) evs st \<and> pl_panicked st))"
proof (intro conjI allI impI)
  fix evs st
  assume run: "pipeline_run env (start_pipeline options (items @ todo)) evs st"
  obtain delivered where wo: "well_ordered st" and d: "delivers env (items @ todo) delivered st"
    by (rule run_from_start [OF run assms])
  have h: "honest_end st" by (rule run_honest_end [OF run]) (simp add: honest_end_def start_pipeline_def)
  show "pl_panicked st \<Longrightarrow> pl_cancelled st" "pl_panicked st \<Longrightarrow> pl_outcomesClosed st"
    "pl_result st = Some (Inl e) \<Longrightarrow> e = context_Canceled" "pl_result st = Some (Inl e) \<Longrightarrow> pl_cancelled st" for e
    using wo h by (auto simp: well_ordered_def honest_end_def)
  fix r
  assume res: "pl_result st = Some (Inr r)"
  then have "r = sortReport (report_of (pe_options env) delivered)" "pl_report st = r" using d by (simp_all add: delivers_def)
  then show "sortReport r = r"
    "mset (rp_Certificates r) \<subseteq># mset (concat (map (\<lambda>p. oc_certificates (fst (pe_scan env p))) (disc_jobs (items @ todo))))"
    using report_within [OF d] by (simp_all add: report_of_sorted)
next
  obtain evs st where st: "pipeline_run env (start_pipeline options (items @ todo)) evs st" "pl_cancelled st"
    "pl_outcomesClosed st" "\<not> pl_panicked st" "pl_todo st = todo" "pl_result st = None"
    "pl_report st = report_of (pe_options env) (map (item_outcome env) items)"
    by (rule cancelled_after [OF assms])
  have "\<exists>st'. pipeline_step env CollectEnd st = Some st' \<and> pl_cancelled st' \<and> pl_todo st' = todo \<and>
      pl_result st' = Some (Inr (sortReport (report_of (pe_options env) (map (item_outcome env) items))))"
    using st(2-7) by (simp add: pipeline_step_def)
  with run_snoc [OF st(1)] show "\<exists>evs st. pipeline_run env (start_pipeline options (items @ todo)) evs st \<and> pl_cancelled st \<and> pl_todo st = todo \<and>
      pl_result st = Some (Inr (sortReport (report_of (pe_options env) (map (item_outcome env) items))))"
    by blast
  fix e rest
  assume "todo = DErr e # rest"
  then have "\<exists>st'. pipeline_step env DiscError st = Some st' \<and> pl_panicked st'"
    using st(2-7) by (simp add: pipeline_step_def)
  with run_snoc [OF st(1)] show "\<exists>evs st. pipeline_run env (start_pipeline options (items @ todo)) evs st \<and> pl_panicked st"
    by blast
qed

lemma cancelled_scan_races_witness:
  "(\<exists>evs st. pipeline_run sample_pipeline_env (start_pipeline two_workers sample_items) evs st \<and>
      pl_todo st = tl sample_items \<and> pl_result st = Some (Inr \<lparr>rp_Certificates = [sample_finding ''b''], rp_PKCS12Encrypted = [], rp_Errors = []\<rparr>)) \<and>
   (\<exists>evs st. pipeline_run sample_pipeline_env (start_pipeline two_workers sample_items) evs st \<and> pl_panicked st)"
proof -
  have items: "[DJob ''b''] @ tl sample_items = sample_items" by (simp add: sample_items_def)
  have r: "sortReport (report_of (pe_options sample_pipeline_env) (map (item_outcome sample_pipeline_env) [DJob ''b''])) =
      \<lparr>rp_Certificates = [sample_finding ''b''], rp_PKCS12Encrypted = [], rp_Errors = []\<rparr>"
    by (simp add: report_of_def collect_report_def sortReport_def sort_Slice_def empty_report_def option_list_def
        sample_items_simps)
  have "tl sample_items = DErr \<lparr>fe_Path = ''d'', fe_Err = io_EOF\<rparr> # [DJob ''a'']" by (simp add: sample_items_def)
  with cancelled_scan_races [of two_workers sample_pipeline_env "[DJob ''b'']" "tl sample_items", unfolded items r]
  show ?thesis by auto
qed

end
