(* ===== verification/Filters.thy ===== *)
theory Filters
  imports GoPath
begin

text \<open>
  The path filters of a scan (scanner.go): exclude patterns and extensions, with the functions of
  \<^verbatim>\<open>strings\<close> and \<^verbatim>\<open>path\<close> they use. \<^verbatim>\<open>strings.ToLower\<close>, which is Unicode's table of
  lower cases, is an argument.
\<close>

section \<open>strings.TrimSpace\<close>

text \<open>The UTF-8 encodings of the characters for which \<^verbatim>\<open>unicode.IsSpace\<close> holds.\<close>

definition spaces :: "string list" where
  "spaces = map (\<lambda>r. string_of_runes [r])
     ([9, 10, 11, 12, 13, 32, 0x85, 0xA0, 0x1680] @ [0x2000..<0x200B] @ [0x2028, 0x2029, 0x202F, 0x205F, 0x3000])"

lemma spaces_bytes: "spaces = map string_of_bytes
    ([[9], [10], [11], [12], [13], [32], [0xC2, 0x85], [0xC2, 0xA0], [0xE1, 0x9A, 0x80]] @
     map (\<lambda>b. [0xE2, 0x80, b]) [0x80, 0x81, 0x82, 0x83, 0x84, 0x85, 0x86, 0x87, 0x88, 0x89, 0x8A, 0xA8, 0xA9, 0xAF] @
     [[0xE2, 0x81, 0x9F], [0xE3, 0x80, 0x80]])"
  by code_simp

lemma spaces_strings [code]:
  "spaces = [[CHR 0x09], [CHR 0x0A], [CHR 0x0B], [CHR 0x0C], [CHR 0x0D], [CHR 0x20], [CHR 0xC2, CHR 0x85],
     [CHR 0xC2, CHR 0xA0], [CHR 0xE1, CHR 0x9A, CHR 0x80]] @
    map (\<lambda>c. [CHR 0xE2, CHR 0x80, c]) [CHR 0x80, CHR 0x81, CHR 0x82, CHR 0x83, CHR 0x84, CHR 0x85, CHR 0x86,
      CHR 0x87, CHR 0x88, CHR 0x89, CHR 0x8A, CHR 0xA8, CHR 0xA9, CHR 0xAF] @
    [[CHR 0xE2, CHR 0x81, CHR 0x9F], [CHR 0xE3, CHR 0x80, CHR 0x80]]"
  unfolding spaces_bytes by code_simp

text \<open>At most one step for every byte.\<close>

fun trim_left :: "nat \<Rightarrow> string \<Rightarrow> string" where
  "trim_left 0 s = s"
| "trim_left (Suc n) s =
     (case find (strings_HasPrefix s) spaces of None \<Rightarrow> s | Some p \<Rightarrow> trim_left n (drop (length p) s))"

fun trim_right :: "nat \<Rightarrow> string \<Rightarrow> string" where
  "trim_right 0 s = s"
| "trim_right (Suc n) s =
     (case find (strings_HasSuffix s) spaces of None \<Rightarrow> s | Some p \<Rightarrow> trim_right n (take (length s - length p) s))"

definition strings_TrimSpace :: "string \<Rightarrow> string" where
  "strings_TrimSpace s = (let s = trim_left (length s) s in trim_right (length s) s)"

definition strings_ContainsAny :: "string \<Rightarrow> string \<Rightarrow> bool" where
  "strings_ContainsAny s chars \<longleftrightarrow> list_ex (\<lambda>c. c \<in> set chars) s"

section \<open>path.Match\<close>

text \<open>\<^verbatim>\<open>utf8.DecodeRuneInString\<close>: the character and its width.\<close>

definition utf8_DecodeRune :: "bytes \<Rightarrow> rune \<times> nat" where
  "utf8_DecodeRune bs =
     (let u = (\<lambda>i. unat (bs ! i)) in
      case utf8_len bs of
        0 \<Rightarrow> (if bs = [] then (0xFFFD, 0) else (0xFFFD, 1))
      | Suc 0 \<Rightarrow> (u 0, 1)
      | Suc (Suc 0) \<Rightarrow> (u 0 mod 32 * 64 + u 1 mod 64, 2)
      | Suc (Suc (Suc 0)) \<Rightarrow> (u 0 mod 16 * 4096 + u 1 mod 64 * 64 + u 2 mod 64, 3)
      | _ \<Rightarrow> (u 0 mod 8 * 262144 + u 1 mod 64 * 4096 + u 2 mod 64 * 64 + u 3 mod 64, 4))"

definition DecodeRuneInString :: "string \<Rightarrow> rune \<times> nat" where
  "DecodeRuneInString s = utf8_DecodeRune (bytes_of_string (take 4 s))"

text \<open>A pattern is a list of terms; a character class has its ranges and whether it is negated.\<close>

datatype pattern_term = PStar | PAny | PClass bool "(rune \<times> rune) list" | PChar char

text \<open>One end of a character range; \<open>None\<close> is \<^verbatim>\<open>ErrBadPattern\<close>.\<close>

definition getEsc :: "string \<Rightarrow> (rune \<times> string) option" where
  "getEsc chunk =
     (if chunk = [] \<or> hd chunk = CHR ''-'' \<or> hd chunk = CHR '']'' then None
      else
        let chunk = (if hd chunk = CHR 0x5C then tl chunk else chunk) in
        if chunk = [] then None
        else
          let (r, n) = DecodeRuneInString chunk; rest = drop n chunk in
          if r = 0xFFFD \<and> n = 1 \<or> rest = [] then None else Some (r, rest))"

fun parse_ranges :: "nat \<Rightarrow> (rune \<times> rune) list \<Rightarrow> string \<Rightarrow> ((rune \<times> rune) list \<times> string) option" where
  "parse_ranges 0 ranges chunk = None"
| "parse_ranges (Suc fuel) ranges chunk =
     (if chunk \<noteq> [] \<and> hd chunk = CHR '']'' \<and> ranges \<noteq> [] then Some (ranges, tl chunk)
      else (case getEsc chunk of
        None \<Rightarrow> None
      | Some (lo, chunk) \<Rightarrow>
          if hd chunk = CHR ''-'' then
            (case getEsc (tl chunk) of
               None \<Rightarrow> None
             | Some (hi, chunk) \<Rightarrow> parse_ranges fuel (ranges @ [(lo, hi)]) chunk)
          else parse_ranges fuel (ranges @ [(lo, lo)]) chunk))"

fun parse_pattern :: "nat \<Rightarrow> string \<Rightarrow> pattern_term list option" where
  "parse_pattern fuel [] = Some []"
| "parse_pattern 0 (c # cs) = None"
| "parse_pattern (Suc fuel) (c # cs) =
     (if c = CHR ''*'' then map_option (\<lambda>ts. PStar # ts) (parse_pattern fuel cs)
      else if c = CHR ''?'' then map_option (\<lambda>ts. PAny # ts) (parse_pattern fuel cs)
      else if c = CHR ''['' then
        (let negated = (cs \<noteq> [] \<and> hd cs = CHR ''^'') in
         case parse_ranges (Suc (length cs)) [] (if negated then tl cs else cs) of
           None \<Rightarrow> None
         | Some (ranges, rest) \<Rightarrow> map_option (\<lambda>ts. PClass negated ranges # ts) (parse_pattern fuel rest))
      else if c = CHR 0x5C then
        (case cs of [] \<Rightarrow> None | d # ds \<Rightarrow> map_option (\<lambda>ts. PChar d # ts) (parse_pattern fuel ds))
      else map_option (\<lambda>ts. PChar c # ts) (parse_pattern fuel cs))"

text \<open>The match of a pattern without stars with the start of a name.\<close>

fun matchChunk :: "pattern_term list \<Rightarrow> string \<Rightarrow> string option" where
  "matchChunk [] s = Some s"
| "matchChunk (t # ts) [] = None"
| "matchChunk (PChar c # ts) (x # s) = (if c = x then matchChunk ts s else None)"
| "matchChunk (PAny # ts) (x # s) =
     (if x = slash then None else matchChunk ts (drop (snd (DecodeRuneInString (x # s))) (x # s)))"
| "matchChunk (PClass negated ranges # ts) (x # s) =
     (let (r, n) = DecodeRuneInString (x # s) in
      if list_ex (\<lambda>(lo, hi). lo \<le> r \<and> r \<le> hi) ranges = negated then None
      else matchChunk ts (drop n (x # s)))"
| "matchChunk (PStar # ts) (x # s) = None"

text \<open>The first place behind skipped characters other than slashes where a chunk matches.\<close>

fun skip_match :: "pattern_term list \<Rightarrow> bool \<Rightarrow> string \<Rightarrow> string option" where
  "skip_match chunk final [] = None"
| "skip_match chunk final (x # s) =
     (if x = slash then None
      else (case matchChunk chunk s of
        Some t \<Rightarrow> if final \<and> t \<noteq> [] then skip_match chunk final s else Some t
      | None \<Rightarrow> skip_match chunk final s))"

text \<open>
  \<^verbatim>\<open>path.Match\<close> on a parsed pattern: a star skips as little as possible, and what it skipped
  is not reconsidered.
\<close>

function match_terms :: "pattern_term list \<Rightarrow> string \<Rightarrow> bool" where
  "match_terms [] name = (name = [])"
| "match_terms (p # ps) name =
     (let star = (p = PStar);
          body = dropWhile (\<lambda>t. t = PStar) (p # ps);
          chunk = takeWhile (\<lambda>t. t \<noteq> PStar) body;
          rest = dropWhile (\<lambda>t. t \<noteq> PStar) body
      in if star \<and> chunk = [] then slash \<notin> set name
         else (case (case matchChunk chunk name of
                 Some t \<Rightarrow> if t = [] \<or> rest \<noteq> [] then Some t
                           else if star then skip_match chunk (rest = []) name else None
               | None \<Rightarrow> if star then skip_match chunk (rest = []) name else None) of
             Some t \<Rightarrow> match_terms rest t
           | None \<Rightarrow> False))"
  by pat_completeness auto
termination
proof (relation "measure (length \<circ> fst)")
  fix p :: pattern_term and ps name and star body chunk rest t
  assume "star = (p = PStar)" and b: "body = dropWhile (\<lambda>t. t = PStar) (p # ps)"
    and c: "chunk = takeWhile (\<lambda>t. t \<noteq> PStar) body" and r: "rest = dropWhile (\<lambda>t. t \<noteq> PStar) body"
    and "\<not> (star \<and> chunk = [])"
  then have "body = chunk @ rest" and "p = PStar \<longrightarrow> chunk \<noteq> []" by auto
  moreover have "length body \<le> length (p # ps)" unfolding b by (rule length_dropWhile_le)
  moreover have "p = PStar \<Longrightarrow> length body < length (p # ps)"
    unfolding b using length_dropWhile_le [of "\<lambda>t. t = PStar" ps] by simp
  moreover have "p \<noteq> PStar \<Longrightarrow> chunk \<noteq> []" unfolding b c by simp
  ultimately have "length rest < length (p # ps)"
    by (cases "p = PStar") (auto simp: neq_Nil_conv)
  then show "((rest, t), (p # ps, name)) \<in> measure (length \<circ> fst)" by simp
qed simp

definition path_ErrBadPattern :: go_error where
  "path_ErrBadPattern = ErrSentinel ''syntax error in pattern''"

definition path_Match :: "string \<Rightarrow> string \<Rightarrow> bool go_result" where
  "path_Match pattern name =
     (case parse_pattern (length pattern) pattern of
        None \<Rightarrow> Inl path_ErrBadPattern
      | Some ts \<Rightarrow> Inr (match_terms ts name))"

section \<open>The filters\<close>

definition exclude_pattern :: "string \<Rightarrow> string go_result" where
  "exclude_pattern pattern =
     (let pattern = strings_TrimSpace pattern;
          pattern = strings_TrimPrefix pattern ''./'';
          pattern = strings_TrimSuffix pattern ''/''
      in if pattern = [] \<or> path_IsAbs pattern
         then Inl (Errorf ''invalid exclude pattern %q: use a relative glob'' [AStr pattern])
         else (case path_Match pattern [] of
           Inl err \<Rightarrow> Inl (Wrapf ''invalid exclude pattern %q: %w'' [AStr pattern] err)
         | Inr _ \<Rightarrow> Inr pattern))"

fun normalizeExcludePatterns_loop :: "string list \<Rightarrow> string list \<Rightarrow> string list go_result" where
  "normalizeExcludePatterns_loop result [] = Inr result"
| "normalizeExcludePatterns_loop result (pattern # patterns) =
     (case exclude_pattern pattern of
        Inl err \<Rightarrow> Inl err
      | Inr pattern \<Rightarrow>
          normalizeExcludePatterns_loop
            (if List.member result pattern then result else result @ [pattern]) patterns)"

definition normalizeExcludePatterns :: "string list \<Rightarrow> string list go_result" where
  "normalizeExcludePatterns patterns = normalizeExcludePatterns_loop [] patterns"

definition isExcluded :: "string \<Rightarrow> string list \<Rightarrow> bool" where
  "isExcluded relative patterns =
     list_ex (\<lambda>pattern.
       let candidate = (if slash \<notin> set pattern then path_Base relative else relative)
       in path_Match pattern candidate = Inr True) patterns"

definition normalize_extension :: "(string \<Rightarrow> string) \<Rightarrow> string \<Rightarrow> string go_result" where
  "normalize_extension ToLower extension =
     (let extension = ToLower (strings_TrimSpace extension) in
      if extension = [] then Inl (ErrNew ''extension cannot be empty'')
      else if strings_ContainsAny extension (''/*?[]'' @ [CHR 0x5C, CHR 0x5C])
      then Inl (Errorf ''invalid extension %q'' [AStr extension])
      else
        let extension = (if \<not> strings_HasPrefix extension ''.'' then ''.'' @ extension else extension) in
        if extension = ''.'' then Inl (ErrNew ''extension cannot be empty'') else Inr extension)"

fun normalizeExtensions_loop :: "(string \<Rightarrow> string) \<Rightarrow> string list \<Rightarrow> string list \<Rightarrow> string list go_result" where
  "normalizeExtensions_loop ToLower result [] = Inr result"
| "normalizeExtensions_loop ToLower result (extension # extensions) =
     (case normalize_extension ToLower extension of
        Inl err \<Rightarrow> Inl err
      | Inr extension \<Rightarrow> normalizeExtensions_loop ToLower (result @ [extension]) extensions)"

definition normalizeExtensions :: "(string \<Rightarrow> string) \<Rightarrow> string list \<Rightarrow> string list go_result" where
  "normalizeExtensions ToLower extensions =
     map_sum id (\<lambda>result. remdups_adj (sort result)) (normalizeExtensions_loop ToLower [] extensions)"

definition matchesExtension :: "(string \<Rightarrow> string) \<Rightarrow> string \<Rightarrow> string list \<Rightarrow> bool" where
  "matchesExtension ToLower filePath extensions \<longleftrightarrow>
     length extensions = 0 \<or> List.member extensions (ToLower (filepath_Ext filePath))"

section \<open>Literal patterns\<close>

definition literal :: "string \<Rightarrow> bool" where
  "literal p \<longleftrightarrow> list_all (\<lambda>c. c \<notin> {CHR ''*'', CHR ''?'', CHR ''['', CHR 0x5C}) p"

lemma parse_literal: "literal p \<Longrightarrow> length p \<le> fuel \<Longrightarrow> parse_pattern fuel p = Some (map PChar p)"
proof (induction p arbitrary: fuel)
  case (Cons c p)
  then show ?case by (cases fuel) (auto simp: literal_def)
qed simp

lemma matchChunk_literal: "matchChunk (map PChar p) s = (if prefix p s then Some (drop (length p) s) else None)"
proof (induction p arbitrary: s)
  case (Cons c p)
  then show ?case by (cases s) auto
qed simp

lemma match_literal: "match_terms (map PChar p) s \<longleftrightarrow> s = p"
proof (cases p)
  case (Cons c cs)
  have chunk: "takeWhile (\<lambda>t. t \<noteq> PStar) (map PChar q) = map PChar q"
    "dropWhile (\<lambda>t. t \<noteq> PStar) (map PChar q) = []" for q
    by (simp_all add: takeWhile_eq_all_conv)
  have "match_terms (map PChar p) s = (case matchChunk (map PChar p) s of Some t \<Rightarrow> t = [] | None \<Rightarrow> False)"
    by (simp add: Cons chunk [of cs] split: option.split)
  then show ?thesis by (auto simp: matchChunk_literal prefix_def)
qed auto

lemma path_Match_literal: "literal p \<Longrightarrow> path_Match p s = Inr (s = p)"
  by (simp add: path_Match_def parse_literal match_literal)

lemma split_on_append:
  assumes "slash \<notin> set name"
  obtains w ws where "split_on slash (d @ slash # name) = w # ws @ [name]"
proof -
  have "split_on slash name = [name]" using assms by (induction name) auto
  then have "\<exists>w ws. split_on slash (d @ slash # name) = w # ws @ [name]"
    by (induction d) auto
  then show thesis using that by blast
qed

lemma path_Base_join:
  assumes "slash \<notin> set name" and "name \<noteq> []"
  shows "path_Base (d @ slash # name) = name"
proof -
  have "last name \<noteq> slash" using assms by (metis last_in_set)
  then have "dropWhile (\<lambda>c. c = slash) (rev (d @ slash # name)) = rev (d @ slash # name)"
    using assms(2) by (cases name rule: rev_cases) auto
  moreover obtain w ws where "split_on slash (d @ slash # name) = w # ws @ [name]"
    by (rule split_on_append [OF assms(1)])
  ultimately show ?thesis by (simp add: path_Base_def)
qed

lemma path_Base_name:
  assumes "slash \<notin> set name" and "name \<noteq> []"
  shows "path_Base name = name"
proof -
  have "split_on slash name = [name]" using assms(1) by (induction name) auto
  moreover have "last name \<noteq> slash" using assms by (metis last_in_set)
  then have "dropWhile (\<lambda>c. c = slash) (rev name) = rev name"
    using assms(2) by (cases name rule: rev_cases) auto
  ultimately show ?thesis using assms by (simp add: path_Base_def)
qed

text \<open>
  A pattern without a slash excludes a name at any depth or nowhere; a literal pattern with a
  slash excludes exactly the path it spells.
\<close>

theorem exclude_depth:
  assumes "slash \<notin> set name" and "name \<noteq> []"
  shows "(slash \<notin> set p \<longrightarrow> isExcluded (dir @ slash # name) [p] = isExcluded name [p]) \<and>
    (slash \<in> set p \<and> literal p \<longrightarrow> isExcluded relative [p] = (relative = p))"
  using assms
  by (simp add: isExcluded_def path_Base_join path_Base_name path_Match_literal)

lemma exclude_depth_witness:
  "isExcluded ''a/b/c.pem'' [''*.pem''] \<and> isExcluded ''c.pem'' [''*.pem''] \<and> \<not> isExcluded ''a/b'' [''b/a'']"
proof -
  have "isExcluded ''c.pem'' [''*.pem'']" by code_simp
  then show ?thesis
    using exclude_depth [of "''c.pem''" "''*.pem''" "''a/b''" "[]"]
      exclude_depth [of "''c.pem''" "''b/a''" "[]" "''a/b''"]
    by (simp add: literal_def)
qed

section \<open>Extensions\<close>

text \<open>What a normalised extension looks like.\<close>

definition extension_ok :: "string \<Rightarrow> bool" where
  "extension_ok e \<longleftrightarrow> strings_HasPrefix e ''.'' \<and> 2 \<le> length e \<and>
     \<not> strings_ContainsAny e (''/*?[]'' @ [CHR 0x5C])"

lemma normalize_extension_ok:
  assumes "normalize_extension ToLower e = Inr e'"
  shows "extension_ok e'"
proof -
  define x where "x = ToLower (strings_TrimSpace e)"
  from assms have x: "x \<noteq> []" "\<not> strings_ContainsAny x (''/*?[]'' @ [CHR 0x5C])"
    and e': "e' = (if strings_HasPrefix x ''.'' then x else ''.'' @ x)" "e' \<noteq> ''.''"
    by (auto simp: normalize_extension_def x_def [symmetric] strings_ContainsAny_def Let_def split: if_splits)
  have "strings_HasPrefix e' ''.''" using e'(1) by (simp add: strings_HasPrefix_def)
  then obtain t where t: "e' = CHR ''.'' # t" by (cases e') (auto simp: strings_HasPrefix_def)
  with e'(2) have "2 \<le> length e'" by (cases t) auto
  moreover have "\<not> strings_ContainsAny e' (''/*?[]'' @ [CHR 0x5C])"
    using x(2) e'(1) by (auto simp: strings_ContainsAny_def)
  ultimately show ?thesis using \<open>strings_HasPrefix e' ''.''\<close> by (simp add: extension_ok_def)
qed

lemma distinct_remdups_adj_sort: "sorted (xs :: 'a::linorder list) \<Longrightarrow> distinct (remdups_adj xs)"
  by (induction xs rule: remdups_adj.induct) auto

lemma normalizeExtensions_loop_ok:
  "normalizeExtensions_loop ToLower result es = Inr result' \<Longrightarrow>
     \<exists>new. result' = result @ new \<and> list_all2 (\<lambda>e e'. normalize_extension ToLower e = Inr e') es new"
proof (induction es arbitrary: result)
  case (Cons e es)
  then obtain e' where e: "normalize_extension ToLower e = Inr e'"
    "normalizeExtensions_loop ToLower (result @ [e']) es = Inr result'"
    by (auto split: sum.splits)
  from Cons.IH [OF e(2)] e(1) show ?case by auto
qed simp

text \<open>
  The extensions that are accepted are normalised to distinct sorted ones that begin with a dot
  and contain nothing a file name's extension cannot; a file is selected exactly when the
  lower case of its extension is one of those given, written with or without the dot.
\<close>

theorem extensions_normalized:
  assumes "normalizeExtensions ToLower es = Inr normalized"
  shows "sorted normalized \<and> distinct normalized \<and> list_all extension_ok normalized \<and>
    matchesExtension ToLower f normalized =
      (es = [] \<or> list_ex (\<lambda>e. normalize_extension ToLower e = Inr (ToLower (filepath_Ext f))) es)"
proof -
  from assms obtain result where r: "normalizeExtensions_loop ToLower [] es = Inr result"
    and n: "normalized = remdups_adj (sort result)"
    by (auto simp: normalizeExtensions_def map_sum_eq_Inr)
  from normalizeExtensions_loop_ok [OF r]
  have all: "list_all2 (\<lambda>e e'. normalize_extension ToLower e = Inr e') es result" by simp
  then have "list_all extension_ok result"
    using normalize_extension_ok by (auto simp: list_all2_conv_all_nth list_all_length)
  moreover have "e' \<in> set result \<longleftrightarrow> list_ex (\<lambda>e. normalize_extension ToLower e = Inr e') es" for e'
    using all by (induction rule: list_all2_induct) auto
  moreover have "es = [] \<longleftrightarrow> result = []" using all by auto
  moreover have "sort result = [] \<longleftrightarrow> result = []" by (metis length_0_conv length_sort)
  ultimately show ?thesis
    by (auto simp: n matchesExtension_def list_all_iff sorted_remdups_adj
        distinct_remdups_adj_sort)
qed

lemma extensions_normalized_witness:
  "normalizeExtensions (map ascii_lower) ['' PEM '', ''.crt'', ''pem''] = Inr [''.crt'', ''.pem''] \<and>
   matchesExtension (map ascii_lower) ''a/B.Pem'' [''.crt'', ''.pem'']"
proof -
  have n: "normalizeExtensions (map ascii_lower) ['' PEM '', ''.crt'', ''pem''] = Inr [''.crt'', ''.pem'']"
    by code_simp
  have "normalize_extension (map ascii_lower) '' PEM '' = Inr (map ascii_lower (filepath_Ext ''a/B.Pem''))"
    by code_simp
  with extensions_normalized [OF n, of "''a/B.Pem''"] n show ?thesis by simp
qed

end
