(* ===== verification/Discovery.thy ===== *)
theory Discovery
  imports GoFs Filters Pipeline
begin

text \<open>
  The discovery of a scan (\<^verbatim>\<open>discoveryWalker\<close>, scanner.go): the walk of a directory tree with
  and without following symbolic links, and the checks \<^verbatim>\<open>Scan\<close> makes before it starts.
  The walk sends its paths and errors to the items of its state.
\<close>

section \<open>The walker\<close>

text \<open>
  The fields of \<^verbatim>\<open>discoveryWalker\<close> that do not change, with the functions it calls:
  \<open>wk_filesystemID\<close> is \<^verbatim>\<open>options.filesystemID\<close>.
\<close>

record walker =
  wk_fs :: fs_lib
  wk_ToLower :: "string \<Rightarrow> string"
  wk_filesystemID :: "file_info \<Rightarrow> int option"
  wk_root :: string
  wk_walkRoot :: string
  wk_options :: options
  wk_rootFilesystem :: int

text \<open>
  What it changes: the items sent, the visited directories, and what the context answers to the
  next questions: a question is a look at \<^verbatim>\<open>ctx.Err()\<close> or a send that \<^verbatim>\<open>ctx.Done()\<close> can
  win. The context is not cancelled when there are no more answers.
\<close>

record walk_state =
  ws_items :: "disc_item list"
  ws_visited :: "string set"
  ws_cancels :: "bool list"

definition cancelled :: "walk_state \<Rightarrow> bool" where
  "cancelled st \<longleftrightarrow> (case ws_cancels st of [] \<Rightarrow> False | b # _ \<Rightarrow> b)"

definition asked :: "walk_state \<Rightarrow> walk_state" where
  "asked st = st\<lparr>ws_cancels := tl (ws_cancels st)\<rparr>"

text \<open>A send: the item is delivered, or the cancellation comes first.\<close>

definition send_item :: "disc_item \<Rightarrow> walk_state \<Rightarrow> bool \<times> walk_state" where
  "send_item item st =
     (if cancelled st then (False, asked st)
      else (True, (asked st)\<lparr>ws_items := ws_items st @ [item]\<rparr>))"

definition reportError :: "string \<Rightarrow> go_error \<Rightarrow> walk_state \<Rightarrow> bool \<times> walk_state" where
  "reportError displayPath err st = send_item (DErr \<lparr>fe_Path = displayPath, fe_Err = err\<rparr>) st"

definition queuePath :: "string \<Rightarrow> walk_state \<Rightarrow> bool \<times> walk_state" where
  "queuePath filePath st = send_item (DJob filePath) st"

section \<open>File systems\<close>

text \<open>\<^verbatim>\<open>platformFilesystemID\<close> on Linux, Darwin and other systems.\<close>

definition platformFilesystemID_linux :: "file_info \<Rightarrow> int option" where
  "platformFilesystemID_linux info = fi_Dev info"

definition platformFilesystemID_darwin :: "file_info \<Rightarrow> int option" where
  "platformFilesystemID_darwin info =
     (case fi_Dev info of None \<Rightarrow> None | Some dev \<Rightarrow> if dev < 0 then None else Some dev)"

definition platformFilesystemID_other :: "file_info \<Rightarrow> int option" where
  "platformFilesystemID_other info = None"

definition infoOnRootFilesystem :: "walker \<Rightarrow> string \<Rightarrow> file_info \<Rightarrow> walk_state \<Rightarrow> bool \<times> walk_state" where
  "infoOnRootFilesystem w displayPath info st =
     (if \<not> opt_OneFileSystem (wk_options w) then (True, st)
      else (case wk_filesystemID w info of
          None \<Rightarrow> (False, snd (reportError displayPath (ErrNew ''filesystem identity is unavailable'') st))
        | Some filesystem \<Rightarrow> (filesystem = wk_rootFilesystem w, st)))"

definition entryOnRootFilesystem :: "walker \<Rightarrow> string \<Rightarrow> dir_entry \<Rightarrow> walk_state \<Rightarrow> bool \<times> walk_state" where
  "entryOnRootFilesystem w displayPath entry st =
     (if \<not> opt_OneFileSystem (wk_options w) then (True, st)
      else (case de_Info entry of
          Inl err \<Rightarrow> (False, snd (reportError displayPath err st))
        | Inr info \<Rightarrow> infoOnRootFilesystem w displayPath info st))"

section \<open>Without symbolic links\<close>

definition paths :: "walker \<Rightarrow> string \<Rightarrow> string \<times> string" where
  "paths w filePath =
     (case filepath_Rel (wk_walkRoot w) filePath of
        Inl err \<Rightarrow> (filePath, ''.'')
      | Inr relativePath \<Rightarrow>
          (if wk_walkRoot w \<noteq> wk_root w then path_Join (wk_root w) relativePath else filePath, relativePath))"

definition visitWithoutSymlinks ::
  "walker \<Rightarrow> string \<Rightarrow> visit \<Rightarrow> walk_state \<Rightarrow> go_error option \<times> walk_state" where
  "visitWithoutSymlinks w filePath v st =
     (if cancelled st then (Some context_Canceled, asked st)
      else
        let st = asked st; (displayPath, relative) = paths w filePath in
        case v of
          VisitFailed entry walkErr \<Rightarrow>
            (case reportError displayPath walkErr st of
               (False, st) \<Rightarrow> (Some context_Canceled, st)
             | (True, st) \<Rightarrow> (case entry of
                   Some e \<Rightarrow> (if de_IsDir e then Some SkipDir else None, st)
                 | None \<Rightarrow> (None, st)))
        | Visit entry \<Rightarrow>
            if relative \<noteq> ''.'' \<and> isExcluded relative (opt_Exclude (wk_options w))
            then (if de_IsDir entry then Some SkipDir else None, st)
            else if de_IsDir entry then
              (if relative \<noteq> ''.'' then
                 (case entryOnRootFilesystem w displayPath entry st of
                    (on, st) \<Rightarrow> (if on then None else Some SkipDir, st))
               else (None, st))
            else if de_Type entry \<noteq> ModeRegular \<or>
                \<not> matchesExtension (wk_ToLower w) displayPath (opt_Extensions (wk_options w))
            then (None, st)
            else (case entryOnRootFilesystem w displayPath entry st of
                (False, st) \<Rightarrow> (None, st)
              | (True, st) \<Rightarrow> (case queuePath displayPath st of
                    (False, st) \<Rightarrow> (Some context_Canceled, st)
                  | (True, st) \<Rightarrow> (None, st))))"

section \<open>Following symbolic links\<close>

definition markVisited :: "string \<Rightarrow> walk_state \<Rightarrow> bool \<times> walk_state" where
  "markVisited physicalPath st =
     (if physicalPath \<in> ws_visited st then (False, st)
      else (True, st\<lparr>ws_visited := insert physicalPath (ws_visited st)\<rparr>))"

text \<open>
  A walk of a directory takes its physical, displayed and relative path. It tells whether to
  go on, or \<open>None\<close> when its fuel ran out; the visit of an entry gets the walk of one level
  less of fuel.
\<close>

type_synonym walk = "string \<Rightarrow> string \<Rightarrow> string \<Rightarrow> walk_state \<Rightarrow> (bool \<times> walk_state) option"

definition enter_directory :: "walk \<Rightarrow> string \<Rightarrow> string \<Rightarrow> string \<Rightarrow> walk_state \<Rightarrow> (bool \<times> walk_state) option" where
  "enter_directory walk physicalPath displayPath relative st =
     (case markVisited physicalPath st of
        (True, st) \<Rightarrow> walk physicalPath displayPath relative st
      | (False, st) \<Rightarrow> Some (True, st))"

definition visitSymlink ::
  "walker \<Rightarrow> walk \<Rightarrow> string \<Rightarrow> string \<Rightarrow> string \<Rightarrow> walk_state \<Rightarrow> (bool \<times> walk_state) option" where
  "visitSymlink w walk physicalPath displayPath relative st =
     (case os_Stat (wk_fs w) physicalPath of
        Inl err \<Rightarrow> Some (reportError displayPath err st)
      | Inr info \<Rightarrow> (case infoOnRootFilesystem w displayPath info st of
          (False, st) \<Rightarrow> Some (True, st)
        | (True, st) \<Rightarrow>
            if fi_Mode info = ModeDir then
              (case filepath_EvalSymlinks (wk_fs w) physicalPath of
                 Inl err \<Rightarrow> Some (reportError displayPath err st)
               | Inr resolved \<Rightarrow> (case filepath_Abs (wk_fs w) resolved of
                   Inl err \<Rightarrow> Some (reportError displayPath err st)
                 | Inr resolved \<Rightarrow> enter_directory walk (path_Clean resolved) displayPath relative st))
            else if fi_Mode info \<noteq> ModeRegular \<or>
                \<not> matchesExtension (wk_ToLower w) displayPath (opt_Extensions (wk_options w))
            then Some (True, st)
            else Some (queuePath displayPath st)))"

definition visit_entry ::
  "walker \<Rightarrow> walk \<Rightarrow> string \<Rightarrow> string \<Rightarrow> string \<Rightarrow> dir_entry \<Rightarrow> walk_state \<Rightarrow> (bool \<times> walk_state) option" where
  "visit_entry w walk physicalDirectory displayDirectory relativeDirectory entry st =
     (let displayPath = path_Join displayDirectory (de_Name entry);
          physicalPath = path_Join physicalDirectory (de_Name entry);
          relative = path_Join relativeDirectory (de_Name entry)
      in if isExcluded relative (opt_Exclude (wk_options w)) then Some (True, st)
         else if de_Type entry = ModeSymlink then visitSymlink w walk physicalPath displayPath relative st
         else if de_IsDir entry then
           (case entryOnRootFilesystem w displayPath entry st of
              (False, st) \<Rightarrow> Some (True, st)
            | (True, st) \<Rightarrow> enter_directory walk (path_Clean physicalPath) displayPath relative st)
         else if de_Type entry \<noteq> ModeRegular \<or>
             \<not> matchesExtension (wk_ToLower w) displayPath (opt_Extensions (wk_options w))
         then Some (True, st)
         else (case entryOnRootFilesystem w displayPath entry st of
             (False, st) \<Rightarrow> Some (True, st)
           | (True, st) \<Rightarrow> Some (queuePath displayPath st)))"

fun visit_entries :: "(dir_entry \<Rightarrow> walk_state \<Rightarrow> (bool \<times> walk_state) option) \<Rightarrow> dir_entry list \<Rightarrow> walk_state \<Rightarrow>
    (bool \<times> walk_state) option" where
  "visit_entries visit [] st = Some (True, st)"
| "visit_entries visit (entry # entries) st =
     (if cancelled st then Some (False, asked st)
      else (case visit entry (asked st) of
          None \<Rightarrow> None
        | Some (False, st) \<Rightarrow> Some (False, st)
        | Some (True, st) \<Rightarrow> visit_entries visit entries st))"

fun walkDirectory :: "walker \<Rightarrow> nat \<Rightarrow> walk" where
  "walkDirectory w 0 physicalDirectory displayDirectory relativeDirectory st = None"
| "walkDirectory w (Suc fuel) physicalDirectory displayDirectory relativeDirectory st =
     (if cancelled st then Some (False, asked st)
      else
        let st = asked st in
        case os_ReadDir (wk_fs w) physicalDirectory of
          Inl err \<Rightarrow> Some (reportError displayDirectory err st)
        | Inr entries \<Rightarrow>
            visit_entries (visit_entry w (walkDirectory w fuel) physicalDirectory displayDirectory relativeDirectory)
              entries st)"

definition walkWithSymlinks :: "walker \<Rightarrow> nat \<Rightarrow> walk_state \<Rightarrow> walk_state option" where
  "walkWithSymlinks w fuel st =
     (case filepath_Abs (wk_fs w) (wk_walkRoot w) of
        Inl err \<Rightarrow> Some (snd (reportError (wk_root w) err st))
      | Inr physicalRoot \<Rightarrow> (case filepath_EvalSymlinks (wk_fs w) physicalRoot of
          Inl err \<Rightarrow> Some (snd (reportError (wk_root w) err st))
        | Inr physicalRoot \<Rightarrow>
            let physicalRoot = path_Clean physicalRoot in
            map_option snd (walkDirectory w fuel physicalRoot (wk_root w) [] (st\<lparr>ws_visited := {physicalRoot}\<rparr>))))"

definition walk_tree :: "walker \<Rightarrow> nat \<Rightarrow> walk_state \<Rightarrow> walk_state option" where
  "walk_tree w fuel st =
     (if opt_FollowSymlinks (wk_options w) then walkWithSymlinks w fuel st
      else map_option snd (WalkDir (wk_fs w) fuel (wk_walkRoot w) (visitWithoutSymlinks w) st))"

end
