(* ===== verification/DiscoveryFacts.thy ===== *)
theory DiscoveryFacts
  imports Discovery GoPathFacts
begin

text \<open>
  What the discovery guarantees: the files it queues pass the filters, and the walk
  that follows symbolic links ends.
\<close>

section \<open>Single operations\<close>

definition queued :: "walk_state \<Rightarrow> string set" where
  "queued st = {p. DJob p \<in> set (ws_items st)}"

lemma send_simps [simp]:
  "ws_visited (snd (send_item item st)) = ws_visited st"
  "ws_visited (asked st) = ws_visited st"
  "ws_items (asked st) = ws_items st"
  "queued (asked st) = queued st"
  by (simp_all add: send_item_def asked_def queued_def)

lemma reportError_simps [simp]:
  "ws_visited (snd (reportError p err st)) = ws_visited st"
  "queued (snd (reportError p err st)) = queued st"
  by (auto simp: reportError_def queued_def) (auto simp: send_item_def asked_def split: if_splits)

lemma queuePath_simps [simp]:
  "ws_visited (snd (queuePath p st)) = ws_visited st"
  "queued (snd (queuePath p st)) \<subseteq> insert p (queued st)"
  by (auto simp: queuePath_def queued_def) (auto simp: send_item_def asked_def split: if_splits)

lemma infoOnRootFilesystem_simps [simp]:
  "ws_visited (snd (infoOnRootFilesystem w p info st)) = ws_visited st"
  "queued (snd (infoOnRootFilesystem w p info st)) = queued st"
  by (simp_all add: infoOnRootFilesystem_def split: option.split)

lemma entryOnRootFilesystem_simps [simp]:
  "ws_visited (snd (entryOnRootFilesystem w p entry st)) = ws_visited st"
  "queued (snd (entryOnRootFilesystem w p entry st)) = queued st"
  by (simp_all add: entryOnRootFilesystem_def split: sum.split)

text \<open>The same as elimination rules for the pairs the operations return.\<close>

lemma reportErrorD: "reportError p err st = (b, st') \<Longrightarrow> ws_visited st' = ws_visited st \<and> queued st' = queued st"
  by (metis reportError_simps snd_conv)

lemma queuePathD: "queuePath p st = (b, st') \<Longrightarrow> ws_visited st' = ws_visited st \<and> queued st' \<subseteq> insert p (queued st)"
  by (metis queuePath_simps snd_conv)

text \<open>A file that may be queued as far as the file systems are concerned.\<close>

definition on_root :: "walker \<Rightarrow> file_info go_result \<Rightarrow> bool" where
  "on_root w info \<longleftrightarrow> opt_OneFileSystem (wk_options w) \<longrightarrow>
     (case info of Inl err \<Rightarrow> False | Inr i \<Rightarrow> wk_filesystemID w i = Some (wk_rootFilesystem w))"

lemma infoOnRootD: "infoOnRootFilesystem w p info st = (b, st') \<Longrightarrow>
    ws_visited st' = ws_visited st \<and> queued st' = queued st \<and> (b \<longrightarrow> on_root w (Inr info))"
  by (auto simp: infoOnRootFilesystem_def on_root_def dest: reportErrorD split: if_splits option.splits)

lemma entryOnRootD: "entryOnRootFilesystem w p entry st = (b, st') \<Longrightarrow>
    ws_visited st' = ws_visited st \<and> queued st' = queued st \<and> (b \<longrightarrow> on_root w (de_Info entry))"
  by (auto simp: entryOnRootFilesystem_def dest: infoOnRootD split: if_splits sum.splits)
    (simp add: on_root_def)

lemma enter_directory_cases:
  assumes "enter_directory walk physical display relative st = r"
  obtains "physical \<in> ws_visited st" "r = Some (True, st)"
  | "physical \<notin> ws_visited st"
    "walk physical display relative (st\<lparr>ws_visited := insert physical (ws_visited st)\<rparr>) = r"
  using assms by (auto simp: enter_directory_def markVisited_def split: if_splits)

section \<open>Following links ends\<close>

text \<open>
  The directories a walk can reach are among \<open>D\<close>: the directories in one of them, and the targets
  of the symbolic links.
\<close>

definition directories_within :: "walker \<Rightarrow> string set \<Rightarrow> bool" where
  "directories_within w D \<longleftrightarrow>
     (\<forall>dir\<in>D. \<forall>entries e. os_ReadDir (wk_fs w) dir = Inr entries \<longrightarrow> e \<in> set entries \<longrightarrow> de_IsDir e \<longrightarrow>
        path_Clean (path_Join dir (de_Name e)) \<in> D) \<and>
     (\<forall>link r r'. filepath_EvalSymlinks (wk_fs w) link = Inr r \<longrightarrow> filepath_Abs (wk_fs w) r = Inr r' \<longrightarrow>
        path_Clean r' \<in> D) \<and>
     (\<forall>a r. filepath_Abs (wk_fs w) (wk_walkRoot w) = Inr a \<longrightarrow> filepath_EvalSymlinks (wk_fs w) a = Inr r \<longrightarrow>
        path_Clean r \<in> D)"

text \<open>A walk that visits directories of \<open>D\<close> and returns.\<close>

definition walk_returns :: "string set \<Rightarrow> nat \<Rightarrow> walk \<Rightarrow> bool" where
  "walk_returns D fuel walk \<longleftrightarrow>
     (\<forall>physical display relative st. physical \<in> D \<longrightarrow> physical \<in> ws_visited st \<longrightarrow> card (D - ws_visited st) < fuel \<longrightarrow>
        (\<exists>b st'. walk physical display relative st = Some (b, st') \<and> ws_visited st \<subseteq> ws_visited st'))"

lemma walk_returnsD:
  "walk_returns D fuel walk \<Longrightarrow> physical \<in> D \<Longrightarrow> physical \<in> ws_visited st \<Longrightarrow> card (D - ws_visited st) < fuel \<Longrightarrow>
     \<exists>b st'. walk physical display relative st = Some (b, st') \<and> ws_visited st \<subseteq> ws_visited st'"
  by (simp add: walk_returns_def)

lemma enter_returns:
  assumes "walk_returns D fuel walk" and "finite D" and "physical \<in> D" and "card (D - ws_visited st) \<le> fuel"
  shows "\<exists>b st'. enter_directory walk physical display relative st = Some (b, st') \<and> ws_visited st \<subseteq> ws_visited st'"
proof (cases "physical \<in> ws_visited st")
  case False
  then have "D - insert physical (ws_visited st) \<subset> D - ws_visited st" using assms(3) by blast
  then have "card (D - insert physical (ws_visited st)) < card (D - ws_visited st)"
    using assms(2) by (simp add: psubset_card_mono)
  then have "card (D - insert physical (ws_visited st)) < fuel" using assms(4) by simp
  with walk_returnsD [OF assms(1,3), of "st\<lparr>ws_visited := insert physical (ws_visited st)\<rparr>" display relative] False
  show ?thesis by (auto simp: enter_directory_def markVisited_def)
qed (auto simp: enter_directory_def markVisited_def)

lemma visitSymlink_returns:
  assumes "walk_returns D fuel walk" and "finite D" and "directories_within w D"
    and "card (D - ws_visited st) \<le> fuel"
  shows "\<exists>b st'. visitSymlink w walk physical display relative st = Some (b, st') \<and> ws_visited st \<subseteq> ws_visited st'"
proof (cases "os_Stat (wk_fs w) physical")
  case (Inl err)
  then show ?thesis by (cases "reportError display err st") (auto simp: visitSymlink_def dest: reportErrorD)
next
  case (Inr info)
  obtain b st1 where i: "infoOnRootFilesystem w display info st = (b, st1)" by (rule prod.exhaust)
  then have st1: "ws_visited st1 = ws_visited st" by (simp add: infoOnRootD)
  have err: "\<exists>b st'. Some (reportError display e st1) = Some (b, st') \<and> ws_visited st \<subseteq> ws_visited st'" for e
    using st1 by (cases "reportError display e st1") (auto dest: reportErrorD)
  have q: "\<exists>b st'. Some (queuePath display st1) = Some (b, st') \<and> ws_visited st \<subseteq> ws_visited st'"
    using st1 by (cases "queuePath display st1") (auto dest: queuePathD)
  have e: "\<exists>b st'. enter_directory walk (path_Clean r') display relative st1 = Some (b, st') \<and> ws_visited st \<subseteq> ws_visited st'"
    if "filepath_EvalSymlinks (wk_fs w) physical = Inr r" "filepath_Abs (wk_fs w) r = Inr r'" for r r'
    using enter_returns [OF assms(1,2), of "path_Clean r'" st1] that assms(3,4) st1
    by (auto simp: directories_within_def)
  show ?thesis
    using Inr i st1 err q e
    by (cases b) (auto simp: visitSymlink_def split: sum.split)
qed

lemma visit_entry_returns:
  assumes "walk_returns D fuel walk" and "finite D" and "directories_within w D"
    and "card (D - ws_visited st) \<le> fuel" and "dir \<in> D" and "os_ReadDir (wk_fs w) dir = Inr entries" and "e \<in> set entries"
  shows "\<exists>b st'. visit_entry w walk dir display relative e st = Some (b, st') \<and> ws_visited st \<subseteq> ws_visited st'"
proof -
  let ?d = "path_Join display (de_Name e)" and ?r = "path_Join relative (de_Name e)"
  obtain b st1 where i: "entryOnRootFilesystem w ?d e st = (b, st1)" by (rule prod.exhaust)
  then have st1: "ws_visited st1 = ws_visited st" by (simp add: entryOnRootD)
  have q: "\<exists>b st'. Some (queuePath ?d st1) = Some (b, st') \<and> ws_visited st \<subseteq> ws_visited st'"
    using st1 by (cases "queuePath ?d st1") (auto dest: queuePathD)
  have "\<exists>b st'. enter_directory walk (path_Clean (path_Join dir (de_Name e))) ?d ?r st1 = Some (b, st') \<and>
      ws_visited st \<subseteq> ws_visited st'" if "de_IsDir e"
    using enter_returns [OF assms(1,2), of "path_Clean (path_Join dir (de_Name e))" st1] that assms(3-7) st1
    by (auto simp: directories_within_def)
  moreover note visitSymlink_returns [OF assms(1-4), of "path_Join dir (de_Name e)" ?d ?r] i st1 q
  ultimately show ?thesis
    by (cases b) (auto simp: visit_entry_def Let_def)
qed

lemma visit_entries_returns:
  assumes "\<And>e st. e \<in> set entries \<Longrightarrow> card (D - ws_visited st) \<le> fuel \<Longrightarrow>
      \<exists>b st'. visit e st = Some (b, st') \<and> ws_visited st \<subseteq> ws_visited st'"
    and "finite D" and "card (D - ws_visited st) \<le> fuel"
  shows "\<exists>b st'. visit_entries visit entries st = Some (b, st') \<and> ws_visited st \<subseteq> ws_visited st'"
  using assms(1,3)
proof (induction entries arbitrary: st)
  case (Cons e entries)
  obtain b st1 where v: "visit e (asked st) = Some (b, st1)" "ws_visited st \<subseteq> ws_visited st1"
    using Cons.prems(1) [of e "asked st"] Cons.prems(2) by auto
  then have "card (D - ws_visited st1) \<le> card (D - ws_visited st)"
    using assms(2) by (intro card_mono) auto
  then have "\<exists>b st'. visit_entries visit entries st1 = Some (b, st') \<and> ws_visited st1 \<subseteq> ws_visited st'"
    using Cons.IH [of st1] Cons.prems by simp
  with v show ?case by (cases b) auto
qed auto

lemma walkDirectory_returns:
  assumes "finite D" and "directories_within w D"
  shows "walk_returns D fuel (walkDirectory w fuel)"
proof (induction fuel)
  case (Suc fuel)
  show ?case unfolding walk_returns_def
  proof (intro allI impI)
    fix physical display relative :: string and st :: walk_state
    assume p: "physical \<in> D" and "card (D - ws_visited st) < Suc fuel"
    then have c: "card (D - ws_visited st) \<le> fuel" by simp
    show "\<exists>b st'. walkDirectory w (Suc fuel) physical display relative st = Some (b, st') \<and> ws_visited st \<subseteq> ws_visited st'"
    proof (cases "os_ReadDir (wk_fs w) physical")
      case (Inl err)
      then show ?thesis
        by (cases "reportError display err (asked st)") (auto dest: reportErrorD)
    next
      case (Inr entries)
      have "\<exists>b st'. visit_entries (visit_entry w (walkDirectory w fuel) physical display relative) entries (asked st) =
          Some (b, st') \<and> ws_visited (asked st) \<subseteq> ws_visited st'"
        using visit_entry_returns [OF Suc.IH assms _ p Inr] by (rule visit_entries_returns) (use c assms(1) in auto)
      with Inr show ?thesis by (cases "cancelled st") auto
    qed
  qed
qed (simp add: walk_returns_def)

text \<open>
  C15: the walk that follows symbolic links ends, whatever cycles the links form: when the directories
  it can reach are finitely many, one level of fuel for each of them suffices, since no
  directory is entered twice.
\<close>

theorem symlink_walk_terminates:
  assumes "directories_within w D" and "finite D" and "card D \<le> fuel"
  shows "\<exists>st'. walkWithSymlinks w fuel st = Some st'"
proof -
  have "\<exists>b st'. walkDirectory w fuel (path_Clean root) (wk_root w) [] (st\<lparr>ws_visited := {path_Clean root}\<rparr>) = Some (b, st')"
    if "path_Clean root \<in> D" for root
  proof -
    have "D - {path_Clean root} \<subset> D" using that by blast
    then have "card (D - {path_Clean root}) < fuel"
      using assms(2,3) psubset_card_mono by (metis order_less_le_trans)
    with walk_returnsD [OF walkDirectory_returns [OF assms(2,1)] that, of "st\<lparr>ws_visited := {path_Clean root}\<rparr>" fuel "wk_root w" "[]"]
    show ?thesis by auto
  qed
  moreover have "path_Clean r \<in> D" if "filepath_Abs (wk_fs w) (wk_walkRoot w) = Inr a"
      "filepath_EvalSymlinks (wk_fs w) a = Inr r" for a r
    using assms(1) that by (simp add: directories_within_def)
  ultimately show ?thesis
    by (fastforce simp: walkWithSymlinks_def Let_def split: sum.split)
qed

section \<open>What is queued\<close>

text \<open>The displayed and the relative path below the root that a list of names leads to.\<close>

definition display_path :: "walker \<Rightarrow> string list \<Rightarrow> string" where
  "display_path w names = fold (\<lambda>n d. path_Join d n) names (wk_root w)"

definition relative_path :: "string list \<Rightarrow> string" where
  "relative_path names = fold (\<lambda>n d. path_Join d n) names []"

definition excluded_names :: "walker \<Rightarrow> string list \<Rightarrow> bool" where
  "excluded_names w names \<longleftrightarrow> isExcluded (relative_path names) (opt_Exclude (wk_options w))"

definition extension_selected :: "walker \<Rightarrow> string \<Rightarrow> bool" where
  "extension_selected w p \<longleftrightarrow> matchesExtension (wk_ToLower w) p (opt_Extensions (wk_options w))"

lemma path_snoc [simp]:
  "display_path w (names @ [n]) = path_Join (display_path w names) n"
  "relative_path (names @ [n]) = path_Join (relative_path names) n"
  by (simp_all add: display_path_def relative_path_def)

text \<open>
  The directories of a scan: the names that lead to a directory from the root, with the path at which the
  file system has it. Every step is an entry that the directory above really lists and that is
  not excluded: a directory on the file system the scan is limited to, or, when links are
  followed, a link whose target is one; the walk that follows links goes on at the target.
\<close>

inductive dir_at :: "walker \<Rightarrow> string list \<Rightarrow> string \<Rightarrow> bool" for w where
  at_root: "\<not> opt_FollowSymlinks (wk_options w) \<Longrightarrow> dir_at w [] (wk_walkRoot w)"
| at_root_target: "opt_FollowSymlinks (wk_options w) \<Longrightarrow> filepath_Abs (wk_fs w) (wk_walkRoot w) = Inr a \<Longrightarrow>
    filepath_EvalSymlinks (wk_fs w) a = Inr r \<Longrightarrow> dir_at w [] (path_Clean r)"
| at_entry: "dir_at w names dir \<Longrightarrow> os_ReadDir (wk_fs w) dir = Inr entries \<Longrightarrow> e \<in> set entries \<Longrightarrow>
    \<not> excluded_names w (names @ [de_Name e]) \<Longrightarrow> de_IsDir e \<Longrightarrow> on_root w (de_Info e) \<Longrightarrow>
    dir_at w (names @ [de_Name e])
      (if opt_FollowSymlinks (wk_options w) then path_Clean (path_Join dir (de_Name e)) else path_Join dir (de_Name e))"
| at_link: "dir_at w names dir \<Longrightarrow> opt_FollowSymlinks (wk_options w) \<Longrightarrow>
    os_ReadDir (wk_fs w) dir = Inr entries \<Longrightarrow> e \<in> set entries \<Longrightarrow>
    \<not> excluded_names w (names @ [de_Name e]) \<Longrightarrow> de_Type e = ModeSymlink \<Longrightarrow>
    os_Stat (wk_fs w) (path_Join dir (de_Name e)) = Inr info \<Longrightarrow> fi_Mode info = ModeDir \<Longrightarrow> on_root w (Inr info) \<Longrightarrow>
    filepath_EvalSymlinks (wk_fs w) (path_Join dir (de_Name e)) = Inr r \<Longrightarrow> filepath_Abs (wk_fs w) r = Inr r' \<Longrightarrow>
    dir_at w (names @ [de_Name e]) (path_Clean r')"

text \<open>
  A file of a scan: an entry of one of these directories that is not excluded and has a wanted extension,
  a regular file on that file system or, when links are followed, a link to one.
\<close>

definition file_entry :: "walker \<Rightarrow> string \<Rightarrow> dir_entry \<Rightarrow> bool" where
  "file_entry w dir e \<longleftrightarrow>
     de_Type e = ModeRegular \<and> on_root w (de_Info e) \<or>
     opt_FollowSymlinks (wk_options w) \<and> de_Type e = ModeSymlink \<and>
       (\<exists>info. os_Stat (wk_fs w) (path_Join dir (de_Name e)) = Inr info \<and> fi_Mode info = ModeRegular \<and>
          on_root w (Inr info))"

definition selected :: "walker \<Rightarrow> string \<Rightarrow> bool" where
  "selected w p \<longleftrightarrow> extension_selected w p \<and>
     (\<exists>names dir entries e. dir_at w names dir \<and> os_ReadDir (wk_fs w) dir = Inr entries \<and> e \<in> set entries \<and>
        p = display_path w (names @ [de_Name e]) \<and> \<not> excluded_names w (names @ [de_Name e]) \<and> file_entry w dir e)"

lemma selectedI:
  assumes "dir_at w names dir" and "os_ReadDir (wk_fs w) dir = Inr entries" and "e \<in> set entries"
    and "\<not> excluded_names w (names @ [de_Name e])" and "file_entry w dir e"
    and "extension_selected w (display_path w (names @ [de_Name e]))"
  shows "selected w (display_path w (names @ [de_Name e]))"
  unfolding selected_def using assms by blast

definition walk_selects :: "walker \<Rightarrow> walk \<Rightarrow> bool" where
  "walk_selects w walk \<longleftrightarrow>
     (\<forall>names physical st b st'. dir_at w names physical \<longrightarrow>
        walk physical (display_path w names) (relative_path names) st = Some (b, st') \<longrightarrow>
        queued st' \<subseteq> queued st \<union> Collect (selected w))"

lemma walk_selectsD:
  "walk_selects w walk \<Longrightarrow> dir_at w names physical \<Longrightarrow>
   walk physical (display_path w names) (relative_path names) st = Some (b, st') \<Longrightarrow>
   queued st' \<subseteq> queued st \<union> Collect (selected w)"
  unfolding walk_selects_def by blast

lemma enter_selects:
  assumes "walk_selects w walk" and "dir_at w names physical"
    and "enter_directory walk physical (display_path w names) (relative_path names) st = Some (b, st')"
  shows "queued st' \<subseteq> queued st \<union> Collect (selected w)"
  using enter_directory_cases [OF assms(3)]
proof cases
  case 1
  then show ?thesis by auto
next
  case 2
  have "queued (st\<lparr>ws_visited := V\<rparr>) = queued st" for V by (simp add: queued_def)
  with walk_selectsD [OF assms(1,2) 2(2)] show ?thesis by simp
qed

lemma visitSymlink_selects:
  assumes walk: "walk_selects w walk" and at: "dir_at w names dir" and follow: "opt_FollowSymlinks (wk_options w)"
    and e: "os_ReadDir (wk_fs w) dir = Inr entries" "e \<in> set entries" "de_Type e = ModeSymlink"
    and ex: "\<not> excluded_names w (names @ [de_Name e])"
    and v: "visitSymlink w walk (path_Join dir (de_Name e)) (display_path w (names @ [de_Name e]))
      (relative_path (names @ [de_Name e])) st = Some (b, st')"
  shows "queued st' \<subseteq> queued st \<union> Collect (selected w)"
proof (cases "os_Stat (wk_fs w) (path_Join dir (de_Name e))")
  case (Inl err)
  with v show ?thesis by (auto simp: visitSymlink_def dest: reportErrorD)
next
  case (Inr info)
  let ?names = "names @ [de_Name e]"
  obtain on st1 where i: "infoOnRootFilesystem w (display_path w ?names) info st = (on, st1)" by (rule prod.exhaust)
  have st1: "queued st1 = queued st" and on: "on \<longrightarrow> on_root w (Inr info)" using infoOnRootD [OF i] by simp_all
  have enter: "queued st' \<subseteq> queued st \<union> Collect (selected w)"
    if "on" "fi_Mode info = ModeDir" "filepath_EvalSymlinks (wk_fs w) (path_Join dir (de_Name e)) = Inr r"
      "filepath_Abs (wk_fs w) r = Inr r'"
      "enter_directory walk (path_Clean r') (display_path w ?names) (relative_path ?names) st1 = Some (b, st')" for r r'
    using enter_selects [OF walk at_link [OF at follow e(1,2) ex e(3) Inr that(2) _ that(3,4)] that(5)] on that(1) st1 by simp
  have queue: "queued st' \<subseteq> queued st \<union> Collect (selected w)"
    if "on" "fi_Mode info = ModeRegular" "extension_selected w (display_path w ?names)"
      "queuePath (display_path w ?names) st1 = (b, st')"
    using selectedI [OF at e(1,2) ex _ that(3)] Inr on that(1,2) e(3) follow queuePathD [OF that(4)] st1
    by (auto simp: file_entry_def)
  show ?thesis
    using v Inr i st1 enter queue
    by (cases "on") (auto simp: visitSymlink_def extension_selected_def split: if_splits sum.splits dest: reportErrorD)
qed

lemma visit_entry_selects:
  assumes walk: "walk_selects w walk" and at: "dir_at w names dir" and follow: "opt_FollowSymlinks (wk_options w)"
    and e: "os_ReadDir (wk_fs w) dir = Inr entries" "e \<in> set entries"
    and v: "visit_entry w walk dir (display_path w names) (relative_path names) e st = Some (b, st')"
  shows "queued st' \<subseteq> queued st \<union> Collect (selected w)"
proof (cases "excluded_names w (names @ [de_Name e])")
  case True
  with v show ?thesis by (auto simp: visit_entry_def excluded_names_def)
next
  case False
  let ?names = "names @ [de_Name e]"
  obtain on st1 where i: "entryOnRootFilesystem w (display_path w ?names) e st = (on, st1)" by (rule prod.exhaust)
  have st1: "queued st1 = queued st" and on: "on \<longrightarrow> on_root w (de_Info e)" using entryOnRootD [OF i] by simp_all
  have link: "queued st' \<subseteq> queued st \<union> Collect (selected w)"
    if "visitSymlink w walk (path_Join dir (de_Name e)) (display_path w ?names) (relative_path ?names) st = Some (b, st')"
      and "de_Type e = ModeSymlink"
    by (rule visitSymlink_selects [OF walk at follow e that(2) False that(1)])
  have enter: "queued st' \<subseteq> queued st \<union> Collect (selected w)"
    if "on" "de_IsDir e"
      "enter_directory walk (path_Clean (path_Join dir (de_Name e))) (display_path w ?names) (relative_path ?names) st1 = Some (b, st')"
    using enter_selects [OF walk _ that(3)] at_entry [OF at e False that(2)] on that(1) st1 follow by simp
  have queue: "queued st' \<subseteq> queued st \<union> Collect (selected w)"
    if "on" "de_Type e = ModeRegular" "extension_selected w (display_path w ?names)"
      "queuePath (display_path w ?names) st1 = (b, st')"
    using selectedI [OF at e False _ that(3)] on that(1,2) queuePathD [OF that(4)] st1 by (auto simp: file_entry_def)
  show ?thesis
    using v False i st1 link enter queue
    by (cases "on") (auto simp: visit_entry_def Let_def extension_selected_def excluded_names_def split: if_splits)
qed

lemma visit_entries_selects:
  assumes "\<And>e st b st'. e \<in> set entries \<Longrightarrow> visit e st = Some (b, st') \<Longrightarrow> queued st' \<subseteq> queued st \<union> Q"
    and "visit_entries visit entries st = Some (b, st')"
  shows "queued st' \<subseteq> queued st \<union> Q"
  using assms
proof (induction entries arbitrary: st)
  case (Cons e entries)
  show ?case
  proof (cases "cancelled st")
    case True
    with Cons.prems(2) show ?thesis by auto
  next
    case False
    with Cons.prems(2) obtain b1 st1 where v: "visit e (asked st) = Some (b1, st1)"
      by (auto split: option.splits)
    then have "queued st1 \<subseteq> queued st \<union> Q" using Cons.prems(1) [of e "asked st"] by simp
    moreover have "queued st' \<subseteq> queued st1 \<union> Q"
    proof (cases b1)
      case True
      with Cons.prems(2) v False have "visit_entries visit entries st1 = Some (b, st')" by simp
      then show ?thesis by (rule Cons.IH [rotated]) (rule Cons.prems(1), simp_all)
    qed (use Cons.prems(2) v False in auto)
    ultimately show ?thesis by blast
  qed
qed auto

lemma walkDirectory_selects:
  assumes "opt_FollowSymlinks (wk_options w)"
  shows "walk_selects w (walkDirectory w fuel)"
proof (induction fuel)
  case (Suc fuel)
  show ?case unfolding walk_selects_def
  proof (intro allI impI)
    fix names physical b and st st' :: walk_state
    assume n: "dir_at w names physical"
      and r: "walkDirectory w (Suc fuel) physical (display_path w names) (relative_path names) st = Some (b, st')"
    show "queued st' \<subseteq> queued st \<union> Collect (selected w)"
    proof (cases "cancelled st")
      case True
      with r show ?thesis by auto
    next
      case False
      show ?thesis
      proof (cases "os_ReadDir (wk_fs w) physical")
        case (Inl err)
        with r False show ?thesis using reportErrorD by fastforce
      next
        case (Inr entries)
        with r False have "visit_entries (visit_entry w (walkDirectory w fuel) physical (display_path w names) (relative_path names))
            entries (asked st) = Some (b, st')" by simp
        from visit_entries_selects [OF visit_entry_selects [OF Suc.IH n assms Inr] this] show ?thesis by simp
      qed
    qed
  qed
qed (simp add: walk_selects_def)

lemma symlink_selects:
  assumes "walkWithSymlinks w fuel st = Some st'" and "opt_FollowSymlinks (wk_options w)"
  shows "queued st' \<subseteq> queued st \<union> Collect (selected w)"
proof -
  have "queued st' \<subseteq> queued st \<union> Collect (selected w)"
    if "walkDirectory w fuel (path_Clean r) (wk_root w) [] (st\<lparr>ws_visited := {path_Clean r}\<rparr>) = Some (b, st')"
      "filepath_Abs (wk_fs w) (wk_walkRoot w) = Inr a" "filepath_EvalSymlinks (wk_fs w) a = Inr r" for a r b
    using walk_selectsD [OF walkDirectory_selects [OF assms(2)] at_root_target [OF assms(2) that(2,3)],
        of fuel "st\<lparr>ws_visited := {path_Clean r}\<rparr>" b st'] that(1)
    by (simp add: display_path_def relative_path_def queued_def)
  moreover have "queued (snd (reportError p err st)) = queued st" for p err by simp
  ultimately show ?thesis
    using assms(1) by (auto simp: walkWithSymlinks_def Let_def split: sum.splits)
qed

section \<open>The same without following links\<close>

text \<open>What \<^verbatim>\<open>os.ReadDir\<close> lists has names without slashes, and neither \<^verbatim>\<open>.\<close> nor \<^verbatim>\<open>..\<close>.\<close>

definition proper_listing :: "walker \<Rightarrow> bool" where
  "proper_listing w \<longleftrightarrow>
     (\<forall>dir entries e. os_ReadDir (wk_fs w) dir = Inr entries \<longrightarrow> e \<in> set entries \<longrightarrow> proper_name (de_Name e))"

definition walk_path :: "walker \<Rightarrow> string list \<Rightarrow> string" where
  "walk_path w names = fold (\<lambda>n d. path_Join d n) names (wk_walkRoot w)"

lemma paths_below:
  assumes "list_all proper_name names" and "names \<noteq> []"
  shows "paths w (walk_path w names) = (display_path w names, relative_path names)"
proof -
  have "relative_path names = strings_Join names ''/''"
    using fold_Join [OF assms, of "[]"] assms(2)
    by (simp add: relative_path_def components_def rooted_def strings_HasPrefix_def render_def)
  moreover have "display_path w names = path_Join (wk_root w) (strings_Join names ''/'')"
    using fold_Join [OF assms] path_Join_names [OF assms] by (simp add: display_path_def)
  moreover have "wk_walkRoot w = wk_root w \<Longrightarrow> display_path w names = walk_path w names"
    by (simp add: display_path_def walk_path_def)
  ultimately show ?thesis
    using filepath_Rel_below [OF assms, of "wk_walkRoot w"] by (auto simp: paths_def walk_path_def)
qed

lemma relative_not_dot:
  assumes "list_all proper_name names" and "names \<noteq> []"
  shows "relative_path names \<noteq> ''.''"
proof -
  have "relative_path names = strings_Join names ''/''"
    using fold_Join [OF assms, of "[]"] assms(2)
    by (simp add: relative_path_def components_def rooted_def strings_HasPrefix_def render_def)
  moreover have "components ''.'' = []" by (simp add: components_def)
  ultimately show ?thesis using Join_names(2) [OF assms] assms(2) by metis
qed

lemma paths_root: "snd (paths w (wk_walkRoot w)) = ''.''"
  by (simp add: paths_def filepath_Rel_def split: sum.split)

text \<open>An entry at a path the walk reaches: the root, or an entry of a directory that is not excluded.\<close>

definition reached :: "walker \<Rightarrow> string \<Rightarrow> dir_entry \<Rightarrow> bool" where
  "reached w path e \<longleftrightarrow>
     path = wk_walkRoot w \<and> de_Type e \<noteq> ModeRegular \<or>
     (\<exists>names dirs. list_all proper_name (names @ [de_Name e]) \<and> path = walk_path w (names @ [de_Name e]) \<and>
        dir_at w names (walk_path w names) \<and> os_ReadDir (wk_fs w) (walk_path w names) = Inr dirs \<and> e \<in> set dirs)"

text \<open>A directory whose entries are visited.\<close>

definition descends :: "walker \<Rightarrow> string \<Rightarrow> bool" where
  "descends w path \<longleftrightarrow> (\<exists>names. list_all proper_name names \<and> path = walk_path w names \<and> dir_at w names path)"

lemma walk_path_simps:
  "walk_path w [] = wk_walkRoot w" "walk_path w (names @ [n]) = path_Join (walk_path w names) n"
  by (simp_all add: walk_path_def)

lemma visit_below_selects:
  assumes v: "visitWithoutSymlinks w (walk_path w (names @ [de_Name e])) (Visit e) st = (err, st')"
    and follow: "\<not> opt_FollowSymlinks (wk_options w)" and proper: "list_all proper_name (names @ [de_Name e])"
    and at: "dir_at w names (walk_path w names)" "os_ReadDir (wk_fs w) (walk_path w names) = Inr dirs" "e \<in> set dirs"
    and run: "\<not> cancelled st"
  shows "queued st' \<subseteq> queued st \<union> Collect (selected w) \<and>
    (err = None \<and> de_IsDir e \<longrightarrow> descends w (walk_path w (names @ [de_Name e])))"
proof -
  let ?names = "names @ [de_Name e]"
  note p = paths_below [OF proper, of w] and dot = relative_not_dot [OF proper]
  show ?thesis
  proof (cases "excluded_names w ?names")
    case True
    with v run p dot show ?thesis
      by (auto simp: visitWithoutSymlinks_def excluded_names_def Let_def split: if_splits)
  next
    case False
    obtain b st1 where i: "entryOnRootFilesystem w (display_path w ?names) e (asked st) = (b, st1)" by (rule prod.exhaust)
    have st1: "queued st1 = queued st" and on: "b \<longrightarrow> on_root w (de_Info e)" using entryOnRootD [OF i] by simp_all
    obtain b2 st2 where q: "queuePath (display_path w ?names) st1 = (b2, st2)" by (rule prod.exhaust)
    have sel: "selected w (display_path w ?names)"
      if "de_Type e = ModeRegular" "b" "extension_selected w (display_path w ?names)"
      using selectedI [OF at False _ that(3)] that on by (auto simp: file_entry_def)
    have desc: "descends w (walk_path w ?names)" if "b" "de_IsDir e"
      using at_entry [OF at False that(2)] that(1) on follow proper by (auto simp: descends_def walk_path_simps intro: exI [of _ ?names])
    show ?thesis
      using v run p dot False i st1 sel desc q queuePathD [OF q]
      by (cases b; cases b2)
        (auto simp: visitWithoutSymlinks_def Let_def extension_selected_def excluded_names_def de_IsDir_def split: if_splits)
  qed
qed

lemma visit_selects:
  assumes v: "visitWithoutSymlinks w path (Visit e) st = (err, st')" and "reached w path e"
    and follow: "\<not> opt_FollowSymlinks (wk_options w)"
  shows "queued st' \<subseteq> queued st \<union> Collect (selected w) \<and> (err = None \<and> de_IsDir e \<longrightarrow> descends w path)"
proof (cases "cancelled st")
  case True
  with v show ?thesis by (auto simp: visitWithoutSymlinks_def)
next
  case False
  from assms(2) show ?thesis unfolding reached_def
  proof (elim disjE exE conjE)
    assume root: "path = wk_walkRoot w" "de_Type e \<noteq> ModeRegular"
    have "descends w (wk_walkRoot w)" using at_root [OF follow] by (auto simp: descends_def walk_path_simps intro: exI [of _ "[]"])
    with root v False paths_root [of w] show ?thesis
      by (auto simp: visitWithoutSymlinks_def Let_def case_prod_unfold split: if_splits)
  next
    fix names dirs
    assume below: "list_all proper_name (names @ [de_Name e])" "path = walk_path w (names @ [de_Name e])"
      "dir_at w names (walk_path w names)" "os_ReadDir (wk_fs w) (walk_path w names) = Inr dirs" "e \<in> set dirs"
    from visit_below_selects [OF v [unfolded below(2)] follow below(1,3-5) False] below(2) show ?thesis by simp
  qed
qed

lemma visit_failed:
  assumes "visitWithoutSymlinks w path (VisitFailed e walkErr) st = (err, st')"
  shows "queued st' = queued st"
  using assms
  by (auto simp: visitWithoutSymlinks_def case_prod_unfold Let_def split: if_splits bool.splits option.splits)

lemma walk_children_selects:
  assumes "\<And>d st err st'. d \<in> set ds \<Longrightarrow> walk (path_Join path (de_Name d)) d st = Some (err, st') \<Longrightarrow>
      queued st' \<subseteq> queued st \<union> Q"
    and "walk_children walk path ds st = Some (err, st')"
  shows "queued st' \<subseteq> queued st \<union> Q"
  using assms
proof (induction ds arbitrary: st)
  case (Cons d ds)
  then obtain e1 st1 where v: "walk (path_Join path (de_Name d)) d st = Some (e1, st1)"
    by (auto split: option.splits)
  have "queued st1 \<subseteq> queued st \<union> Q" by (rule Cons.prems(1) [OF _ v]) simp
  moreover have "queued st' \<subseteq> queued st1 \<union> Q"
  proof (cases e1)
    case None
    with Cons.prems(2) v have "walk_children walk path ds st1 = Some (err, st')" by simp
    then show ?thesis by (rule Cons.IH [rotated]) (rule Cons.prems(1), simp_all)
  qed (use Cons.prems(2) v in auto)
  ultimately show ?case by blast
qed auto

lemma walkDir_selects:
  assumes "proper_listing w" and follow: "\<not> opt_FollowSymlinks (wk_options w)" and "reached w path d"
    and "walkDir (wk_fs w) (visitWithoutSymlinks w) fuel path d st = Some (err, st')"
  shows "queued st' \<subseteq> queued st \<union> Collect (selected w)"
  using assms(3,4)
proof (induction fuel arbitrary: path d st err st')
  case (Suc fuel)
  obtain e1 st1 where v: "visitWithoutSymlinks w path (Visit d) st = (e1, st1)" by (rule prod.exhaust)
  note first = visit_selects [OF v Suc.prems(1) follow]
  show ?case
  proof (cases "e1 = None \<and> de_IsDir d")
    case False
    with v Suc.prems(2) have "st' = st1" by (cases e1) (auto simp: Let_def)
    with first show ?thesis by blast
  next
    case True
    with first obtain names where names: "list_all proper_name names" "path = walk_path w names" "dir_at w names path"
      by (auto simp: descends_def)
    show ?thesis
    proof (cases "os_ReadDir (wk_fs w) path")
      case (Inl e2)
      obtain e3 st3 where f: "visitWithoutSymlinks w path (VisitFailed (Some d) e2) st1 = (e3, st3)" by (rule prod.exhaust)
      with Inl True v Suc.prems(2) have "queued st' = queued st1"
        using visit_failed [OF f] by (auto simp: Let_def)
      with first show ?thesis by blast
    next
      case (Inr dirs)
      have child: "reached w (path_Join path (de_Name c)) c" if "c \<in> set dirs" for c
        unfolding reached_def
        using names Inr that assms(1)
        by (intro disjI2 exI [of _ names] exI [of _ dirs]) (auto simp: proper_listing_def walk_path_simps)
      have "walk_children (walkDir (wk_fs w) (visitWithoutSymlinks w) fuel) path dirs st1 = Some (err, st')"
        using True v Inr Suc.prems(2) by (simp add: Let_def)
      then have "queued st' \<subseteq> queued st1 \<union> Collect (selected w)"
        by (rule walk_children_selects [rotated]) (rule Suc.IH [OF child])
      with first show ?thesis by blast
    qed
  qed
qed simp

lemma WalkDir_selects:
  assumes "WalkDir (wk_fs w) fuel (wk_walkRoot w) (visitWithoutSymlinks w) st = Some (err, st')" and "proper_listing w"
    and "os_Lstat (wk_fs w) (wk_walkRoot w) = Inr info" and "fi_Mode info \<noteq> ModeRegular"
    and "\<not> opt_FollowSymlinks (wk_options w)"
  shows "queued st' \<subseteq> queued st \<union> Collect (selected w)"
proof -
  have "reached w (wk_walkRoot w) (root_entry (wk_walkRoot w) info)"
    using assms(4) by (simp add: reached_def root_entry_def)
  with assms show ?thesis
    using walkDir_selects by (fastforce simp: WalkDir_def Let_def)
qed

text \<open>
  The discovery queues only the files of the scan: entries that a directory reached from the root lists,
  regular files or links to them that it follows, with an extension that was asked for, on the
  file system of the root when the scan is limited to it, and such that neither the file nor a
  directory above it is excluded; each is shown as the root joined with the names that lead
  to it.
\<close>

lemma walk_tree_selects:
  assumes "walk_tree w fuel st = Some st'" and "proper_listing w"
    and "os_Lstat (wk_fs w) (wk_walkRoot w) = Inr info" and "fi_Mode info \<noteq> ModeRegular"
  shows "queued st' \<subseteq> queued st \<union> Collect (selected w)"
proof (cases "opt_FollowSymlinks (wk_options w)")
  case True
  with assms(1) symlink_selects show ?thesis by (simp add: walk_tree_def)
next
  case False
  with assms(1) obtain err where "WalkDir (wk_fs w) fuel (wk_walkRoot w) (visitWithoutSymlinks w) st = Some (err, st')"
    by (auto simp: walk_tree_def)
  then show ?thesis by (rule WalkDir_selects [OF _ assms(2-4) False])
qed

end
