(* ===== verification/ScanSetup.thy ===== *)
theory ScanSetup
  imports DiscoveryFacts PipelineRuns
begin

text \<open>
  What \<^verbatim>\<open>Scan\<close> (scanner.go) does before and with its goroutines: it checks and completes the
  options, inspects the root, and hands what the discovery finds to the pipeline. The host
  is the record of what the process asks the system for.
\<close>

definition maxWorkers :: int where
  "maxWorkers = 8"

record host =
  ho_fs :: fs_lib
  ho_ToLower :: "string \<Rightarrow> string"
  ho_filesystemID :: "file_info \<Rightarrow> int option"
  ho_GOMAXPROCS :: int
  ho_GOOS :: string

text \<open>The limits of archives: a zero is replaced by the default.\<close>

definition default_limit :: "int \<Rightarrow> int \<Rightarrow> int" where
  "default_limit limit unset = (if limit = 0 then unset else limit)"

definition archive_options :: "options \<Rightarrow> options go_result" where
  "archive_options opts =
     (if \<not> opt_ScanArchives opts then Inr opts
      else
        let opts = opts\<lparr>opt_ArchiveMaxBytes := default_limit (opt_ArchiveMaxBytes opts) DefaultArchiveMaxBytes,
                  opt_ArchiveMaxEntries := default_limit (opt_ArchiveMaxEntries opts) DefaultArchiveMaxEntries,
                  opt_ArchiveMaxDepth := default_limit (opt_ArchiveMaxDepth opts) DefaultArchiveMaxDepth\<rparr>
        in if opt_ArchiveMaxBytes opts < 1 then Inl (ErrNew ''archive max bytes must be positive'')
           else if opt_ArchiveMaxEntries opts < 1 then Inl (ErrNew ''archive max entries must be positive'')
           else if opt_ArchiveMaxDepth opts < 1 then Inl (ErrNew ''archive max depth must be positive'')
           else Inr opts)"

definition normalize_options :: "host \<Rightarrow> string \<Rightarrow> options \<Rightarrow> options go_result" where
  "normalize_options h root opts =
     (if root = [] then Inl (ErrNew ''scan path is empty'')
      else if opt_MaxBytes opts < 0 then Inl (ErrNew ''max bytes cannot be negative'')
      else if opt_Workers opts < 0 then Inl (ErrNew ''workers cannot be negative'')
      else
        let opts = (if opt_Workers opts = 0 then opts\<lparr>opt_Workers := min (ho_GOMAXPROCS h) maxWorkers\<rparr> else opts) in
        case archive_options opts of Inl err \<Rightarrow> Inl err
        | Inr opts \<Rightarrow> (case normalizeExcludePatterns (opt_Exclude opts) of Inl err \<Rightarrow> Inl err
          | Inr exclude \<Rightarrow> (case normalizeExtensions (ho_ToLower h) (opt_Extensions opts) of Inl err \<Rightarrow> Inl err
            | Inr extensions \<Rightarrow> Inr (opts\<lparr>opt_Exclude := exclude, opt_Extensions := extensions\<rparr>))))"

text \<open>The root: what it is, the directory to walk, and its file system.\<close>

definition inspect_root :: "host \<Rightarrow> string \<Rightarrow> options \<Rightarrow> (file_info \<times> string \<times> int) go_result" where
  "inspect_root h root opts =
     (case os_Stat (ho_fs h) root of
        Inl err \<Rightarrow> Inl (Wrapf ''inspect %q: %w'' [AStr root] err)
      | Inr info \<Rightarrow>
          if fi_Mode info \<noteq> ModeRegular \<and> fi_Mode info \<noteq> ModeDir
          then Inl (Errorf ''%q is not a regular file or directory'' [AStr root])
          else (case
              (case os_Lstat (ho_fs h) root of
                 Inl linkErr \<Rightarrow> Inr root
               | Inr linkInfo \<Rightarrow>
                   if fi_Mode linkInfo = ModeSymlink \<and> fi_Mode info = ModeDir then
                     (case filepath_EvalSymlinks (ho_fs h) root of
                        Inl err \<Rightarrow> Inl (Wrapf ''resolve %q: %w'' [AStr root] err)
                      | Inr walkRoot \<Rightarrow> Inr walkRoot)
                   else Inr root) of
              Inl err \<Rightarrow> Inl err
            | Inr walkRoot \<Rightarrow>
                if opt_OneFileSystem opts then
                  (case ho_filesystemID h info of
                     None \<Rightarrow> Inl (Errorf ''one-file-system is not supported on %s'' [AStr (ho_GOOS h)])
                   | Some rootFilesystem \<Rightarrow> Inr (info, walkRoot, rootFilesystem))
                else Inr (info, walkRoot, 0)))"

definition start_walk :: walk_state where
  "start_walk = \<lparr>ws_items = [], ws_visited = {}, ws_cancels = []\<rparr>"

text \<open>The discovery goroutine.\<close>

definition discover :: "walker \<Rightarrow> nat \<Rightarrow> file_info \<Rightarrow> walk_state \<Rightarrow> walk_state option" where
  "discover w fuel info st =
     (if fi_Mode info = ModeRegular then
        Some (if \<not> isExcluded (path_Base (wk_root w)) (opt_Exclude (wk_options w)) \<and>
                 matchesExtension (wk_ToLower w) (wk_root w) (opt_Extensions (wk_options w))
              then snd (queuePath (wk_root w) st) else st)
      else walk_tree w fuel st)"

text \<open>
  The checks and the walk that the scan starts with: what the discovery finds when the context is
  not cancelled, which the steps of the pipeline deliver or, after a cancellation, drop.
\<close>

definition prepare_scan :: "host \<Rightarrow> string \<Rightarrow> options \<Rightarrow> (walker \<times> file_info) go_result" where
  "prepare_scan h root opts =
     (case normalize_options h root opts of Inl err \<Rightarrow> Inl err
      | Inr opts \<Rightarrow> (case inspect_root h root opts of Inl err \<Rightarrow> Inl err
        | Inr (info, walkRoot, rootFilesystem) \<Rightarrow>
            Inr (\<lparr>wk_fs = ho_fs h, wk_ToLower = ho_ToLower h, wk_filesystemID = ho_filesystemID h,
                  wk_root = root, wk_walkRoot = walkRoot, wk_options = opts, wk_rootFilesystem = rootFilesystem\<rparr>, info)))"

definition Scan_start :: "host \<Rightarrow> nat \<Rightarrow> string \<Rightarrow> options \<Rightarrow> pipeline option go_result" where
  "Scan_start h fuel root opts =
     (case prepare_scan h root opts of Inl err \<Rightarrow> Inl err
      | Inr (w, info) \<Rightarrow> Inr (map_option (\<lambda>ws. start_pipeline (wk_options w) (ws_items ws)) (discover w fuel info start_walk)))"

section \<open>The options of a scan that runs\<close>

definition limits_ok :: "options \<Rightarrow> bool" where
  "limits_ok opts \<longleftrightarrow> 1 \<le> opt_Workers opts \<and> 0 \<le> opt_MaxBytes opts \<and>
     (opt_ScanArchives opts \<longrightarrow> 1 \<le> opt_ArchiveMaxBytes opts \<and> 1 \<le> opt_ArchiveMaxEntries opts \<and> 1 \<le> opt_ArchiveMaxDepth opts)"

lemma archive_options_ok:
  assumes "archive_options o1 = Inr o2"
  shows "opt_Workers o2 = opt_Workers o1 \<and> opt_MaxBytes o2 = opt_MaxBytes o1 \<and> opt_Exclude o2 = opt_Exclude o1 \<and>
    opt_Extensions o2 = opt_Extensions o1 \<and> opt_ScanArchives o2 = opt_ScanArchives o1 \<and>
    (opt_ScanArchives o2 \<longrightarrow> 1 \<le> opt_ArchiveMaxBytes o2 \<and> 1 \<le> opt_ArchiveMaxEntries o2 \<and> 1 \<le> opt_ArchiveMaxDepth o2)"
  using assms by (auto simp: archive_options_def Let_def split: if_splits)

lemma normalize_options_ok:
  assumes "normalize_options h root o1 = Inr o2" and "1 \<le> ho_GOMAXPROCS h"
  shows "limits_ok o2"
  using assms archive_options_ok
  by (fastforce simp: normalize_options_def limits_ok_def maxWorkers_def Let_def split: if_splits sum.splits)

lemma normalize_patterns:
  "normalizeExcludePatterns_loop result ps = Inr result' \<Longrightarrow>
   list_all (\<lambda>p. p \<noteq> [] \<and> \<not> path_IsAbs p \<and> (\<exists>b. path_Match p [] = Inr b)) result \<and> distinct result \<Longrightarrow>
   list_all (\<lambda>p. p \<noteq> [] \<and> \<not> path_IsAbs p \<and> (\<exists>b. path_Match p [] = Inr b)) result' \<and> distinct result'"
proof (induction ps arbitrary: result)
  case (Cons p ps)
  then obtain q where q: "exclude_pattern p = Inr q" by (auto split: sum.splits)
  then have "q \<noteq> [] \<and> \<not> path_IsAbs q \<and> (\<exists>b. path_Match q [] = Inr b)"
    by (auto simp: exclude_pattern_def Let_def split: if_splits sum.splits)
  with Cons q show ?case by (auto split: if_splits)
qed simp

text \<open>
  The options a scan runs with are in range, whatever it was asked for: it has a worker, its limits
  are positive, its exclude patterns are distinct, relative and well formed, and its
  extensions distinct and in order; values that were given are kept.
\<close>

theorem options_validated:
  assumes "normalize_options h root o1 = Inr o2" and "1 \<le> ho_GOMAXPROCS h"
  shows "limits_ok o2 \<and> distinct (opt_Exclude o2) \<and> sorted (opt_Extensions o2) \<and>
    list_all (\<lambda>p. p \<noteq> [] \<and> \<not> path_IsAbs p \<and> (\<exists>b. path_Match p [] = Inr b)) (opt_Exclude o2) \<and>
    (opt_Workers o1 \<noteq> 0 \<longrightarrow> opt_Workers o2 = opt_Workers o1) \<and> opt_MaxBytes o2 = opt_MaxBytes o1 \<and>
    (opt_ScanArchives o1 \<and> opt_ArchiveMaxBytes o1 \<noteq> 0 \<longrightarrow> opt_ArchiveMaxBytes o2 = opt_ArchiveMaxBytes o1)"
proof -
  define o3 where "o3 = (if opt_Workers o1 = 0 then o1\<lparr>opt_Workers := min (ho_GOMAXPROCS h) maxWorkers\<rparr> else o1)"
  obtain o4 exclude extensions where steps: "archive_options o3 = Inr o4"
    "normalizeExcludePatterns (opt_Exclude o4) = Inr exclude"
    "normalizeExtensions (ho_ToLower h) (opt_Extensions o4) = Inr extensions"
    and o2: "o2 = o4\<lparr>opt_Exclude := exclude, opt_Extensions := extensions\<rparr>"
    using assms(1) by (auto simp: normalize_options_def Let_def o3_def split: if_splits sum.splits)
  have "sorted extensions" using steps(3) by (auto simp: normalizeExtensions_def map_sum_eq_Inr sorted_remdups_adj)
  moreover have "opt_ScanArchives o1 \<and> opt_ArchiveMaxBytes o1 \<noteq> 0 \<longrightarrow> opt_ArchiveMaxBytes o4 = opt_ArchiveMaxBytes o1"
    using steps(1) by (auto simp: o3_def archive_options_def default_limit_def Let_def split: if_splits)
  ultimately show ?thesis
    using archive_options_ok [OF steps(1)] normalize_patterns [of "[]" _ exclude] steps(2) o2
      normalize_options_ok [OF assms]
    by (auto simp: normalizeExcludePatterns_def o3_def split: if_splits)
qed

section \<open>From the options to the report\<close>

text \<open>The files a scan may read: the root itself, or the files selected below it.\<close>

definition chosen_file :: "walker \<Rightarrow> file_info \<Rightarrow> string \<Rightarrow> bool" where
  "chosen_file w info p \<longleftrightarrow>
     (if fi_Mode info = ModeRegular
      then p = wk_root w \<and> \<not> isExcluded (path_Base p) (opt_Exclude (wk_options w)) \<and> extension_selected w p
      else selected w p)"

lemma discover_chosen:
  assumes "discover w fuel info start_walk = Some ws" and "proper_listing w"
    and "os_Lstat (wk_fs w) (wk_walkRoot w) = Inr rootInfo" and "fi_Mode rootInfo = fi_Mode info"
  shows "queued ws \<subseteq> Collect (chosen_file w info)"
proof (cases "fi_Mode info = ModeRegular")
  case True
  have "queued start_walk = {}" by (simp add: queued_def start_walk_def)
  with True assms(1) queuePath_simps(2) [of "wk_root w" start_walk] show ?thesis
    by (auto simp: discover_def chosen_file_def extension_selected_def split: if_splits)
next
  case False
  have "queued start_walk = {}" by (simp add: queued_def start_walk_def)
  moreover have "queued ws \<subseteq> queued start_walk \<union> Collect (selected w)"
    using False assms by (intro walk_tree_selects [where info = rootInfo]) (auto simp: discover_def)
  ultimately show ?thesis using False by (auto simp: chosen_file_def)
qed

text \<open>
  C16: whatever a scan reports, at any moment and however it ends, was found in a file that the
  options select: from the command's options through the walk, the workers and the collector,
  no certificate gets into the report of a file with another extension, of an excluded file
  or one below an excluded directory, or of a file on another file system or reached through
  a directory there. The file is an entry that the file system lists in a directory reached
  from the root over such directories, and links count only when they are followed.
\<close>

theorem scan_respects_filters:
  assumes "prepare_scan h root o1 = Inr (w, info)" and "1 \<le> ho_GOMAXPROCS h"
    and "proper_listing w" and "os_Lstat (wk_fs w) (wk_walkRoot w) = Inr rootInfo" and "fi_Mode rootInfo = fi_Mode info"
    and "discover w fuel info start_walk = Some ws"
    and "pipeline_run env (start_pipeline (wk_options w) (ws_items ws)) evs st"
    and "c \<in> set (rp_Certificates (pl_report st))"
  shows "\<exists>p. chosen_file w info p \<and> c \<in> set (oc_certificates (fst (pe_scan env p)))"
proof -
  have "normalize_options h root o1 = Inr (wk_options w)"
    using assms(1) by (auto simp: prepare_scan_def split: sum.splits)
  then have "1 \<le> opt_Workers (wk_options w)"
    using normalize_options_ok assms(2) by (simp add: limits_ok_def)
  with assms(7) obtain delivered where "delivers env (ws_items ws) delivered st"
    by (rule run_from_start)
  then have "set (rp_Certificates (pl_report st)) \<subseteq>
      set (concat (map (\<lambda>p. oc_certificates (fst (pe_scan env p))) (disc_jobs (ws_items ws))))"
    using report_within set_mset_mono by (metis set_mset_mset)
  with assms(8) obtain p where p: "p \<in> set (disc_jobs (ws_items ws))" "c \<in> set (oc_certificates (fst (pe_scan env p)))"
    by auto
  have "p \<in> queued ws" using p(1) by (auto simp: disc_jobs_def queued_def split: disc_item.splits)
  with discover_chosen [OF assms(6,3,4,5)] p(2) show ?thesis by blast
qed

section \<open>A sample\<close>

text \<open>
  A directory with two files and a link to the directory itself. The scan follows links and looks
  for PEM files.
\<close>

definition sample_info :: "file_mode \<Rightarrow> file_info" where
  "sample_info mode = \<lparr>fi_Mode = mode, fi_Dev = Some 7\<rparr>"

definition sample_entry :: "string \<Rightarrow> file_mode \<Rightarrow> dir_entry" where
  "sample_entry name mode = \<lparr>de_Name = name, de_Type = mode, de_Info = Inr (sample_info mode)\<rparr>"

definition sample_fs :: fs_lib where
  "sample_fs = \<lparr>
     os_ReadDir = (\<lambda>d. if d = ''/r'' then Inr [sample_entry ''a.pem'' ModeRegular, sample_entry ''b.txt'' ModeRegular,
       sample_entry ''loop'' ModeSymlink] else Inl (ErrNew ''not a directory'')),
     os_Stat = (\<lambda>p. Inr (sample_info (if p = ''/r'' \<or> p = ''/r/loop'' then ModeDir else ModeRegular))),
     os_Lstat = (\<lambda>p. Inr (sample_info (if p = ''/r'' then ModeDir else if p = ''/r/loop'' then ModeSymlink else ModeRegular))),
     filepath_EvalSymlinks = (\<lambda>p. if p = ''/r'' \<or> p = ''/r/loop'' then Inr ''/r'' else Inl (ErrNew ''no such file'')), filepath_Abs = Inr\<rparr>"

definition sample_host :: host where
  "sample_host = \<lparr>ho_fs = sample_fs, ho_ToLower = map ascii_lower, ho_filesystemID = platformFilesystemID_linux,
     ho_GOMAXPROCS = 4, ho_GOOS = ''linux''\<rparr>"

definition sample_request :: options where
  "sample_request = \<lparr>opt_MaxBytes = 65536, opt_Workers = 0, opt_Exclude = [''*.bak''], opt_Extensions = [''PEM''],
     opt_OneFileSystem = True, opt_FollowSymlinks = True, opt_ScanArchives = True, opt_ArchiveMaxBytes = 0,
     opt_ArchiveMaxEntries = 5, opt_ArchiveMaxDepth = 0, opt_DiscardCertificates = False, opt_DiscardPKCS12Encrypted = False\<rparr>"

definition sample_normalized :: options where
  "sample_normalized = sample_request\<lparr>opt_Workers := 4, opt_Extensions := [''.pem''],
     opt_ArchiveMaxBytes := DefaultArchiveMaxBytes, opt_ArchiveMaxDepth := 3\<rparr>"

definition sample_walker :: walker where
  "sample_walker = \<lparr>wk_fs = sample_fs, wk_ToLower = map ascii_lower, wk_filesystemID = platformFilesystemID_linux,
     wk_root = ''/r'', wk_walkRoot = ''/r'', wk_options = sample_normalized, wk_rootFilesystem = 7\<rparr>"

lemma sample_normalize: "normalize_options sample_host ''/r'' sample_request = Inr sample_normalized"
  by code_simp

lemma sample_prepare: "prepare_scan sample_host ''/r'' sample_request = Inr (sample_walker, sample_info ModeDir)"
proof -
  have "inspect_root sample_host ''/r'' sample_normalized = Inr (sample_info ModeDir, ''/r'', 7)" by code_simp
  then show ?thesis
    by (simp add: prepare_scan_def sample_normalize) (simp add: sample_walker_def sample_host_def)
qed

lemma options_validated_witness: "limits_ok sample_normalized"
  using options_validated [OF sample_normalize] by (simp add: sample_host_def)

lemma sample_walk:
  "walk_tree sample_walker 1 start_walk = Some \<lparr>ws_items = [DJob ''/r/a.pem''], ws_visited = {''/r''}, ws_cancels = []\<rparr>"
  by code_simp

lemma sample_listing: "proper_listing sample_walker"
  by (auto simp: proper_listing_def sample_walker_def sample_fs_def sample_entry_def proper_name_def split: if_splits)

lemma symlink_walk_terminates_witness: "\<exists>st'. walkWithSymlinks sample_walker 1 start_walk = Some st'"
proof (rule symlink_walk_terminates [where D = "{''/r''}"])
  have "path_Clean ''/r'' = ''/r''" by code_simp
  then show "directories_within sample_walker {''/r''}"
    by (auto simp: directories_within_def sample_walker_def sample_fs_def sample_entry_def de_IsDir_def split: if_splits)
qed simp_all

lemma sample_normalized_run:
  "\<exists>st. pipeline_run sample_pipeline_env (start_pipeline sample_normalized [DJob ''/r/a.pem''])
      [DiscAnnounce, DiscSend, WorkerTake 0, WorkerScan 0, WorkerSend 0] st \<and>
    rp_Certificates (pl_report st) = [sample_finding ''/r/a.pem'']"
proof -
  have "opt_Workers sample_normalized = 4" by (simp add: sample_normalized_def)
  then have "\<exists>st. run_events sample_pipeline_env [DiscAnnounce, DiscSend, WorkerTake 0, WorkerScan 0, WorkerSend 0]
      (start_pipeline sample_normalized [DJob ''/r/a.pem'']) = Some st \<and>
    rp_Certificates (pl_report st) = [sample_finding ''/r/a.pem'']"
    by (simp add: sample_run_defs sample_options_def)
  then show ?thesis using run_events_run by blast
qed

lemma scan_respects_filters_witness:
  "\<exists>p. chosen_file sample_walker (sample_info ModeDir) p \<and>
    sample_finding ''/r/a.pem'' \<in> set (oc_certificates (fst (pe_scan sample_pipeline_env p)))"
proof -
  obtain st where run: "pipeline_run sample_pipeline_env (start_pipeline sample_normalized [DJob ''/r/a.pem''])
      [DiscAnnounce, DiscSend, WorkerTake 0, WorkerScan 0, WorkerSend 0] st"
    and c: "sample_finding ''/r/a.pem'' \<in> set (rp_Certificates (pl_report st))"
    using sample_normalized_run by auto
  have "discover sample_walker 1 (sample_info ModeDir) start_walk =
      Some \<lparr>ws_items = [DJob ''/r/a.pem''], ws_visited = {''/r''}, ws_cancels = []\<rparr>"
    using sample_walk by (simp add: discover_def sample_info_def)
  from scan_respects_filters [OF sample_prepare _ sample_listing _ _ this _ c, of "sample_info ModeDir"] run show ?thesis
    by (simp add: sample_host_def sample_walker_def sample_fs_def)
qed

end
