(* ===== verification/DiscoveryExact.thy ===== *)
theory DiscoveryExact
  imports ScanSetup
begin

text \<open>
  The walk that does not follow links finds exactly the files that the options describe, and a scan that
  is not cancelled reports exactly what is in them.
\<close>

section \<open>The files of a tree\<close>

text \<open>
  A directory whose entries the walk visits, and a file that it queues, at the names that lead to them
  from the root.
\<close>

definition descended :: "walker \<Rightarrow> string list \<Rightarrow> dir_entry \<Rightarrow> bool" where
  "descended w names d \<longleftrightarrow> de_IsDir d \<and> (names = [] \<or> \<not> excluded_names w names \<and> on_root w (de_Info d))"

definition wanted :: "walker \<Rightarrow> string list \<Rightarrow> dir_entry \<Rightarrow> bool" where
  "wanted w names e \<longleftrightarrow> names \<noteq> [] \<and> \<not> excluded_names w names \<and> de_Type e = ModeRegular \<and>
     extension_selected w (display_path w names) \<and> on_root w (de_Info e)"

text \<open>The entries at and below an entry, with the names that lead to them.\<close>

inductive below :: "walker \<Rightarrow> string list \<Rightarrow> dir_entry \<Rightarrow> string list \<Rightarrow> dir_entry \<Rightarrow> bool" for w names d where
  below_self: "below w names d names d"
| below_entry: "below w names d ns f \<Longrightarrow> descended w ns f \<Longrightarrow> os_ReadDir (wk_fs w) (walk_path w ns) = Inr ds \<Longrightarrow>
    e \<in> set ds \<Longrightarrow> below w names d (ns @ [de_Name e]) e"

inductive_cases below_cases: "below w names d ns e"

lemma below_first:
  assumes "descended w names d" and "os_ReadDir (wk_fs w) (walk_path w names) = Inr ds" and "c \<in> set ds"
    and "below w (names @ [de_Name c]) c ns e"
  shows "below w names d ns e"
  using assms(4)
proof induction
  case below_self
  show ?case by (rule below_entry [OF below.below_self assms(1-3)])
next
  case (below_entry ns f ds e)
  then show ?case by (blast intro: below.below_entry)
qed

lemma below_step:
  "below w names d ns e \<longleftrightarrow> ns = names \<and> e = d \<or>
     descended w names d \<and> (\<exists>ds c. os_ReadDir (wk_fs w) (walk_path w names) = Inr ds \<and> c \<in> set ds \<and>
       below w (names @ [de_Name c]) c ns e)"
proof
  assume "below w names d ns e"
  then show "ns = names \<and> e = d \<or> descended w names d \<and>
    (\<exists>ds c. os_ReadDir (wk_fs w) (walk_path w names) = Inr ds \<and> c \<in> set ds \<and> below w (names @ [de_Name c]) c ns e)"
  proof induction
    case (below_entry ns f ds e)
    then show ?case by (metis below.below_entry below.below_self)
  qed simp
qed (auto intro: below_self below_first)

definition wanted_below :: "walker \<Rightarrow> string list \<Rightarrow> dir_entry \<Rightarrow> string set" where
  "wanted_below w names d = {display_path w ns |ns. \<exists>e. below w names d ns e \<and> wanted w ns e}"

lemma wanted_below_step:
  "wanted_below w names d = (if wanted w names d then {display_path w names} else {}) \<union>
     (if descended w names d
      then (case os_ReadDir (wk_fs w) (walk_path w names) of Inl err \<Rightarrow> {}
        | Inr ds \<Rightarrow> \<Union>c\<in>set ds. wanted_below w (names @ [de_Name c]) c)
      else {})"
  unfolding wanted_below_def by (subst below_step) (auto split: sum.split)

section \<open>The walk\<close>

lemma uncancelled_send: "ws_cancels st = [] \<Longrightarrow> send_item item st = (True, st\<lparr>ws_items := ws_items st @ [item]\<rparr>)"
  by (simp add: send_item_def cancelled_def asked_def)

lemma uncancelled [simp]: "ws_cancels st = [] \<Longrightarrow> \<not> cancelled st" "ws_cancels st = [] \<Longrightarrow> asked st = st"
  by (simp_all add: cancelled_def asked_def)

definition quiet_step :: "walk_state \<Rightarrow> walk_state \<Rightarrow> string set \<Rightarrow> bool" where
  "quiet_step st st' files \<longleftrightarrow> ws_cancels st' = [] \<and> queued st' = queued st \<union> files"

lemma uncancelled_error:
  assumes "ws_cancels st = []"
  obtains st' where "reportError p err st = (True, st')" "quiet_step st st' {}"
  using assms by (auto simp: reportError_def uncancelled_send quiet_step_def queued_def)

lemma uncancelled_queue:
  assumes "ws_cancels st = []"
  obtains st' where "queuePath p st = (True, st')" "quiet_step st st' {p}"
  using assms by (auto simp: queuePath_def uncancelled_send quiet_step_def queued_def)

lemma quiet_self: "ws_cancels st = [] \<Longrightarrow> quiet_step st st {}"
  by (simp add: quiet_step_def)

lemma quiet_trans: "quiet_step st st' A \<Longrightarrow> quiet_step st' st'' B \<Longrightarrow> quiet_step st st'' (A \<union> B)"
  by (auto simp: quiet_step_def)

lemma quiet_cancels: "quiet_step st st' A \<Longrightarrow> ws_cancels st' = []"
  by (simp add: quiet_step_def)

lemma uncancelled_root:
  assumes "ws_cancels st = []"
  obtains st' where "entryOnRootFilesystem w p e st = (on_root w (de_Info e), st')" "quiet_step st st' {}"
proof -
  have err: "fst (reportError p x st) = True \<and> quiet_step st (snd (reportError p x st)) {}" for x
    by (rule uncancelled_error [OF assms, of p x]) simp
  have "\<exists>st'. entryOnRootFilesystem w p e st = (on_root w (de_Info e), st') \<and> quiet_step st st' {}"
    using err quiet_self [OF assms]
    by (simp add: entryOnRootFilesystem_def infoOnRootFilesystem_def on_root_def split: option.split sum.split)
  with that show thesis by blast
qed

text \<open>A visit: what it queues, and when it goes on with the entries of a directory.\<close>

lemma visit_exact:
  assumes "ws_cancels st = []" and "list_all proper_name names" and "names = [] \<Longrightarrow> de_Type e \<noteq> ModeRegular"
  obtains st' where "visitWithoutSymlinks w (walk_path w names) (Visit e) st =
      (if de_IsDir e \<and> \<not> descended w names e then Some SkipDir else None, st')"
    "quiet_step st st' (if wanted w names e then {display_path w names} else {})"
proof (cases "names = []")
  case True
  then have "snd (paths w (walk_path w names)) = ''.''" using paths_root by (simp add: walk_path_def)
  with True assms(1,3) show thesis
    by (intro that [of st])
      (auto simp: visitWithoutSymlinks_def descended_def wanted_def case_prod_unfold quiet_self Let_def)
next
  case ne: False
  note p = paths_below [OF assms(2) ne, of w]
  have dot: "relative_path names \<noteq> ''.''" by (rule relative_not_dot [OF assms(2) ne])
  show thesis
  proof (cases "excluded_names w names")
    case True
    with assms(1) ne p dot show ?thesis
      by (intro that [of st])
        (auto simp: visitWithoutSymlinks_def descended_def wanted_def excluded_names_def quiet_self Let_def)
  next
    case False
    obtain st1 where root: "entryOnRootFilesystem w (display_path w names) e st = (on_root w (de_Info e), st1)"
      and q1: "quiet_step st st1 {}"
      by (rule uncancelled_root [OF assms(1)])
    obtain st2 where queue: "queuePath (display_path w names) st1 = (True, st2)" and q2: "quiet_step st1 st2 {display_path w names}"
      by (rule uncancelled_queue [OF quiet_cancels [OF q1]])
    have q12: "quiet_step st st2 {display_path w names}" using quiet_trans [OF q1 q2] by simp
    let ?wanted = "de_Type e = ModeRegular \<and> extension_selected w (display_path w names)"
    have v: "visitWithoutSymlinks w (walk_path w names) (Visit e) st =
      (if de_IsDir e then (if on_root w (de_Info e) then None else Some SkipDir, st1)
       else if \<not> ?wanted then (None, st) else (None, if on_root w (de_Info e) then st2 else st1))"
      using False p dot assms(1) root queue
      by (simp add: visitWithoutSymlinks_def excluded_names_def extension_selected_def)
    show ?thesis
      by (rule that [of "if de_IsDir e then st1 else if \<not> ?wanted then st else if on_root w (de_Info e) then st2 else st1"])
        (use v False ne q1 q12 quiet_self [OF assms(1)] in \<open>auto simp: descended_def wanted_def de_IsDir_def\<close>)
  qed
qed

lemma failed_visit_exact:
  assumes "ws_cancels st = []" and "de_IsDir e"
  obtains st' where "visitWithoutSymlinks w path (VisitFailed (Some e) err) st = (Some SkipDir, st')" "quiet_step st st' {}"
proof -
  obtain st' where "reportError (fst (paths w path)) err st = (True, st')" "quiet_step st st' {}"
    by (rule uncancelled_error [OF assms(1)])
  with assms show thesis by (intro that) (simp_all add: visitWithoutSymlinks_def case_prod_unfold)
qed

lemma walk_children_exact:
  assumes "\<And>d st err st'. d \<in> set ds \<Longrightarrow> ws_cancels st = [] \<Longrightarrow> walk (path_Join path (de_Name d)) d st = Some (err, st') \<Longrightarrow>
      err = None \<and> quiet_step st st' (Q d)"
    and "ws_cancels st = []" and "walk_children walk path ds st = Some (err, st')"
  shows "err = None \<and> quiet_step st st' (\<Union>d\<in>set ds. Q d)"
  using assms
proof (induction ds arbitrary: st)
  case (Cons d ds)
  then obtain e1 st1 where v: "walk (path_Join path (de_Name d)) d st = Some (e1, st1)"
    by (auto split: option.splits)
  then have one: "e1 = None" "quiet_step st st1 (Q d)" using Cons.prems(1) [OF _ Cons.prems(2) v] by simp_all
  then have "walk_children walk path ds st1 = Some (err, st')" using Cons.prems(3) v by simp
  then have "err = None \<and> quiet_step st1 st' (\<Union>d\<in>set ds. Q d)"
    by (rule Cons.IH [OF _ quiet_cancels [OF one(2)], rotated]) (rule Cons.prems(1), simp_all)
  with quiet_trans [OF one(2)] show ?case by simp
qed (simp add: quiet_self)

lemma walk_path_snoc: "path_Join (walk_path w names) n = walk_path w (names @ [n])"
  by (simp add: walk_path_def)

lemma walkDir_exact:
  assumes "proper_listing w" and "list_all proper_name names" and "names = [] \<Longrightarrow> de_Type d \<noteq> ModeRegular"
    and "ws_cancels st = []" and "walkDir (wk_fs w) (visitWithoutSymlinks w) fuel (walk_path w names) d st = Some (err, st')"
  shows "err = None \<and> quiet_step st st' (wanted_below w names d)"
  using assms(2-)
proof (induction fuel arbitrary: names d st err st')
  case (Suc fuel)
  obtain st1 where v: "visitWithoutSymlinks w (walk_path w names) (Visit d) st =
      (if de_IsDir d \<and> \<not> descended w names d then Some SkipDir else None, st1)"
    and q1: "quiet_step st st1 (if wanted w names d then {display_path w names} else {})"
    using visit_exact [OF Suc.prems(3,1)] Suc.prems(2) by metis
  show ?case
  proof (cases "descended w names d")
    case False
    then have "err = None" "st' = st1" using Suc.prems(4) v by (auto simp: Let_def split: if_splits)
    with q1 False show ?thesis by (simp add: wanted_below_step [of w names d])
  next
    case True
    then have dir: "de_IsDir d" by (simp add: descended_def)
    show ?thesis
    proof (cases "os_ReadDir (wk_fs w) (walk_path w names)")
      case (Inl e2)
      obtain st2 where f: "visitWithoutSymlinks w (walk_path w names) (VisitFailed (Some d) e2) st1 = (Some SkipDir, st2)"
        and q2: "quiet_step st1 st2 {}"
        by (rule failed_visit_exact [OF quiet_cancels [OF q1] dir])
      then have "err = None" "st' = st2" using Suc.prems(4) v True dir Inl by (auto simp: Let_def)
      with quiet_trans [OF q1 q2] True Inl show ?thesis by (simp add: wanted_below_step [of w names d])
    next
      case (Inr ds)
      have "walk_children (walkDir (wk_fs w) (visitWithoutSymlinks w) fuel) (walk_path w names) ds st1 = Some (err, st')"
        using Suc.prems(4) v True dir Inr by (simp add: Let_def)
      moreover have "e1 = None \<and> quiet_step s1 s2 (wanted_below w (names @ [de_Name c]) c)"
        if "c \<in> set ds" "ws_cancels s1 = []"
          "walkDir (wk_fs w) (visitWithoutSymlinks w) fuel (path_Join (walk_path w names) (de_Name c)) c s1 = Some (e1, s2)"
        for c s1 e1 s2
      proof (rule Suc.IH [of "names @ [de_Name c]"])
        show "list_all proper_name (names @ [de_Name c])"
          using Suc.prems(1) that(1) assms(1) Inr by (auto simp: proper_listing_def)
      qed (use that in \<open>simp_all add: walk_path_snoc\<close>)
      ultimately have "err = None \<and> quiet_step st1 st' (\<Union>c\<in>set ds. wanted_below w (names @ [de_Name c]) c)"
        using walk_children_exact [where Q = "\<lambda>c. wanted_below w (names @ [de_Name c]) c"] quiet_cancels [OF q1] by blast
      with quiet_trans [OF q1] True Inr show ?thesis by (simp add: wanted_below_step [of w names d])
    qed
  qed
qed simp

text \<open>One more level of fuel than there are nested directories suffices.\<close>

lemma walkDir_returns:
  assumes "proper_listing w" and "list_all proper_name names" and "names = [] \<Longrightarrow> de_Type d \<noteq> ModeRegular"
    and "ws_cancels st = []" and "\<And>ns e. below w names d ns e \<Longrightarrow> length ns < length names + fuel"
  shows "walkDir (wk_fs w) (visitWithoutSymlinks w) fuel (walk_path w names) d st \<noteq> None"
  using assms(2-)
proof (induction fuel arbitrary: names d st)
  case 0
  then show ?case using below_self by fastforce
next
  case (Suc fuel)
  obtain st1 where v: "visitWithoutSymlinks w (walk_path w names) (Visit d) st =
      (if de_IsDir d \<and> \<not> descended w names d then Some SkipDir else None, st1)"
    and q1: "quiet_step st st1 (if wanted w names d then {display_path w names} else {})"
    using visit_exact [OF Suc.prems(3,1)] Suc.prems(2) by metis
  show ?case
  proof (cases "\<exists>ds. descended w names d \<and> os_ReadDir (wk_fs w) (walk_path w names) = Inr ds")
    case False
    with v show ?thesis by (auto simp: Let_def case_prod_unfold descended_def split: sum.split)
  next
    case True
    then obtain ds where ds: "descended w names d" "os_ReadDir (wk_fs w) (walk_path w names) = Inr ds" by blast
    let ?walk = "walkDir (wk_fs w) (visitWithoutSymlinks w) fuel"
    have proper: "list_all proper_name (names @ [de_Name c])" if "c \<in> set ds" for c
      using Suc.prems(1) that assms(1) ds(2) by (auto simp: proper_listing_def)
    have child: "\<exists>s'. ?walk (path_Join (walk_path w names) (de_Name c)) c s = Some (None, s') \<and> ws_cancels s' = []"
      if "c \<in> set ds" "ws_cancels s = []" for c s
    proof -
      have "?walk (walk_path w (names @ [de_Name c])) c s \<noteq> None"
        using below_first [OF ds that(1)] Suc.prems(4)
        by (intro Suc.IH [OF proper [OF that(1)] _ that(2)]) fastforce+
      then obtain r s' where r: "?walk (walk_path w (names @ [de_Name c])) c s = Some (r, s')" by auto
      with walkDir_exact [OF assms(1) proper [OF that(1)] _ that(2) r] show ?thesis
        by (auto simp: walk_path_snoc dest: quiet_cancels)
    qed
    have "walk_children ?walk (walk_path w names) cs s \<noteq> None" if "set cs \<subseteq> set ds" "ws_cancels s = []" for cs s
      using that
    proof (induction cs arbitrary: s)
      case (Cons c cs)
      then show ?case using child [of c s] by auto
    qed simp
    with ds v quiet_cancels [OF q1] show ?thesis by (auto simp: Let_def descended_def)
  qed
qed

section \<open>From the files to the report\<close>

text \<open>
  The files of a scan that does not follow links: the root itself, or the files wanted below it. The tree
  is at most so deep when every entry is led to by fewer names.
\<close>

definition wanted_files :: "walker \<Rightarrow> file_info \<Rightarrow> file_info \<Rightarrow> string set" where
  "wanted_files w info rootInfo =
     (if fi_Mode info = ModeRegular
      then {p. p = wk_root w \<and> \<not> isExcluded (path_Base p) (opt_Exclude (wk_options w)) \<and> extension_selected w p}
      else wanted_below w [] (root_entry (wk_walkRoot w) rootInfo))"

definition depth_within :: "walker \<Rightarrow> file_info \<Rightarrow> nat \<Rightarrow> bool" where
  "depth_within w rootInfo n \<longleftrightarrow>
     (\<forall>names e. below w [] (root_entry (wk_walkRoot w) rootInfo) names e \<longrightarrow> length names < n)"

lemma discover_exact:
  assumes "proper_listing w" and "os_Lstat (wk_fs w) (wk_walkRoot w) = Inr rootInfo" and "fi_Mode rootInfo = fi_Mode info"
    and "\<not> opt_FollowSymlinks (wk_options w)" and "depth_within w rootInfo fuel"
  obtains ws where "discover w fuel info start_walk = Some ws" "queued ws = wanted_files w info rootInfo"
proof (cases "fi_Mode info = ModeRegular")
  case True
  obtain st where "queuePath (wk_root w) start_walk = (True, st)" "quiet_step start_walk st {wk_root w}"
    by (rule uncancelled_queue [of start_walk]) (simp add: start_walk_def)
  then have st: "queuePath (wk_root w) start_walk = (True, st)" "queued st = {wk_root w}" "queued start_walk = {}"
    by (simp_all add: quiet_step_def queued_def start_walk_def)
  let ?wanted = "\<not> isExcluded (path_Base (wk_root w)) (opt_Exclude (wk_options w)) \<and> extension_selected w (wk_root w)"
  show thesis
  proof (rule that)
    show "discover w fuel info start_walk = Some (if ?wanted then st else start_walk)"
      using True st(1) by (simp add: discover_def extension_selected_def)
    show "queued (if ?wanted then st else start_walk) = wanted_files w info rootInfo"
      using True st(2,3) by (auto simp: wanted_files_def)
  qed
next
  case False
  let ?d = "root_entry (wk_walkRoot w) rootInfo"
  let ?walk = "walkDir (wk_fs w) (visitWithoutSymlinks w) fuel (wk_walkRoot w) ?d start_walk"
  have root: "walk_path w [] = wk_walkRoot w" "de_Type ?d \<noteq> ModeRegular" "ws_cancels start_walk = []"
    using False assms(3) by (simp_all add: walk_path_def root_entry_def start_walk_def)
  have "?walk \<noteq> None"
    using walkDir_returns [OF assms(1), of "[]" ?d start_walk fuel] root assms(5) by (auto simp: depth_within_def)
  then obtain err st where walk: "?walk = Some (err, st)" by auto
  have st: "err = None \<and> quiet_step start_walk st (wanted_below w [] ?d)"
    using walkDir_exact [OF assms(1), of "[]" ?d start_walk fuel err st] root walk by simp
  show thesis
    by (rule that [of st])
      (use False assms(2,4) walk st in \<open>auto simp: discover_def walk_tree_def WalkDir_def wanted_files_def quiet_step_def
        queued_def start_walk_def\<close>)
qed

lemma queued_jobs: "queued ws = set (disc_jobs (ws_items ws))"
  by (auto simp: queued_def disc_jobs_def split: disc_item.splits)

lemma reported_certificates:
  assumes "pipeline_run env (start_pipeline options items) evs st" and "1 \<le> opt_Workers options"
    and "\<not> pl_cancelled st" and "pl_result st = Some (Inr r)" and "\<not> opt_DiscardCertificates (pe_options env)"
  shows "set (rp_Certificates r) = (\<Union>p\<in>set (disc_jobs items). set (oc_certificates (fst (pe_scan env p))))"
proof -
  obtain delivered r' where r: "Inr r = (Inr r' :: report go_result)" "r' = sortReport (report_of (pe_options env) delivered)"
    and m: "mset delivered = mset (map (item_outcome env) items)"
    by (rule finished_delivered [OF assms(1-4)])
  have "mset (rp_Certificates r) = mset (concat (map oc_certificates delivered))"
    using r assms(5) by (simp add: sortReport_def sort_certificates report_of_fields)
  then have "mset (rp_Certificates r) = mset (concat (map (\<lambda>p. oc_certificates (fst (pe_scan env p))) (disc_jobs items)))"
    using mset_concat_cong [OF m, of oc_certificates] by (simp add: items_certificates)
  then have "set (rp_Certificates r) = set (concat (map (\<lambda>p. oc_certificates (fst (pe_scan env p))) (disc_jobs items)))"
    by (rule mset_eq_setD)
  then show ?thesis by simp
qed

text \<open>
  C1: what a scan finds. For a tree whose names are proper and that is not deeper than the fuel, the
  walk that does not follow links ends, and a scan of what it found that is not cancelled
  reports exactly the certificates of the files that are wanted: the regular files below the
  root that are not excluded, nor any directory above them, that have a wanted extension and
  are, like those directories, on the file system the scan is limited to. None is missed and
  none is added, however the goroutines interleave.
\<close>

theorem scan_finds_exactly:
  assumes "prepare_scan h root o1 = Inr (w, info)" and "1 \<le> ho_GOMAXPROCS h"
    and "proper_listing w" and "os_Lstat (wk_fs w) (wk_walkRoot w) = Inr rootInfo" and "fi_Mode rootInfo = fi_Mode info"
    and "\<not> opt_FollowSymlinks (wk_options w)" and "depth_within w rootInfo fuel"
    and "\<not> opt_DiscardCertificates (pe_options env)"
  shows "\<exists>ws. discover w fuel info start_walk = Some ws \<and>
    (\<forall>evs st r. pipeline_run env (start_pipeline (wk_options w) (ws_items ws)) evs st \<and> \<not> pl_cancelled st \<and>
       pl_result st = Some (Inr r) \<longrightarrow>
       set (rp_Certificates r) = (\<Union>p\<in>wanted_files w info rootInfo. set (oc_certificates (fst (pe_scan env p)))))"
proof -
  have "normalize_options h root o1 = Inr (wk_options w)"
    using assms(1) by (auto simp: prepare_scan_def split: sum.splits)
  then have workers: "1 \<le> opt_Workers (wk_options w)"
    using normalize_options_ok assms(2) by (simp add: limits_ok_def)
  obtain ws where "discover w fuel info start_walk = Some ws" "queued ws = wanted_files w info rootInfo"
    by (rule discover_exact [OF assms(3-7)])
  with reported_certificates [OF _ workers _ _ assms(8)] show ?thesis
    by (auto simp: queued_jobs [symmetric])
qed

section \<open>A sample\<close>

text \<open>The directory of the other samples, without following its link, scanned by four workers.\<close>

definition plain_request :: options where
  "plain_request = sample_request\<lparr>opt_FollowSymlinks := False\<rparr>"

definition plain_walker :: walker where
  "plain_walker = sample_walker\<lparr>wk_options := sample_normalized\<lparr>opt_FollowSymlinks := False\<rparr>\<rparr>"

lemma plain_prepare: "prepare_scan sample_host ''/r'' plain_request = Inr (plain_walker, sample_info ModeDir)"
proof -
  have "normalize_options sample_host ''/r'' plain_request = Inr (sample_normalized\<lparr>opt_FollowSymlinks := False\<rparr>)"
    by code_simp
  moreover have "inspect_root sample_host ''/r'' (sample_normalized\<lparr>opt_FollowSymlinks := False\<rparr>) =
      Inr (sample_info ModeDir, ''/r'', 7)"
    by code_simp
  ultimately show ?thesis
    by (simp add: prepare_scan_def) (simp add: plain_walker_def sample_walker_def sample_host_def)
qed

lemma plain_simps:
  "wk_fs plain_walker = sample_fs" "wk_walkRoot plain_walker = ''/r''"
  "wk_options plain_walker = sample_normalized\<lparr>opt_FollowSymlinks := False\<rparr>"
  by (simp_all add: plain_walker_def sample_walker_def)

lemma plain_listing: "proper_listing plain_walker"
  using sample_listing by (simp add: proper_listing_def plain_simps) (simp add: sample_walker_def)

lemma plain_depth: "depth_within plain_walker (sample_info ModeDir) 2"
proof -
  have "length names < 2 \<and> (names \<noteq> [] \<longrightarrow> \<not> de_IsDir e)"
    if "below plain_walker [] (root_entry (wk_walkRoot plain_walker) (sample_info ModeDir)) names e" for names e
    using that
  proof induction
    case (below_entry ns f ds e)
    then have "ns = []" by (auto simp: descended_def)
    with below_entry show ?case
      by (auto simp: plain_simps walk_path_def sample_fs_def sample_entry_def de_IsDir_def)
  qed simp
  then show ?thesis by (simp add: depth_within_def)
qed

lemma plain_walk:
  "discover plain_walker 2 (sample_info ModeDir) start_walk =
     Some \<lparr>ws_items = [DJob ''/r/a.pem''], ws_visited = {}, ws_cancels = []\<rparr>"
  by code_simp

lemma plain_run:
  "\<exists>st. pipeline_run sample_pipeline_env (start_pipeline (wk_options plain_walker) [DJob ''/r/a.pem''])
      [DiscAnnounce, DiscSend, DiscEnd, WorkerTake 2, WorkerScan 2, WorkerSend 2, WorkerQuit 0, WorkerQuit 1,
       WorkerQuit 2, WorkerQuit 3, CloseOutcomes, CollectEnd] st \<and>
    \<not> pl_cancelled st \<and> (\<exists>r. pl_result st = Some (Inr r) \<and> rp_Certificates r = [sample_finding ''/r/a.pem''])"
proof -
  have "opt_Workers sample_normalized = 4" by (simp add: sample_normalized_def)
  then have "\<exists>st. run_events sample_pipeline_env
      [DiscAnnounce, DiscSend, DiscEnd, WorkerTake 2, WorkerScan 2, WorkerSend 2, WorkerQuit 0, WorkerQuit 1,
       WorkerQuit 2, WorkerQuit 3, CloseOutcomes, CollectEnd]
      (start_pipeline (wk_options plain_walker) [DJob ''/r/a.pem'']) = Some st \<and>
    \<not> pl_cancelled st \<and> (\<exists>r. pl_result st = Some (Inr r) \<and> rp_Certificates r = [sample_finding ''/r/a.pem''])"
    by (simp add: sample_run_defs sample_options_def plain_simps sortReport_def sort_Slice_def numeral_eq_Suc)
  then show ?thesis using run_events_run by blast
qed

lemma scan_finds_exactly_witness:
  "\<exists>p\<in>wanted_files plain_walker (sample_info ModeDir) (sample_info ModeDir).
    sample_finding ''/r/a.pem'' \<in> set (oc_certificates (fst (pe_scan sample_pipeline_env p)))"
proof -
  obtain evs st r where run: "pipeline_run sample_pipeline_env (start_pipeline (wk_options plain_walker) [DJob ''/r/a.pem'']) evs st"
    "\<not> pl_cancelled st" "pl_result st = Some (Inr r)" and r: "rp_Certificates r = [sample_finding ''/r/a.pem'']"
    using plain_run by blast
  have env: "os_Lstat (wk_fs plain_walker) (wk_walkRoot plain_walker) = Inr (sample_info ModeDir)"
    "1 \<le> ho_GOMAXPROCS sample_host" "\<not> opt_FollowSymlinks (wk_options plain_walker)"
    by (simp_all add: plain_simps sample_fs_def sample_host_def)
  have keep: "\<not> opt_DiscardCertificates (pe_options sample_pipeline_env)" by simp
  let ?found = "\<Union>p\<in>wanted_files plain_walker (sample_info ModeDir) (sample_info ModeDir).
    set (oc_certificates (fst (pe_scan sample_pipeline_env p)))"
  from scan_finds_exactly [OF plain_prepare env(2) plain_listing env(1) refl env(3) plain_depth keep]
  obtain ws where ws: "discover plain_walker 2 (sample_info ModeDir) start_walk = Some ws"
    and exact: "\<forall>evs st r. pipeline_run sample_pipeline_env (start_pipeline (wk_options plain_walker) (ws_items ws)) evs st \<and>
      \<not> pl_cancelled st \<and> pl_result st = Some (Inr r) \<longrightarrow> set (rp_Certificates r) = ?found"
    by (elim exE conjE)
  have "ws_items ws = [DJob ''/r/a.pem'']" using ws plain_walk by (metis option.inject walk_state.select_convs(1))
  then have "pipeline_run sample_pipeline_env (start_pipeline (wk_options plain_walker) (ws_items ws)) evs st \<and>
      \<not> pl_cancelled st \<and> pl_result st = Some (Inr r)"
    using run by (simp only: simp_thms)
  then have "set (rp_Certificates r) = ?found"
    by (rule exact [THEN spec, THEN spec, THEN spec, THEN mp])
  moreover have "sample_finding ''/r/a.pem'' \<in> set (rp_Certificates r)" unfolding r by (rule list.set_intros)
  ultimately have "sample_finding ''/r/a.pem'' \<in> ?found" by (simp only:)
  then show ?thesis by (simp only: UN_iff)
qed

end
