(* ===== verification/Flags.thy ===== *)
theory Flags
  imports Filters Content
begin

text \<open>
  The values of the command's options (main.go): lists collected by repeatable flags, host names,
  usages and durations, and the selection of certificates by them. \<^verbatim>\<open>netip.ParseAddr\<close>,
  \<^verbatim>\<open>time.ParseDuration\<close> and the host name check of \<^verbatim>\<open>crypto/x509\<close> are the record
  \<open>cli_lib\<close>; an address is kept as the string its \<^verbatim>\<open>String\<close> method returns.
\<close>

record cli_lib =
  cli_ToLower :: "string \<Rightarrow> string"
  netip_ParseAddr :: "string \<Rightarrow> string go_result"
  time_ParseDuration :: "string \<Rightarrow> 64 word go_result"
  x509_VerifyHostname :: "string list \<Rightarrow> bytes list \<Rightarrow> string \<Rightarrow> go_error option"

section \<open>Repeatable flags\<close>

fun contains :: "string list \<Rightarrow> string \<Rightarrow> bool" where
  "contains [] wanted = False"
| "contains (v # vs) wanted = (if v = wanted then True else contains vs wanted)"

lemma contains_iff [simp]: "contains vs v \<longleftrightarrow> v \<in> set vs"
  by (induction vs) auto

definition add_value :: "string list \<Rightarrow> string \<Rightarrow> string list" where
  "add_value values v = (if \<not> contains values v then values @ [v] else values)"

text \<open>A \<^verbatim>\<open>Set\<close> method returns the new value of the flag and an error.\<close>

definition rootFlag_Set :: "string list \<Rightarrow> string \<Rightarrow> string list \<times> go_error option" where
  "rootFlag_Set values v =
     (let v = strings_TrimSpace v in
      if v = [] then (values, Some (ErrNew ''root path cannot be empty''))
      else (add_value values (path_Clean v), None))"

definition strings_TrimRight :: "string \<Rightarrow> char \<Rightarrow> string" where
  "strings_TrimRight s c = rev (dropWhile (\<lambda>x. x = c) (rev s))"

definition excludeFlag_Set :: "string list \<Rightarrow> string \<Rightarrow> string list \<times> go_error option" where
  "excludeFlag_Set values v =
     (let v = strings_TrimRight (strings_TrimPrefix (strings_TrimSpace v) ''./'') slash in
      if v = [] \<or> path_IsAbs v then (values, Some (ErrNew ''use a non-empty relative glob''))
      else (case path_Match v [] of
          Inl err \<Rightarrow> (values, Some (Wrapf ''invalid glob %q: %w'' [AStr v] err))
        | Inr _ \<Rightarrow> (add_value values v, None)))"

fun extensionFlag_loop :: "cli_lib \<Rightarrow> string list \<Rightarrow> string list \<Rightarrow> string list \<times> go_error option" where
  "extensionFlag_loop lib values [] = (values, None)"
| "extensionFlag_loop lib values (e # es) =
     (let e = cli_ToLower lib (strings_TrimSpace e) in
      if e = [] \<or> e = ''.'' \<or> strings_ContainsAny e (''/*?[]'' @ [CHR 0x5C, CHR 0x5C])
      then (values, Some (Errorf ''invalid extension %q'' [AStr e]))
      else extensionFlag_loop lib (add_value values (if \<not> strings_HasPrefix e ''.'' then ''.'' @ e else e)) es)"

definition extensionFlag_Set :: "cli_lib \<Rightarrow> string list \<Rightarrow> string \<Rightarrow> string list \<times> go_error option" where
  "extensionFlag_Set lib values v = extensionFlag_loop lib values (split_on (CHR '','') v)"

section \<open>Host names\<close>

definition dns_character :: "rune \<Rightarrow> bool" where
  "dns_character r \<longleftrightarrow> 97 \<le> r \<and> r \<le> 122 \<or> 65 \<le> r \<and> r \<le> 90 \<or> 48 \<le> r \<and> r \<le> 57 \<or> r = 45 \<or> r = 95"

text \<open>The loop over the characters of a label; a character that is accepted has one byte.\<close>

fun label_characters :: "string \<Rightarrow> go_error option" where
  "label_characters [] = None"
| "label_characters (x # s) =
     (let r = fst (DecodeRuneInString (x # s)) in
      if dns_character r then label_characters s
      else Some (Errorf ''DNS label contains unsupported character %q'' [AInt (int r)]))"

fun validate_labels :: "string list \<Rightarrow> go_error option" where
  "validate_labels [] = None"
| "validate_labels (label # labels) =
     (if length label = 0 \<or> length label > 63
      then Some (ErrNew ''DNS labels must contain between 1 and 63 characters'')
      else if hd label = CHR ''-'' \<or> last label = CHR ''-''
      then Some (ErrNew ''DNS labels cannot start or end with a hyphen'')
      else (case label_characters label of Some err \<Rightarrow> Some err | None \<Rightarrow> validate_labels labels))"

definition validateDNSName :: "string \<Rightarrow> go_error option" where
  "validateDNSName v =
     (let v = strings_TrimSuffix v ''.'' in
      if v = [] \<or> length v > 253 then Some (ErrNew ''DNS name must contain between 1 and 253 characters'')
      else validate_labels (split_on (CHR ''.'') v))"

definition normalizeHostname :: "cli_lib \<Rightarrow> string \<Rightarrow> string go_result" where
  "normalizeHostname lib v =
     (let invalid = Inl (Errorf ''invalid hostname or IP address %q'' [AStr v]);
          parsed = (\<lambda>addressValue. case netip_ParseAddr lib addressValue of
            Inr address \<Rightarrow> Inr address
          | Inl _ \<Rightarrow> (case validateDNSName v of
              Some err \<Rightarrow> Inl (Wrapf ''invalid hostname or IP address %q: %w'' [AStr v] err)
            | None \<Rightarrow> Inr v))
      in if v = [] then Inl (ErrNew ''hostname cannot be empty'')
         else if v \<noteq> strings_TrimSpace v then invalid
         else if strings_HasPrefix v ''['' \<and> strings_HasSuffix v '']'' then parsed (butlast (tl v))
         else if strings_ContainsAny v ''[]'' then invalid
         else parsed v)"

definition hostnameFlag_Set :: "cli_lib \<Rightarrow> string \<Rightarrow> string \<Rightarrow> string \<times> go_error option" where
  "hostnameFlag_Set lib hostname v =
     (case normalizeHostname lib v of Inl err \<Rightarrow> (hostname, Some err) | Inr normalized \<Rightarrow> (normalized, None))"

section \<open>Usages\<close>

definition usage_aliases :: "(string \<times> string) list" where
  "usage_aliases = [([], []), (''any'', ''any''), (''server'', ''server''), (''server-auth'', ''server''),
     (''client'', ''client''), (''client-auth'', ''client''), (''code-signing'', ''code-signing''),
     (''email'', ''email-protection''), (''email-protection'', ''email-protection''),
     (''ipsec-end-system'', ''ipsec-end-system''), (''ipsec-tunnel'', ''ipsec-tunnel''), (''ipsec-user'', ''ipsec-user''),
     (''timestamping'', ''timestamping''), (''ocsp-signing'', ''ocsp-signing''),
     (''microsoft-server-gated-crypto'', ''microsoft-server-gated-crypto''),
     (''netscape-server-gated-crypto'', ''netscape-server-gated-crypto''),
     (''microsoft-commercial-code-signing'', ''microsoft-commercial-code-signing''),
     (''microsoft-kernel-code-signing'', ''microsoft-kernel-code-signing'')]"

definition normalizeUsage :: "cli_lib \<Rightarrow> string \<Rightarrow> string go_result" where
  "normalizeUsage lib v =
     (let v = cli_ToLower lib (strings_TrimSpace v) in
      case map_of usage_aliases v of
        None \<Rightarrow> Inl (Errorf ''unsupported -usage %q'' [AStr v])
      | Some usage \<Rightarrow> Inr usage)"

section \<open>Durations\<close>

text \<open>\<^verbatim>\<open>strconv.ParseUint(s, 10, 64)\<close>.\<close>

definition is_digit :: "char \<Rightarrow> bool" where
  "is_digit c \<longleftrightarrow> CHR ''0'' \<le> c \<and> c \<le> CHR ''9''"

definition digits_value :: "string \<Rightarrow> nat" where
  "digits_value s = fold (\<lambda>c n. n * 10 + (of_char c - 48)) s 0"

definition strconv_ParseUint :: "string \<Rightarrow> nat go_result" where
  "strconv_ParseUint s =
     (if s = [] \<or> \<not> list_all is_digit s then Inl (ErrSentinel ''invalid syntax'')
      else if digits_value s \<ge> 2 ^ 64 then Inl (ErrSentinel ''value out of range'')
      else Inr (digits_value s))"

text \<open>A \<^verbatim>\<open>time.Duration\<close> has 64 bits; the constants are its hour and the days it can hold.\<close>

definition time_Hour :: "64 word" where
  "time_Hour = 3600000000000"

definition max_days :: nat where
  "max_days = (2 ^ 63 - 1) div (24 * 3600000000000)"

text \<open>The duration and whether one was given.\<close>

definition parseDurationOption :: "cli_lib \<Rightarrow> string \<Rightarrow> string \<Rightarrow> (64 word \<times> bool) go_result" where
  "parseDurationOption lib option v =
     (let v = strings_TrimSpace v in
      if v = [] then Inr (0, False)
      else
        case (if strings_HasSuffix v ''d'' then
                (case strconv_ParseUint (strings_TrimSuffix v ''d'') of
                   Inl _ \<Rightarrow> Inl (Errorf ''invalid -%s %q'' [AStr option, AStr v])
                 | Inr days \<Rightarrow>
                     if days > max_days then Inl (Errorf ''invalid -%s %q'' [AStr option, AStr v])
                     else Inr (word_of_nat days * 24 * time_Hour))
              else (case time_ParseDuration lib v of
                   Inl _ \<Rightarrow> Inl (Errorf ''invalid -%s %q: use a duration such as 30d or 48h'' [AStr option, AStr v])
                 | Inr duration \<Rightarrow> Inr duration)) of
          Inl err \<Rightarrow> Inl err
        | Inr duration \<Rightarrow>
            if duration <s 0 then Inl (Errorf ''-%s cannot be negative'' [AStr option]) else Inr (duration, True))"

definition parseExpiration :: "cli_lib \<Rightarrow> string \<Rightarrow> (64 word \<times> bool) go_result" where
  "parseExpiration lib v = parseDurationOption lib ''expiration'' v"

section \<open>Selection\<close>

definition VerifyHostname :: "cli_lib \<Rightarrow> certificate \<Rightarrow> string \<Rightarrow> go_error option" where
  "VerifyHostname lib c hostname = x509_VerifyHostname lib (cert_dnsNames c) (cert_ipAddresses c) hostname"

definition certificateExpiresWithin :: "certificate \<Rightarrow> 64 word \<Rightarrow> go_time \<Rightarrow> bool" where
  "certificateExpiresWithin c duration at \<longleftrightarrow> \<not> cert_NotAfter c > at + sint duration"

definition certificateMatches ::
  "cli_lib \<Rightarrow> certificate \<Rightarrow> string \<Rightarrow> string \<Rightarrow> 64 word \<Rightarrow> bool \<Rightarrow> go_time \<Rightarrow> bool" where
  "certificateMatches lib c usage hostname expiration hasExpiration at =
     (if usage \<noteq> [] \<and> \<not> cert_ExtendedKeyUsageUnrestricted c \<and> \<not> contains (cert_ExtendedKeyUsage c) usage then False
      else if hostname \<noteq> [] \<and> VerifyHostname lib c hostname \<noteq> None then False
      else if hasExpiration then \<not> cert_NotAfter c > at + sint expiration
      else True)"

end
