(* ===== verification/Output.thy ===== *)
theory Output
  imports Report GoPath
begin

text \<open>
  What the command prints (main.go, duplicates.go): the text of a certificate, of a group and of an
  encrypted content, and their JSON objects. The functions of \<^verbatim>\<open>strconv\<close> and \<^verbatim>\<open>time\<close> that
  quote a string and format a time are the record \<open>text_lib\<close>; how \<^verbatim>\<open>encoding/json\<close> writes
  a value is not modelled, only which value it is given.
\<close>

record text_lib =
  strconv_Quote :: "string \<Rightarrow> string"
  time_RFC3339 :: "go_time \<Rightarrow> string"

section \<open>Writers\<close>

text \<open>
  A writer: the chunks that were written, and the errors of the next writes; no error when the
  list is exhausted. A write that fails writes nothing.
\<close>

record writer =
  wr_written :: "string list"
  wr_errors :: "go_error option list"

definition next_error :: "writer \<Rightarrow> go_error option" where
  "next_error w = (case wr_errors w of [] \<Rightarrow> None | e # _ \<Rightarrow> e)"

definition Fprint :: "string \<Rightarrow> writer \<Rightarrow> go_error option \<times> writer" where
  "Fprint chunk w =
     (case next_error w of
        None \<Rightarrow> (None, w\<lparr>wr_written := wr_written w @ [chunk], wr_errors := tl (wr_errors w)\<rparr>)
      | Some err \<Rightarrow> (Some err, w\<lparr>wr_errors := tl (wr_errors w)\<rparr>))"

text \<open>Writes one after the other, up to the first error.\<close>

fun print_chunks :: "string list \<Rightarrow> writer \<Rightarrow> go_error option \<times> writer" where
  "print_chunks [] w = (None, w)"
| "print_chunks (chunk # chunks) w =
     (case Fprint chunk w of (Some err, w) \<Rightarrow> (Some err, w) | (None, w) \<Rightarrow> print_chunks chunks w)"

definition newline :: string where
  "newline = [CHR 0x0A]"

definition println :: "string \<Rightarrow> string" where
  "println s = s @ newline"

section \<open>Text\<close>

definition formatBoolean :: "bool \<Rightarrow> string" where
  "formatBoolean value = (if value then ''yes'' else ''no'')"

definition formatLogicalLocation :: "string \<Rightarrow> string list \<Rightarrow> string" where
  "formatLogicalLocation filePath archiveEntries =
     (if archiveEntries = [] then filePath else filePath @ '':'' @ strings_Join archiveEntries '':'')"

definition or_default :: "string \<Rightarrow> string \<Rightarrow> string" where
  "or_default s other = (if s = [] then other else s)"

text \<open>The lines about a keystore entry.\<close>

definition keystore_lines :: "text_lib \<Rightarrow> keystore_info \<Rightarrow> string list" where
  "keystore_lines lib k =
     [''  Keystore format: '' @ ks_Format k] @
     (if ks_Alias k \<noteq> [] then [''  Keystore alias: '' @ strconv_Quote lib (ks_Alias k)] else []) @
     (if ks_FriendlyName k \<noteq> []
      then [''  Keystore friendly name: '' @ strconv_Quote lib (ks_FriendlyName k)] else []) @
     [''  Keystore entry type: '' @ ks_EntryType k,
      ''  Keystore chain index: '' @ itoa (ks_ChainIndex k),
      ''  Truststore: '' @ formatBoolean (ks_Truststore k)]"

definition certificate_lines :: "text_lib \<Rightarrow> certificate \<Rightarrow> go_time \<Rightarrow> string list" where
  "certificate_lines lib c at =
     (let sans = (if cert_SANs c \<noteq> [] then strings_Join (cert_SANs c) '', '' else ''(none)'');
          usages = (if cert_ExtendedKeyUsageUnrestricted c \<and> cert_ExtendedKeyUsage c = []
                    then ''(not specified; unrestricted)''
                    else if cert_ExtendedKeyUsage c \<noteq> [] then strings_Join (cert_ExtendedKeyUsage c) '', ''
                    else ''(none)'');
          keyUsage = (if cert_KeyUsage c \<noteq> [] then strings_Join (cert_KeyUsage c) '', '' else ''(none)'');
          publicKey = or_default (cert_PublicKeyAlgorithm c) ''unknown'' @
            (if cert_PublicKeyBits c > 0 then '' ('' @ itoa (cert_PublicKeyBits c) @ '' bits)''
             else if cert_PublicKeyCurve c \<noteq> [] then '' ('' @ cert_PublicKeyCurve c @ '')'' else [])
      in (case cert_Keystore c of None \<Rightarrow> [] | Some k \<Rightarrow> keystore_lines lib k) @
         [''  Subject: '' @ or_default (cert_Subject c) ''(empty)'',
          ''  Issuer: '' @ or_default (cert_Issuer c) ''(empty)'',
          ''  Serial number: '' @ or_default (cert_SerialNumber c) ''(none)'',
          ''  Certificate type: '' @ (if cert_IsCA c then ''CA'' else ''leaf''),
          ''  Self-signed: '' @ formatBoolean (cert_SelfSigned c),
          ''  SANs: '' @ sans,
          ''  Key usage: '' @ keyUsage,
          ''  Extended key usage: '' @ usages,
          ''  Public key: '' @ publicKey,
          ''  Signature algorithm: '' @ or_default (cert_SignatureAlgorithm c) ''unknown'',
          ''  SHA-1 fingerprint: '' @ cert_SHA1Fingerprint c,
          ''  SHA-256 fingerprint: '' @ cert_SHA256Fingerprint c,
          ''  SPKI SHA-256 fingerprint: '' @ cert_SPKISHA256Fingerprint c,
          ''  Valid from: '' @ time_RFC3339 lib (cert_NotBefore c),
          ''  Valid to: '' @ time_RFC3339 lib (cert_NotAfter c),
          ''  Validity status: '' @ ValidityStatus c at])"

definition chain_line :: "nat \<times> verification_chain_certificate \<Rightarrow> string" where
  "chain_line = (\<lambda>(i, c). ''      '' @ itoa (int i) @ '': '' @ vc_Subject c @ '' [sha256 '' @ vc_SHA256Fingerprint c @
     '']'' @ (if vc_TrustAnchor c then '' (trust anchor)'' else []))"

definition verification_lines :: "verification_result \<Rightarrow> string list" where
  "verification_lines v =
     [''  Verification status: '' @ vr_Status v] @
     (if vr_Error v \<noteq> [] then [''  Verification error: '' @ vr_Error v] else []) @
     (if vr_Chains v \<noteq> []
      then (''  Verified chains: '' @ itoa (int (length (vr_Chains v)))) #
        concat (map (\<lambda>(i, chain). (''    Chain '' @ itoa (int i) @ '':'') #
          map chain_line (List.enumerate 0 chain)) (List.enumerate 0 (vr_Chains v)))
      else [])"

definition printCertificateDetailsAt ::
  "text_lib \<Rightarrow> certificate \<Rightarrow> go_time \<Rightarrow> writer \<Rightarrow> go_error option \<times> writer" where
  "printCertificateDetailsAt lib c at w =
     print_chunks (map println (certificate_lines lib c at @
       (case cert_Verification c of None \<Rightarrow> [] | Some v \<Rightarrow> verification_lines v))) w"

definition printCertificateAt ::
  "text_lib \<Rightarrow> certificate \<Rightarrow> go_time \<Rightarrow> writer \<Rightarrow> go_error option \<times> writer" where
  "printCertificateAt lib c at w =
     (case Fprint (println (formatLogicalLocation (cert_Path c) (cert_ArchiveEntries c) @ '' [index '' @
         itoa (cert_Index c) @ '']'')) w of
        (Some err, w) \<Rightarrow> (Some err, w)
      | (None, w) \<Rightarrow> printCertificateDetailsAt lib c at w)"

definition printPKCS12EncryptedContent ::
  "pkcs12_encrypted_content \<Rightarrow> writer \<Rightarrow> go_error option \<times> writer" where
  "printPKCS12EncryptedContent f w =
     print_chunks (map println
       [formatLogicalLocation (enc_Path f) (enc_ArchiveEntries f) @ '' [PKCS#12 content '' @ itoa (enc_ContentIndex f) @ '']'',
        ''  Status: encrypted; certificates are unreadable without a password'',
        ''  PBE algorithm: '' @ enc_Algorithm f @ '' ('' @ enc_AlgorithmOID f @ '')'',
        ''  Bag count: '' @ (case enc_BagCount f of None \<Rightarrow> ''unknown'' | Some n \<Rightarrow> itoa n)]) w"

definition formatCertificateLocation :: "text_lib \<Rightarrow> certificate_location \<Rightarrow> string" where
  "formatCertificateLocation lib l =
     (let result = formatLogicalLocation (loc_Path l) (loc_ArchiveEntries l) @ '' [index '' @ itoa (loc_Index l) @ '']''
      in case loc_Keystore l of None \<Rightarrow> result
       | Some k \<Rightarrow>
           let details = [''keystore '' @ ks_Format k] @
             (if ks_Alias k \<noteq> [] then [''alias '' @ strconv_Quote lib (ks_Alias k)] else []) @
             (if ks_FriendlyName k \<noteq> [] then [''friendly name '' @ strconv_Quote lib (ks_FriendlyName k)] else []) @
             [''entry type '' @ ks_EntryType k, ''chain index '' @ itoa (ks_ChainIndex k),
              ''truststore '' @ (if ks_Truststore k then ''true'' else ''false'')]
           in result @ '' ['' @ strings_Join details ''; '' @ '']'')"

definition printCertificateGroupAt ::
  "text_lib \<Rightarrow> certificate_group \<Rightarrow> go_time \<Rightarrow> writer \<Rightarrow> go_error option \<times> writer" where
  "printCertificateGroupAt lib g at w =
     (case print_chunks (map println ([''Certificate'', ''  Locations ('' @ itoa (int (length (gr_Locations g))) @ ''):''] @
         map (\<lambda>l. ''    '' @ formatCertificateLocation lib l) (gr_Locations g))) w of
        (Some err, w) \<Rightarrow> (Some err, w)
      | (None, w) \<Rightarrow> printCertificateDetailsAt lib ((gr_Certificate g)\<lparr>cert_Keystore := None\<rparr>) at w)"

end
