(* ===== verification/Json.thy ===== *)
theory Json
  imports Output
begin

text \<open>
  The JSON the command writes (main.go, duplicates.go): the structs of the output, the values their
  tags make of them, and the lists of records of a report. \<^verbatim>\<open>encoding/json\<close> writes a value
  of type \<open>json\<close>; an object keeps its fields in the order of the struct.
\<close>

datatype json = JNull | JBool bool | JNum int | JStr string | JArr "json list" | JObj "(string \<times> json) list"

text \<open>A field with \<^verbatim>\<open>omitempty\<close> is left out when it is false, zero, nil or empty.\<close>

definition omit_when :: "bool \<Rightarrow> string \<Rightarrow> json \<Rightarrow> (string \<times> json) list" where
  "omit_when absent key v = (if absent then [] else [(key, v)])"

definition json_strings :: "string list \<Rightarrow> json" where
  "json_strings ss = JArr (map JStr ss)"

section \<open>Keystores and verification\<close>

text \<open>Go's \<^verbatim>\<open>jsonKeystoreInfo\<close> has the fields of \<^verbatim>\<open>KeystoreInfo\<close>; a nil pointer is \<open>None\<close>.\<close>

definition newJSONKeystoreInfo :: "keystore_info option \<Rightarrow> json option" where
  "newJSONKeystoreInfo = map_option (\<lambda>k. JObj (
     [(''format'', JStr (ks_Format k))] @
     omit_when (ks_Alias k = []) ''alias'' (JStr (ks_Alias k)) @
     omit_when (ks_FriendlyName k = []) ''friendly_name'' (JStr (ks_FriendlyName k)) @
     [(''entry_type'', JStr (ks_EntryType k)), (''chain_index'', JNum (ks_ChainIndex k)),
      (''truststore'', JBool (ks_Truststore k))]))"

definition json_chain_certificate :: "verification_chain_certificate \<Rightarrow> json" where
  "json_chain_certificate c = JObj [(''subject'', JStr (vc_Subject c)), (''issuer'', JStr (vc_Issuer c)),
     (''sha256_fingerprint'', JStr (vc_SHA256Fingerprint c)), (''trust_anchor'', JBool (vc_TrustAnchor c))]"

definition newJSONVerification :: "verification_result option \<Rightarrow> json option" where
  "newJSONVerification = map_option (\<lambda>v. JObj (
     [(''status'', JStr (vr_Status v))] @
     omit_when (vr_Error v = []) ''error'' (JStr (vr_Error v)) @
     omit_when (vr_Chains v = []) ''chains'' (JArr (map (\<lambda>chain. JArr (map json_chain_certificate chain)) (vr_Chains v)))))"

section \<open>Certificates\<close>

record json_certificate =
  jc_Path :: string
  jc_ArchiveEntries :: "string list"
  jc_Index :: "int option"
  jc_Subject :: string
  jc_Issuer :: string
  jc_SerialNumber :: string
  jc_IsCA :: bool
  jc_SelfSigned :: bool
  jc_SANs :: "string list"
  jc_KeyUsage :: "string list"
  jc_ExtendedKeyUsage :: "string list"
  jc_ExtendedKeyUsageUnrestricted :: bool
  jc_Algorithm :: string
  jc_Bits :: int
  jc_Curve :: string
  jc_SignatureAlgorithm :: string
  jc_SHA1 :: string
  jc_SHA256 :: string
  jc_SPKISHA256 :: string
  jc_ValidFrom :: string
  jc_ValidTo :: string
  jc_ValidityStatus :: string
  jc_Keystore :: "json option"
  jc_Verification :: "json option"

definition newJSONCertificate :: "text_lib \<Rightarrow> certificate \<Rightarrow> go_time \<Rightarrow> json_certificate" where
  "newJSONCertificate lib c at =
     \<lparr>jc_Path = cert_Path c, jc_ArchiveEntries = cert_ArchiveEntries c, jc_Index = Some (cert_Index c),
      jc_Subject = cert_Subject c, jc_Issuer = cert_Issuer c, jc_SerialNumber = cert_SerialNumber c,
      jc_IsCA = cert_IsCA c, jc_SelfSigned = cert_SelfSigned c, jc_SANs = cert_SANs c,
      jc_KeyUsage = cert_KeyUsage c, jc_ExtendedKeyUsage = cert_ExtendedKeyUsage c,
      jc_ExtendedKeyUsageUnrestricted = cert_ExtendedKeyUsageUnrestricted c,
      jc_Algorithm = cert_PublicKeyAlgorithm c, jc_Bits = cert_PublicKeyBits c, jc_Curve = cert_PublicKeyCurve c,
      jc_SignatureAlgorithm = cert_SignatureAlgorithm c, jc_SHA1 = cert_SHA1Fingerprint c,
      jc_SHA256 = cert_SHA256Fingerprint c, jc_SPKISHA256 = cert_SPKISHA256Fingerprint c,
      jc_ValidFrom = time_RFC3339 lib (cert_NotBefore c), jc_ValidTo = time_RFC3339 lib (cert_NotAfter c),
      jc_ValidityStatus = ValidityStatus c at, jc_Keystore = newJSONKeystoreInfo (cert_Keystore c),
      jc_Verification = newJSONVerification (cert_Verification c)\<rparr>"

definition json_publicKey :: "json_certificate \<Rightarrow> json" where
  "json_publicKey c = JObj ([(''algorithm'', JStr (jc_Algorithm c))] @
     omit_when (jc_Bits c = 0) ''bits'' (JNum (jc_Bits c)) @ omit_when (jc_Curve c = []) ''curve'' (JStr (jc_Curve c)))"

definition json_fingerprints :: "json_certificate \<Rightarrow> json" where
  "json_fingerprints c = JObj [(''sha1'', JStr (jc_SHA1 c)), (''sha256'', JStr (jc_SHA256 c)),
     (''spki_sha256'', JStr (jc_SPKISHA256 c))]"

definition option_field :: "string \<Rightarrow> json option \<Rightarrow> (string \<times> json) list" where
  "option_field key v = (case v of None \<Rightarrow> [] | Some j \<Rightarrow> [(key, j)])"

text \<open>The value the tags of the struct describe.\<close>

definition json_of_certificate :: "json_certificate \<Rightarrow> json" where
  "json_of_certificate c = JObj (
     omit_when (jc_Path c = []) ''path'' (JStr (jc_Path c)) @
     omit_when (jc_ArchiveEntries c = []) ''archive_entries'' (json_strings (jc_ArchiveEntries c)) @
     option_field ''index'' (map_option JNum (jc_Index c)) @
     [(''subject'', JStr (jc_Subject c)), (''issuer'', JStr (jc_Issuer c)),
      (''serial_number'', JStr (jc_SerialNumber c)), (''is_ca'', JBool (jc_IsCA c)),
      (''self_signed'', JBool (jc_SelfSigned c)), (''sans'', json_strings (jc_SANs c)),
      (''key_usage'', json_strings (jc_KeyUsage c)), (''extended_key_usage'', json_strings (jc_ExtendedKeyUsage c)),
      (''extended_key_usage_unrestricted'', JBool (jc_ExtendedKeyUsageUnrestricted c)),
      (''public_key'', json_publicKey c), (''signature_algorithm'', JStr (jc_SignatureAlgorithm c)),
      (''fingerprints'', json_fingerprints c), (''valid_from'', JStr (jc_ValidFrom c)),
      (''valid_to'', JStr (jc_ValidTo c)), (''validity_status'', JStr (jc_ValidityStatus c))] @
     option_field ''keystore'' (jc_Keystore c) @
     option_field ''verification'' (jc_Verification c))"

section \<open>Encrypted contents and reports\<close>

definition newJSONPKCS12EncryptedContent :: "pkcs12_encrypted_content \<Rightarrow> json" where
  "newJSONPKCS12EncryptedContent f = JObj (
     [(''record_type'', JStr ''pkcs12_encrypted_content''), (''path'', JStr (enc_Path f))] @
     omit_when (enc_ArchiveEntries f = []) ''archive_entries'' (json_strings (enc_ArchiveEntries f)) @
     [(''pkcs12'', JObj [(''status'', JStr ''encrypted''), (''content_index'', JNum (enc_ContentIndex f)),
        (''algorithm'', JStr (enc_Algorithm f)), (''algorithm_oid'', JStr (enc_AlgorithmOID f)),
        (''bag_count'', (case enc_BagCount f of None \<Rightarrow> JNull | Some n \<Rightarrow> JNum n))])])"

definition printJSONResultsAt ::
  "text_lib \<Rightarrow> certificate list \<Rightarrow> pkcs12_encrypted_content list \<Rightarrow> go_time \<Rightarrow> json" where
  "printJSONResultsAt lib certificates encrypted at =
     JArr (map (\<lambda>c. json_of_certificate (newJSONCertificate lib c at)) certificates @
           map newJSONPKCS12EncryptedContent encrypted)"

text \<open>A location and a group, with the fields the source clears in the certificate of a group.\<close>

definition json_location :: "certificate_location \<Rightarrow> json" where
  "json_location l = JObj (
     [(''path'', JStr (loc_Path l))] @
     omit_when (loc_ArchiveEntries l = []) ''archive_entries'' (json_strings (loc_ArchiveEntries l)) @
     [(''index'', JNum (loc_Index l))] @
     option_field ''keystore'' (newJSONKeystoreInfo (loc_Keystore l)))"

definition group_json_certificate :: "text_lib \<Rightarrow> certificate_group \<Rightarrow> go_time \<Rightarrow> json_certificate" where
  "group_json_certificate lib g at =
     (newJSONCertificate lib (gr_Certificate g) at)\<lparr>jc_Path := [], jc_Index := None, jc_Keystore := None\<rparr>"

definition json_group :: "text_lib \<Rightarrow> go_time \<Rightarrow> certificate_group \<Rightarrow> json" where
  "json_group lib at g = JObj [(''certificate'', json_of_certificate (group_json_certificate lib g at)),
     (''locations'', JArr (map json_location (gr_Locations g)))]"

definition printJSONCertificateGroupsAndPKCS12At ::
  "text_lib \<Rightarrow> certificate_group list \<Rightarrow> pkcs12_encrypted_content list \<Rightarrow> go_time \<Rightarrow> json" where
  "printJSONCertificateGroupsAndPKCS12At lib groups encrypted at =
     JArr (map (json_group lib at) groups @ map newJSONPKCS12EncryptedContent encrypted)"

end
