(* ===== verification/Run.thy ===== *)
theory Run
  imports Flags Json Verify
begin

text \<open>
  The command (\<^verbatim>\<open>run\<close>, main.go): the checks of its options, the roots of a verification, what the
  callbacks of the scan do with each finding, and the exit status. The scan is a parameter of
  this theory: it takes a path and options and yields the calls of the callbacks in their
  order and its result. Flags are taken as \<^verbatim>\<open>flag.Parse\<close> leaves them.
\<close>

definition exitSuccess :: int where "exitSuccess = 0"

definition exitRuntimeError :: int where "exitRuntimeError = 1"

definition exitUsageError :: int where "exitUsageError = 2"

definition exitOperationalFinding :: int where "exitOperationalFinding = 3"

lemmas exits = exitSuccess_def exitRuntimeError_def exitUsageError_def exitOperationalFinding_def

datatype output_format = OutputText | OutputJSON | OutputJSONL

datatype identity_mode = IdentityAll | IdentityUnique | IdentityDuplicates

section \<open>The options\<close>

text \<open>\<open>fl_provided\<close> are the names of the flags that were given.\<close>

record cli_flags =
  fl_excludes :: "string list"
  fl_extensions :: "string list"
  fl_roots :: "string list"
  fl_maxBytes :: int
  fl_workers :: int
  fl_oneFileSystem :: bool
  fl_followSymlinks :: bool
  fl_archives :: bool
  fl_archiveMaxBytes :: int
  fl_archiveMaxEntries :: int
  fl_archiveMaxDepth :: int
  fl_ignoreErrors :: bool
  fl_usage :: string
  fl_hostname :: string
  fl_expired :: bool
  fl_expiration :: string
  fl_failExpired :: bool
  fl_failExpiring :: string
  fl_verify :: bool
  fl_rootsOnly :: bool
  fl_unique :: bool
  fl_duplicates :: bool
  fl_json :: bool
  fl_jsonl :: bool
  fl_quiet :: bool
  fl_version :: bool
  fl_args :: "string list"
  fl_provided :: "string list"

datatype parsed_flags = FlagsHelp | FlagsError | Flags cli_flags

text \<open>What the checks make of the options.\<close>

record settings =
  se_usage :: string
  se_hostname :: string
  se_expiration :: "64 word"
  se_hasExpiration :: bool
  se_failExpiration :: "64 word"
  se_hasFailExpiration :: bool
  se_identity :: identity_mode
  se_format :: output_format

definition invalid_option :: "string \<Rightarrow> string \<Rightarrow> go_error" where
  "invalid_option name msg = Errorf ''invalid option'' [AStr name, AStr msg]"

definition conflict :: "string \<Rightarrow> go_error" where
  "conflict names = Errorf ''conflicting options'' [AStr names]"

text \<open>The numbers, and the limits of archives that need the archives.\<close>

definition check_numbers :: "cli_flags \<Rightarrow> go_error option" where
  "check_numbers f =
     (if fl_maxBytes f < 0 then Some (invalid_option ''max-bytes'' ''value cannot be negative'')
      else if fl_workers f < 1 then Some (invalid_option ''workers'' ''value must be at least 1'')
      else if fl_archiveMaxBytes f < 1 then Some (invalid_option ''archive-max-bytes'' ''value must be positive'')
      else if fl_archiveMaxEntries f < 1 then Some (invalid_option ''archive-max-entries'' ''value must be positive'')
      else if fl_archiveMaxDepth f < 1 then Some (invalid_option ''archive-max-depth'' ''value must be positive'')
      else if \<not> fl_archives f \<and> (''archive-max-bytes'' \<in> set (fl_provided f) \<or>
          ''archive-max-entries'' \<in> set (fl_provided f) \<or> ''archive-max-depth'' \<in> set (fl_provided f))
      then Some (invalid_option [] ''archive limit options require -archives'')
      else None)"

text \<open>A duration with its shortcut for zero days.\<close>

definition duration_or_shortcut ::
  "(64 word \<times> bool) go_result \<Rightarrow> string \<Rightarrow> bool \<Rightarrow> string \<Rightarrow> (64 word \<times> bool) go_result" where
  "duration_or_shortcut parsed name shortcut names =
     (case parsed of
        Inl err \<Rightarrow> Inl (Wrapf ''invalid option'' [AStr name] err)
      | Inr (duration, given) \<Rightarrow>
          if shortcut \<and> given then Inl (conflict names)
          else Inr (if shortcut then (0, True) else (duration, given)))"

definition check_modes :: "cli_flags \<Rightarrow> go_error option" where
  "check_modes f =
     (if fl_json f \<and> fl_jsonl f then Some (conflict ''json,jsonl'')
      else if \<not> fl_verify f \<and> (fl_roots f \<noteq> [] \<or> fl_rootsOnly f)
      then Some (invalid_option [] ''-roots and -roots-only require -verify'')
      else if fl_rootsOnly f \<and> fl_roots f = []
      then Some (invalid_option [] ''-roots-only requires at least one -roots path'')
      else if fl_unique f \<and> fl_duplicates f then Some (conflict ''unique,duplicates'')
      else if fl_jsonl f \<and> (fl_unique f \<or> fl_duplicates f)
      then Some (conflict (''jsonl,'' @ (if fl_duplicates f then ''duplicates'' else ''unique'')))
      else None)"

definition check_options :: "cli_lib \<Rightarrow> cli_flags \<Rightarrow> settings go_result" where
  "check_options lib f =
     (case check_numbers f of Some err \<Rightarrow> Inl err
      | None \<Rightarrow> (case normalizeUsage lib (fl_usage f) of
          Inl err \<Rightarrow> Inl (Wrapf ''invalid option'' [AStr ''usage''] err)
        | Inr usage \<Rightarrow> (case duration_or_shortcut (parseExpiration lib (fl_expiration f)) ''expiration''
              (fl_expired f) ''expired,expiration'' of
            Inl err \<Rightarrow> Inl err
          | Inr (expiration, hasExpiration) \<Rightarrow>
              (case duration_or_shortcut (parseDurationOption lib ''fail-expiring'' (fl_failExpiring f))
                  ''fail-expiring'' (fl_failExpired f) ''fail-expired,fail-expiring'' of
                Inl err \<Rightarrow> Inl err
              | Inr (failExpiration, hasFailExpiration) \<Rightarrow>
                  (case check_modes f of Some err \<Rightarrow> Inl err
                   | None \<Rightarrow> Inr \<lparr>se_usage = usage, se_hostname = fl_hostname f,
                       se_expiration = expiration, se_hasExpiration = hasExpiration,
                       se_failExpiration = failExpiration, se_hasFailExpiration = hasFailExpiration,
                       se_identity = (if fl_unique f then IdentityUnique
                         else if fl_duplicates f then IdentityDuplicates else IdentityAll),
                       se_format = (if fl_json f then OutputJSON
                         else if fl_jsonl f then OutputJSONL else OutputText)\<rparr>)))))"

definition grouped_output :: "settings \<Rightarrow> bool" where
  "grouped_output s \<longleftrightarrow> se_identity s \<noteq> IdentityAll"

definition scan_options :: "cli_flags \<Rightarrow> settings \<Rightarrow> options" where
  "scan_options f s =
     \<lparr>opt_MaxBytes = fl_maxBytes f, opt_Workers = fl_workers f, opt_Exclude = fl_excludes f,
      opt_Extensions = fl_extensions f, opt_OneFileSystem = fl_oneFileSystem f,
      opt_FollowSymlinks = fl_followSymlinks f, opt_ScanArchives = fl_archives f,
      opt_ArchiveMaxBytes = fl_archiveMaxBytes f, opt_ArchiveMaxEntries = fl_archiveMaxEntries f,
      opt_ArchiveMaxDepth = fl_archiveMaxDepth f,
      opt_DiscardCertificates = (\<not> fl_json f \<and> \<not> grouped_output s \<and> \<not> fl_verify f),
      opt_DiscardPKCS12Encrypted = (\<not> fl_json f)\<rparr>"

section \<open>The scan\<close>

datatype callback = OnCertificate certificate | OnPKCS12Encrypted pkcs12_encrypted_content

type_synonym scan_function = "string \<Rightarrow> options \<Rightarrow> callback list \<times> report go_result"

text \<open>
  The rest of the process: the current time when the run starts, the result of writing the version,
  the errors of the next JSON Lines records, the error of the progress display, and of the
  final JSON document.
\<close>

record run_env =
  ru_lib :: cli_lib
  ru_verifyLib :: verify_lib
  ru_text :: text_lib
  ru_Scan :: scan_function
  ru_now :: go_time
  ru_later :: go_time
  ru_versionErr :: "go_error option"
  ru_encodeErrors :: "go_error option list"
  ru_displayErr :: "go_error option"
  ru_jsonErr :: "go_error option"

section \<open>Roots of a verification\<close>

definition add_root :: "certificate \<Rightarrow> string set \<times> certificate list \<Rightarrow> string set \<times> certificate list" where
  "add_root c = (\<lambda>(seen, certificates).
     if cert_SHA256Fingerprint c \<in> seen then (seen, certificates)
     else (insert (cert_SHA256Fingerprint c) seen, certificates @ [c]))"

definition root_options :: "int \<Rightarrow> options" where
  "root_options workers = \<lparr>opt_MaxBytes = DefaultMaxBytes, opt_Workers = workers, opt_Exclude = [],
     opt_Extensions = [], opt_OneFileSystem = False, opt_FollowSymlinks = False, opt_ScanArchives = False,
     opt_ArchiveMaxBytes = 0, opt_ArchiveMaxEntries = 0, opt_ArchiveMaxDepth = 0,
     opt_DiscardCertificates = False, opt_DiscardPKCS12Encrypted = False\<rparr>"

text \<open>A \<^verbatim>\<open>FileError\<close> as an error: it unwraps to its cause.\<close>

definition file_error_error :: "file_error \<Rightarrow> go_error" where
  "file_error_error e = Wrapf ''%s: %v'' [AStr (fe_Path e)] (fe_Err e)"

fun load_roots ::
  "scan_function \<Rightarrow> int \<Rightarrow> string list \<Rightarrow> string set \<times> certificate list \<Rightarrow> (string set \<times> certificate list) go_result" where
  "load_roots scan workers [] st = Inr st"
| "load_roots scan workers (rootPath # paths) st =
     (case snd (scan rootPath (root_options workers)) of
        Inl err \<Rightarrow> Inl (Wrapf ''scan %q: %w'' [AStr rootPath] err)
      | Inr r \<Rightarrow>
          if rp_Errors r \<noteq> []
          then Inl (Wrapf ''scan %q: %w'' [AStr rootPath] (ErrJoin (map file_error_error (rp_Errors r))))
          else if rp_PKCS12Encrypted r \<noteq> []
          then Inl (Errorf ''scan %q: contains encrypted PKCS#12 content'' [AStr rootPath])
          else if rp_Certificates r = []
          then Inl (Errorf ''scan %q: no certificates found'' [AStr rootPath])
          else load_roots scan workers paths (fold add_root (rp_Certificates r) st))"

definition loadVerificationRoots :: "scan_function \<Rightarrow> string list \<Rightarrow> int \<Rightarrow> certificate list go_result" where
  "loadVerificationRoots scan paths workers = map_sum id snd (load_roots scan workers paths ({}, []))"

section \<open>Findings\<close>

datatype shown = ShownCertificate certificate | ShownEncrypted pkcs12_encrypted_content | ShownGroup certificate_group

text \<open>
  The variables the callbacks change, and what was shown: handed to the display, or written as a
  JSON line without an error.
\<close>

record run_state =
  rs_outputErr :: "go_error option"
  rs_finding :: bool
  rs_counts :: "(string \<times> int) list"
  rs_shown :: "shown list"
  rs_encodeErrors :: "go_error option list"

definition start_run :: "run_env \<Rightarrow> run_state" where
  "start_run env = \<lparr>rs_outputErr = None, rs_finding = False, rs_counts = [], rs_shown = [],
     rs_encodeErrors = ru_encodeErrors env\<rparr>"

definition show_finding :: "settings \<Rightarrow> shown \<Rightarrow> run_state \<Rightarrow> run_state" where
  "show_finding s item st =
     (case se_format s of
        OutputText \<Rightarrow> st\<lparr>rs_shown := rs_shown st @ [item]\<rparr>
      | OutputJSON \<Rightarrow> st
      | OutputJSONL \<Rightarrow>
          let err = (case rs_encodeErrors st of [] \<Rightarrow> None | e # _ \<Rightarrow> e)
          in st\<lparr>rs_outputErr := err, rs_encodeErrors := tl (rs_encodeErrors st),
                rs_shown := rs_shown st @ (if err = None then [item] else [])\<rparr>)"

definition matches :: "run_env \<Rightarrow> settings \<Rightarrow> certificate \<Rightarrow> bool" where
  "matches env s c =
     certificateMatches (ru_lib env) c (se_usage s) (se_hostname s) (se_expiration s) (se_hasExpiration s) (ru_now env)"

definition expires :: "run_env \<Rightarrow> settings \<Rightarrow> certificate \<Rightarrow> bool" where
  "expires env s c \<longleftrightarrow> se_hasFailExpiration s \<and> certificateExpiresWithin c (se_failExpiration s) (ru_now env)"

text \<open>What is done with a certificate that matches.\<close>

definition take_certificate :: "run_env \<Rightarrow> settings \<Rightarrow> certificate \<Rightarrow> run_state \<Rightarrow> run_state" where
  "take_certificate env s c st =
     (let st = st\<lparr>rs_counts := count_identity (cert_SHA256Fingerprint c) (rs_counts st)\<rparr>;
          st = (if expires env s c then st\<lparr>rs_finding := True\<rparr> else st)
      in if grouped_output s then st else show_finding s (ShownCertificate c) st)"

definition on_certificate :: "run_env \<Rightarrow> cli_flags \<Rightarrow> settings \<Rightarrow> certificate \<Rightarrow> run_state \<Rightarrow> run_state" where
  "on_certificate env f s c st =
     (if fl_verify f then st
      else if rs_outputErr st \<noteq> None \<or> \<not> matches env s c then st
      else take_certificate env s c st)"

definition on_encrypted :: "settings \<Rightarrow> pkcs12_encrypted_content \<Rightarrow> run_state \<Rightarrow> run_state" where
  "on_encrypted s finding st =
     (if rs_outputErr st \<noteq> None then st else show_finding s (ShownEncrypted finding) st)"

fun on_callback :: "run_env \<Rightarrow> cli_flags \<Rightarrow> settings \<Rightarrow> callback \<Rightarrow> run_state \<Rightarrow> run_state" where
  "on_callback env f s (OnCertificate c) st = on_certificate env f s c st"
| "on_callback env f s (OnPKCS12Encrypted e) st = on_encrypted s e st"

text \<open>The loop over the verified certificates, which ends at an output error.\<close>

fun take_verified :: "run_env \<Rightarrow> settings \<Rightarrow> certificate list \<Rightarrow> run_state \<Rightarrow> run_state" where
  "take_verified env s [] st = st"
| "take_verified env s (c # cs) st =
     (if \<not> matches env s c then take_verified env s cs st
      else
        let st = take_certificate env s c st
        in if rs_outputErr st \<noteq> None then st else take_verified env s cs st)"

section \<open>The run\<close>

text \<open>
  The exit status, what was shown on the way, the final JSON document, the summary of the
  display and the errors that are logged as warnings.
\<close>

record run_result =
  rr_exit :: int
  rr_shown :: "shown list"
  rr_json :: "json option"
  rr_summary :: "identity_summary option"
  rr_warnings :: "file_error list"

definition failed_run :: "int \<Rightarrow> shown list \<Rightarrow> run_result" where
  "failed_run exit shown = \<lparr>rr_exit = exit, rr_shown = shown, rr_json = None, rr_summary = None, rr_warnings = []\<rparr>"

definition filtered_certificates :: "run_env \<Rightarrow> settings \<Rightarrow> report \<Rightarrow> certificate list" where
  "filtered_certificates env s r =
     (if se_format s = OutputJSON \<or> grouped_output s then filter (matches env s) (rp_Certificates r) else [])"

definition output_groups :: "settings \<Rightarrow> certificate list \<Rightarrow> certificate_group list" where
  "output_groups s filtered =
     (if grouped_output s then
        let groups = groupCertificates filtered
        in if se_identity s = IdentityDuplicates then duplicateCertificateGroups groups else groups
      else [])"

text \<open>
  The end of a run whose scan and verification have returned. The groups are made of a slice that
  \<^verbatim>\<open>groupCertificates\<close> sorts in place, which the ungrouped document does not use.
\<close>

definition final_exit :: "cli_flags \<Rightarrow> report \<Rightarrow> bool \<Rightarrow> int" where
  "final_exit f r operationalFinding =
     (if rp_Errors r \<noteq> [] \<and> \<not> fl_ignoreErrors f then exitRuntimeError
      else if operationalFinding then exitOperationalFinding
      else exitSuccess)"

definition finish_run :: "run_env \<Rightarrow> cli_flags \<Rightarrow> settings \<Rightarrow> report \<Rightarrow> run_state \<Rightarrow> run_result" where
  "finish_run env f s r st =
     (let filtered = filtered_certificates env s r;
          groups = output_groups s filtered;
          shown = rs_shown st @ (if se_format s = OutputText then map ShownGroup groups else []);
          summary = summarizeCertificateIdentities (rs_counts st)
      in if ru_displayErr env \<noteq> None
         then \<lparr>rr_exit = exitRuntimeError, rr_shown = shown, rr_json = None, rr_summary = Some summary, rr_warnings = []\<rparr>
         else
           let json = (if se_format s \<noteq> OutputJSON then None
             else if grouped_output s
             then Some (printJSONCertificateGroupsAndPKCS12At (ru_text env) groups (rp_PKCS12Encrypted r) (ru_later env))
             else Some (printJSONResultsAt (ru_text env) filtered (rp_PKCS12Encrypted r) (ru_later env)))
           in if json \<noteq> None \<and> ru_jsonErr env \<noteq> None
              then \<lparr>rr_exit = exitRuntimeError, rr_shown = shown, rr_json = None, rr_summary = Some summary, rr_warnings = []\<rparr>
              else \<lparr>rr_exit = final_exit f r (rs_finding st), rr_shown = shown, rr_json = json,
                    rr_summary = Some summary, rr_warnings = rp_Errors r\<rparr>)"

definition verify_run ::
  "run_env \<Rightarrow> cli_flags \<Rightarrow> settings \<Rightarrow> certificate list \<Rightarrow> report \<Rightarrow> run_state \<Rightarrow> run_result" where
  "verify_run env f s roots r st =
     (case VerifyCertificates (ru_verifyLib env) (ru_now env) (rp_Certificates r)
         \<lparr>vo_CurrentTime = Some (ru_now env), vo_DNSName = se_hostname s,
          vo_IncludeSystemRoots = (\<not> fl_rootsOnly f), vo_Roots = roots\<rparr> of
        Inl err \<Rightarrow> failed_run exitRuntimeError (rs_shown st)
      | Inr verified \<Rightarrow>
          let st = take_verified env s verified st
          in if rs_outputErr st \<noteq> None then failed_run exitRuntimeError (rs_shown st)
             else finish_run env f s (r\<lparr>rp_Certificates := verified\<rparr>) st)"

definition scan_run :: "run_env \<Rightarrow> cli_flags \<Rightarrow> settings \<Rightarrow> string \<Rightarrow> certificate list \<Rightarrow> run_result" where
  "scan_run env f s path roots =
     (case ru_Scan env path (scan_options f s) of (callbacks, result) \<Rightarrow>
        let st = fold (on_callback env f s) callbacks (start_run env)
        in if rs_outputErr st \<noteq> None then failed_run exitRuntimeError (rs_shown st)
           else (case result of
               Inl err \<Rightarrow> failed_run exitRuntimeError (rs_shown st)
             | Inr r \<Rightarrow> if fl_verify f then verify_run env f s roots r st else finish_run env f s r st))"

definition run :: "run_env \<Rightarrow> parsed_flags \<Rightarrow> run_result" where
  "run env parsed =
     (case parsed of
        FlagsHelp \<Rightarrow> failed_run exitSuccess []
      | FlagsError \<Rightarrow> failed_run exitUsageError []
      | Flags f \<Rightarrow>
          if fl_version f
          then failed_run (if ru_versionErr env \<noteq> None then exitRuntimeError else exitSuccess) []
          else (case fl_args f of
              [path] \<Rightarrow>
                (case check_options (ru_lib env) f of
                   Inl err \<Rightarrow> failed_run exitUsageError []
                 | Inr s \<Rightarrow>
                     (case (if fl_verify f \<and> fl_roots f \<noteq> []
                            then loadVerificationRoots (ru_Scan env) (fl_roots f) (fl_workers f) else Inr []) of
                        Inl err \<Rightarrow> failed_run exitRuntimeError []
                      | Inr roots \<Rightarrow> scan_run env f s path roots))
            | _ \<Rightarrow> failed_run exitUsageError []))"

end
