(* ===== verification/FlagsFacts.thy ===== *)
theory FlagsFacts
  imports Flags Samples ContentFacts
begin

text \<open>
  What the options of the command mean: the range of the durations, which host names are accepted, and
  what a usage filter selects.
\<close>

section \<open>Numerals\<close>

lemma digit_facts:
  assumes "d < 10"
  shows "is_digit (digit_char d)" and "of_char (digit_char d) - 48 = d"
proof -
  have "of_char (char_of (48 + d) :: char) = 48 + d" using assms by simp
  then show "of_char (digit_char d) - 48 = d" using assms by (simp add: digit_char_def)
  show "is_digit (digit_char d)"
    using assms by (simp add: is_digit_def digit_char_def less_eq_char_def)
qed

lemma show_base_digits: "list_all is_digit (show_base 10 n) \<and> show_base 10 n \<noteq> [] \<and> digits_value (show_base 10 n) = n"
proof (induction n rule: less_induct)
  case (less n)
  show ?case
  proof (cases "n < 10")
    case True
    then show ?thesis
      by (simp add: show_base.simps [of 10 n] digit_facts digits_value_def)
  next
    case False
    with less.IH [of "n div 10"] show ?thesis
      by (simp add: show_base.simps [of 10 n] digit_facts digits_value_def)
  qed
qed

lemma strconv_ParseUint_show: "strconv_ParseUint (show_base 10 n) = (if n < 2 ^ 64 then Inr n else Inl (ErrSentinel ''value out of range''))"
  using show_base_digits [of n] by (simp add: strconv_ParseUint_def)

text \<open>Text without spaces at its ends is not trimmed.\<close>

lemma spaces_ends: "list_all (\<lambda>p. p \<noteq> [] \<and> \<not> is_digit (hd p) \<and> last p \<noteq> CHR ''d'') spaces"
  unfolding spaces_strings by code_simp

lemma trim_left_none: "\<forall>p\<in>set spaces. \<not> strings_HasPrefix s p \<Longrightarrow> trim_left n s = s"
  by (cases n) (auto split: option.split simp: find_Some_iff)

lemma trim_right_none: "\<forall>p\<in>set spaces. \<not> strings_HasSuffix s p \<Longrightarrow> trim_right n s = s"
  by (cases n) (auto split: option.split simp: find_Some_iff)

lemma TrimSpace_days: "strings_TrimSpace (show_base 10 n @ ''d'') = show_base 10 n @ ''d''"
proof -
  let ?s = "show_base 10 n @ ''d''"
  have d: "is_digit (hd ?s)" and l: "last ?s = CHR ''d''"
    using show_base_digits [of n] by (auto simp: list_all_iff)
  have "\<not> strings_HasPrefix ?s p" if "p \<in> set spaces" for p
  proof
    assume "strings_HasPrefix ?s p"
    then obtain t where "?s = p @ t" unfolding strings_HasPrefix_prefix by (auto simp: prefix_def)
    with that spaces_ends d show False by (auto simp: list_all_iff hd_append2)
  qed
  moreover have "\<not> strings_HasSuffix ?s p" if "p \<in> set spaces" for p
  proof
    assume "strings_HasSuffix ?s p"
    then have "last ?s = last p"
      using that spaces_ends unfolding strings_HasSuffix_def list_all_iff
      by (metis append_take_drop_id last_append)
    with that spaces_ends l show False by (auto simp: list_all_iff)
  qed
  ultimately have "trim_left k ?s = ?s" "trim_right k ?s = ?s" for k
    by (blast intro: trim_left_none trim_right_none)+
  then show ?thesis by (simp only: strings_TrimSpace_def Let_def)
qed

section \<open>Durations\<close>

lemma max_days_value: "max_days = 106751"
  by (simp add: max_days_def)

lemma days_exact:
  assumes "n \<le> max_days"
  shows "sint (word_of_nat n * 24 * time_Hour) = int n * 86400000000000"
proof -
  have w: "word_of_nat n * 24 * time_Hour = (word_of_int (int n * 86400000000000) :: 64 word)"
    by (simp add: time_Hour_def)
  have "int n * 86400000000000 < 2 ^ 63" using assms by (simp add: max_days_value)
  then show ?thesis
    unfolding w sint_uint by (subst uint_word_of_int) (simp add: take_bit_eq_mod signed_take_bit_int_eq_self)
qed

text \<open>
  C28: a number of days is taken exactly, in nanoseconds of 64 bits without a wrap-around, as long as
  they can hold it, and refused beyond; and no option gives a negative duration.
\<close>

theorem durations_exact:
  "(case parseDurationOption lib option (show_base 10 n @ ''d'') of
      Inr (d, given) \<Rightarrow> given \<and> n \<le> 106751 \<and> sint d = int n * 86400000000000
    | Inl err \<Rightarrow> 106751 < n) \<and>
   (case parseDurationOption lib option v of Inr (d, given) \<Rightarrow> 0 \<le> sint d | Inl err \<Rightarrow> True)"
proof -
  let ?s = "show_base 10 n @ ''d''"
  have "strings_HasSuffix ?s ''d''" "strings_TrimSuffix ?s ''d'' = show_base 10 n"
    by (simp_all add: strings_HasSuffix_def strings_TrimSuffix_def)
  then have p: "parseDurationOption lib option ?s =
      (if n > max_days then Inl (Errorf ''invalid -%s %q'' [AStr option, AStr ?s])
       else if word_of_nat n * 24 * time_Hour <s 0 then Inl (Errorf ''-%s cannot be negative'' [AStr option])
       else Inr (word_of_nat n * 24 * time_Hour, True))"
    unfolding parseDurationOption_def TrimSpace_days Let_def
    by (simp add: max_days_value strconv_ParseUint_show)
  have "n \<le> max_days \<Longrightarrow> \<not> (word_of_nat n * 24 * time_Hour :: 64 word) <s 0"
    using days_exact by (simp add: word_sless_alt)
  then have "case parseDurationOption lib option ?s of
      Inr (d, given) \<Rightarrow> given \<and> n \<le> 106751 \<and> sint d = int n * 86400000000000
    | Inl err \<Rightarrow> 106751 < n"
    unfolding p using days_exact by (auto simp: max_days_value)
  moreover have "case parseDurationOption lib option v of Inr (d, given) \<Rightarrow> 0 \<le> sint d | Inl err \<Rightarrow> True"
    by (auto simp: parseDurationOption_def Let_def word_sless_alt split: sum.split)
  ultimately show ?thesis by blast
qed

section \<open>Host names\<close>

definition ldh :: "char \<Rightarrow> bool" where
  "ldh c \<longleftrightarrow> list_ex (\<lambda>(lo, hi). lo \<le> c \<and> c \<le> hi) [(CHR ''a'', CHR ''z''), (CHR ''A'', CHR ''Z''), (CHR ''0'', CHR ''9'')] \<or>
     c \<in> set ''-_''"

text \<open>A byte below 128 decodes to itself, any other byte to a character above.\<close>

lemma decode_ascii:
  assumes "unat a < 128"
  shows "fst (utf8_DecodeRune (a # r)) = unat a"
proof -
  from assms have "utf8_len (a # r) = Suc 0" by (simp add: utf8_len_eq_1)
  then show ?thesis by (simp add: utf8_DecodeRune_def)
qed

lemma mod_above: "m dvd k \<Longrightarrow> k \<le> n \<Longrightarrow> n < k + m \<Longrightarrow> n mod m = n - k" for n :: nat
  using mod_offset [of m k "n - k"] by auto

lemma lead_bits:
  fixes n :: nat
  shows "194 \<le> n \<Longrightarrow> n \<le> 223 \<Longrightarrow> 2 \<le> n mod 32"
    and "225 \<le> n \<Longrightarrow> n \<le> 239 \<Longrightarrow> 1 \<le> n mod 16"
    and "241 \<le> n \<Longrightarrow> n \<le> 244 \<Longrightarrow> 1 \<le> n mod 8"
    and "160 \<le> n \<Longrightarrow> n \<le> 191 \<Longrightarrow> 32 \<le> n mod 64"
    and "144 \<le> n \<Longrightarrow> n \<le> 191 \<Longrightarrow> 16 \<le> n mod 64"
  using mod_above [of 32 192 n] mod_above [of 16 224 n] mod_above [of 8 240 n] mod_above [of 64 128 n]
  by simp_all

lemma decode_wide:
  assumes "128 \<le> unat a"
  shows "128 \<le> fst (utf8_DecodeRune (a # r))"
proof -
  consider "utf8_len (a # r) = 0" | "utf8_len (a # r) = 1" | "utf8_len (a # r) = 2" | "utf8_len (a # r) = 3"
    | "utf8_len (a # r) = 4"
    using utf8_len_cases [of "a # r"] by auto
  then show ?thesis
  proof cases
    case 3
    then have "2 \<le> unat a mod 32" unfolding utf8_len_eq_2 using lead_bits(1) by simp
    with 3 show ?thesis by (simp add: utf8_DecodeRune_def numeral_2_eq_2)
  next
    case 4
    then obtain b cs where r: "r = b # cs" unfolding utf8_len_eq_3 by (auto elim: utf8_between_ConsE)
    have "1 \<le> unat a mod 16 \<or> 32 \<le> unat b mod 64"
    proof (cases "unat a = 0xE0")
      case True
      then have "0xA0 \<le> unat b" "unat b \<le> 0xBF" using 4 unfolding utf8_len_eq_3 by (simp_all add: r)
      then show ?thesis using lead_bits(4) by simp
    next
      case False
      with 4 have "0xE1 \<le> unat a" "unat a \<le> 0xEF" unfolding utf8_len_eq_3 by simp_all
      then show ?thesis using lead_bits(2) by simp
    qed
    with 4 show ?thesis by (auto simp: utf8_DecodeRune_def numeral_3_eq_3 r)
  next
    case 5
    then obtain b cs where r: "r = b # cs" unfolding utf8_len_eq_4 by (auto elim: utf8_between_ConsE)
    have "1 \<le> unat a mod 8 \<or> 16 \<le> unat b mod 64"
    proof (cases "unat a = 0xF0")
      case True
      then have "0x90 \<le> unat b" "unat b \<le> 0xBF" using 5 unfolding utf8_len_eq_4 by (simp_all add: r)
      then show ?thesis using lead_bits(5) by simp
    next
      case False
      with 5 have "0xF1 \<le> unat a" "unat a \<le> 0xF4" unfolding utf8_len_eq_4 by simp_all
      then show ?thesis using lead_bits(3) by simp
    qed
    moreover have "utf8_len (a # r) = Suc (Suc (Suc (Suc 0)))" using 5 by simp
    ultimately show ?thesis by (auto simp: utf8_DecodeRune_def r)
  qed (use assms in \<open>simp_all add: utf8_DecodeRune_def utf8_len_eq_1\<close>)
qed

lemma ldh_code: "ldh c \<longleftrightarrow> dns_character (of_char c)"
proof -
  have eq: "c = d \<longleftrightarrow> (of_char c :: nat) = of_char d" for d by simp
  show ?thesis
    by (simp add: ldh_def dns_character_def less_eq_char_def eq [of "CHR ''-''"] eq [of "CHR ''_''"] disj_assoc)
qed

lemma dns_character_decode: "dns_character (fst (DecodeRuneInString (x # s))) \<longleftrightarrow> ldh x"
proof -
  let ?a = "byte_of_char x"
  have a: "unat ?a = of_char x"
    by (simp add: byte_of_char_def unat_of_nat)
  have d: "DecodeRuneInString (x # s) = utf8_DecodeRune (?a # bytes_of_string (take 3 s))"
    by (simp add: DecodeRuneInString_def bytes_of_string_def)
  show ?thesis
  proof (cases "unat ?a < 128")
    case True
    then show ?thesis by (simp add: d decode_ascii ldh_code a)
  next
    case False
    then have "128 \<le> fst (DecodeRuneInString (x # s))" unfolding d by (intro decode_wide) simp
    moreover have "\<not> dns_character n" if "128 \<le> n" for n using that by (simp add: dns_character_def)
    ultimately show ?thesis using False by (simp add: ldh_code a)
  qed
qed

text \<open>
  The DNS names that are accepted: up to 253 characters without the final dot, in labels of up to
  63 letters, digits, hyphens and underscores that neither start nor end with a hyphen.
\<close>

theorem validateDNSName_iff:
  "validateDNSName v = None \<longleftrightarrow>
     (let s = strings_TrimSuffix v ''.'' in s \<noteq> [] \<and> length s \<le> 253 \<and>
        list_all (\<lambda>label. label \<noteq> [] \<and> length label \<le> 63 \<and> hd label \<noteq> CHR ''-'' \<and> last label \<noteq> CHR ''-'' \<and>
          list_all ldh label) (split_on (CHR ''.'') s))"
proof -
  have lc: "label_characters s = None \<longleftrightarrow> list_all ldh s" for s
    by (induction s) (simp_all add: Let_def dns_character_decode)
  have "validate_labels ls = None \<longleftrightarrow>
      list_all (\<lambda>label. label \<noteq> [] \<and> length label \<le> 63 \<and> hd label \<noteq> CHR ''-'' \<and> last label \<noteq> CHR ''-'' \<and>
        list_all ldh label) ls" for ls
  proof (induction ls)
    case (Cons l ls)
    with lc [of l] show ?case by (cases "label_characters l") auto
  qed simp
  then show ?thesis by (simp add: validateDNSName_def Let_def not_less)
qed

section \<open>Usages\<close>

text \<open>The names of the usages a filter can ask for are those a certificate is described with.\<close>

definition named_usages :: "ext_key_usage list" where
  "named_usages = [ExtKeyUsageAny, ExtKeyUsageServerAuth, ExtKeyUsageClientAuth, ExtKeyUsageCodeSigning,
     ExtKeyUsageEmailProtection, ExtKeyUsageIPSECEndSystem, ExtKeyUsageIPSECTunnel, ExtKeyUsageIPSECUser,
     ExtKeyUsageTimeStamping, ExtKeyUsageOCSPSigning, ExtKeyUsageMicrosoftServerGatedCrypto,
     ExtKeyUsageNetscapeServerGatedCrypto, ExtKeyUsageMicrosoftCommercialCodeSigning,
     ExtKeyUsageMicrosoftKernelCodeSigning]"

lemma usage_aliases_names:
  "list_all (\<lambda>(a, u). u = [] \<or> u \<in> set (map extendedKeyUsageName named_usages)) usage_aliases"
  by code_simp

lemma named_usages_distinct: "distinct (map extendedKeyUsageName named_usages)"
  by code_simp

lemma names_no_prefix:
  "list_all (\<lambda>u. take 4 u \<noteq> ''oid:'' \<and> take 8 u \<noteq> ''unknown:'') (map extendedKeyUsageName named_usages)"
  by code_simp

lemma named_or_other: "k \<in> set named_usages \<or> (\<exists>n. k = ExtKeyUsageOther n)"
  by (cases k) (simp_all add: named_usages_def)

lemma usage_alias:
  assumes "map_of usage_aliases v = Some u" and "u \<noteq> []"
  shows "\<exists>!k. extendedKeyUsageName k = u" and "take 4 u \<noteq> ''oid:''"
proof -
  have "u \<in> set (map extendedKeyUsageName named_usages)"
    using map_of_SomeD [OF assms(1)] usage_aliases_names assms(2) by (auto simp: list_all_iff)
  then obtain k where k: "k \<in> set named_usages" "u = extendedKeyUsageName k" by auto
  with names_no_prefix show "take 4 u \<noteq> ''oid:''" by (auto simp: list_all_iff)
  have "k' = k" if "extendedKeyUsageName k' = u" for k'
    using named_or_other [of k']
  proof
    assume "k' \<in> set named_usages"
    with k that named_usages_distinct show "k' = k" by (auto simp: distinct_map dest: inj_onD)
  next
    assume "\<exists>n. k' = ExtKeyUsageOther n"
    then have "take 8 u = ''unknown:''" using that by auto
    with k names_no_prefix show "k' = k" by (auto simp: list_all_iff)
  qed
  with k(2) show "\<exists>!k. extendedKeyUsageName k = u" by blast
qed

lemma describe_usages:
  "cert_ExtendedKeyUsage (describe lib path i x) = fst (formatExtendedKeyUsage x)"
  "cert_ExtendedKeyUsageUnrestricted (describe lib path i x) = snd (formatExtendedKeyUsage x)"
  by (simp_all add: describe_def Let_def case_prod_unfold)

text \<open>
  C40: a usage filter selects, among the certificates a scan describes, those without the extended key
  usage extension, those for any usage, and those for the usage its name stands for; every
  name that is accepted stands for one.
\<close>

theorem usage_filter_selects:
  assumes "normalizeUsage clib v = Inr u" and "u \<noteq> []"
  shows "(\<exists>!k. extendedKeyUsageName k = u) \<and>
    certificateMatches clib (describe lib path i x) u [] expiration False at =
     (\<not> list_ex (\<lambda>extension. oid_String extension = ''2.5.29.37'') (x_Extensions x) \<or>
      ExtKeyUsageAny \<in> set (x_ExtKeyUsage x) \<or> (\<exists>k\<in>set (x_ExtKeyUsage x). extendedKeyUsageName k = u))"
proof -
  from assms(1) have a: "map_of usage_aliases (cli_ToLower clib (strings_TrimSpace v)) = Some u"
    by (auto simp: normalizeUsage_def Let_def split: option.splits)
  note u = usage_alias [OF a assms(2)]
  have "u \<noteq> ''oid:'' @ w" for w using u(2) by auto
  then have "u \<in> set (fst (formatExtendedKeyUsage x)) \<longleftrightarrow> (\<exists>k\<in>set (x_ExtKeyUsage x). extendedKeyUsageName k = u)"
    by (auto simp: formatExtendedKeyUsage_def)
  with u(1) assms(2) show ?thesis
    by (auto simp: certificateMatches_def describe_usages formatExtendedKeyUsage_def)
qed

definition sample_cli_lib :: cli_lib where
  "sample_cli_lib = \<lparr>cli_ToLower = map ascii_lower, netip_ParseAddr = (\<lambda>_. Inl (ErrNew ''not an address'')),
     time_ParseDuration = (\<lambda>_. Inr 3600000000000),
     x509_VerifyHostname = (\<lambda>names _ h. if h \<in> set names then None else Some (ErrNew ''not valid for the name''))\<rparr>"

lemma usage_filter_selects_witness:
  "certificateMatches sample_cli_lib (describe sample_lib ''a.pem'' 0 (sample_cert [1])) ''server'' [] 0 False 5"
proof -
  have "normalizeUsage sample_cli_lib '' Server-Auth'' = Inr ''server''" by code_simp
  from usage_filter_selects [OF this, of sample_lib "''a.pem''" 0 "sample_cert [1]" 0 5] show ?thesis
    by (simp add: sample_cert_def)
qed

end
