(* ===== verification/RunFacts.thy ===== *)
theory RunFacts
  imports Run FlagsFacts
begin

text \<open>
  What a run of the command shows and the status it ends with, and that monitoring for expiry changes
  nothing but the status.
\<close>

section \<open>One finding\<close>

definition streams :: "settings \<Rightarrow> bool" where
  "streams s \<longleftrightarrow> se_format s \<noteq> OutputJSON"

definition no_errors :: "run_state \<Rightarrow> bool" where
  "no_errors st \<longleftrightarrow> rs_outputErr st = None \<and> (\<forall>e\<in>set (rs_encodeErrors st). e = None)"

lemma show_finding_ok:
  assumes "no_errors st"
  shows "no_errors (show_finding s item st) \<and>
    rs_shown (show_finding s item st) = rs_shown st @ (if streams s then [item] else []) \<and>
    rs_counts (show_finding s item st) = rs_counts st \<and> rs_finding (show_finding s item st) = rs_finding st"
proof -
  have "(case rs_encodeErrors st of [] \<Rightarrow> None | e # _ \<Rightarrow> e) = None"
    using assms by (auto simp: no_errors_def split: list.split)
  moreover have "set (tl (rs_encodeErrors st)) \<subseteq> set (rs_encodeErrors st)"
    by (cases "rs_encodeErrors st") auto
  ultimately show ?thesis
    using assms by (auto simp: show_finding_def no_errors_def streams_def Let_def split: output_format.split)
qed

text \<open>The certificates a run looks at: those of the callbacks, or the verified ones of the report.\<close>

definition shown_certificate :: "run_env \<Rightarrow> settings \<Rightarrow> certificate \<Rightarrow> shown list" where
  "shown_certificate env s c =
     (if matches env s c \<and> \<not> grouped_output s \<and> streams s then [ShownCertificate c] else [])"

definition taken :: "run_env \<Rightarrow> settings \<Rightarrow> certificate list \<Rightarrow> run_state \<Rightarrow> run_state \<Rightarrow> bool" where
  "taken env s cs st st' \<longleftrightarrow> no_errors st' \<and>
     rs_counts st' = fold (\<lambda>c. count_identity (cert_SHA256Fingerprint c)) (filter (matches env s) cs) (rs_counts st) \<and>
     (rs_finding st' \<longleftrightarrow> rs_finding st \<or> (\<exists>c\<in>set cs. matches env s c \<and> expires env s c))"

lemma take_certificate_ok:
  assumes "no_errors st" and "matches env s c"
  shows "taken env s [c] st (take_certificate env s c st) \<and>
    rs_shown (take_certificate env s c st) = rs_shown st @ shown_certificate env s c"
proof -
  have "no_errors (st\<lparr>rs_counts := n, rs_finding := b\<rparr>)" "no_errors (st\<lparr>rs_counts := n\<rparr>)" for n b
    using assms(1) by (simp_all add: no_errors_def)
  with assms(2) show ?thesis
    by (simp add: take_certificate_def taken_def shown_certificate_def show_finding_ok Let_def)
qed

section \<open>All findings\<close>

fun callback_certificates :: "callback list \<Rightarrow> certificate list" where
  "callback_certificates [] = []"
| "callback_certificates (OnCertificate c # cs) = c # callback_certificates cs"
| "callback_certificates (OnPKCS12Encrypted e # cs) = callback_certificates cs"

fun shown_callbacks :: "run_env \<Rightarrow> cli_flags \<Rightarrow> settings \<Rightarrow> callback list \<Rightarrow> shown list" where
  "shown_callbacks env f s [] = []"
| "shown_callbacks env f s (OnCertificate c # cs) =
     (if fl_verify f then [] else shown_certificate env s c) @ shown_callbacks env f s cs"
| "shown_callbacks env f s (OnPKCS12Encrypted e # cs) =
     (if streams s then [ShownEncrypted e] else []) @ shown_callbacks env f s cs"

lemma taken_Nil: "no_errors st \<Longrightarrow> taken env s [] st st"
  by (simp add: taken_def)

lemma taken_Cons:
  assumes "taken env s [c] st st1" and "taken env s cs st1 st2"
  shows "taken env s (c # cs) st st2"
  using assms by (auto simp: taken_def)

lemma taken_skip:
  assumes "\<not> matches env s c" and "taken env s cs st st'"
  shows "taken env s (c # cs) st st'"
  using assms by (auto simp: taken_def)

lemma callbacks_ok:
  assumes "no_errors st"
  shows "taken env s (if fl_verify f then [] else callback_certificates cbs) st (fold (on_callback env f s) cbs st) \<and>
    rs_shown (fold (on_callback env f s) cbs st) = rs_shown st @ shown_callbacks env f s cbs"
  using assms
proof (induction cbs arbitrary: st)
  case (Cons cb cbs)
  show ?case
  proof (cases cb)
    case (OnCertificate c)
    show ?thesis
    proof (cases "\<not> fl_verify f \<and> matches env s c")
      case True
      note one = take_certificate_ok [OF Cons.prems, of env s c]
      have st: "on_certificate env f s c st = take_certificate env s c st"
        using True Cons.prems by (simp add: on_certificate_def no_errors_def)
      have "no_errors (take_certificate env s c st)" using one True by (simp add: taken_def)
      from Cons.IH [OF this] one True show ?thesis
        by (auto simp: OnCertificate st intro: taken_Cons)
    next
      case False
      then have "on_callback env f s cb st = st"
        by (auto simp: OnCertificate on_certificate_def)
      with Cons.IH [OF Cons.prems] False show ?thesis
        by (auto simp: OnCertificate shown_certificate_def intro: taken_skip)
    qed
  next
    case (OnPKCS12Encrypted e)
    note one = show_finding_ok [OF Cons.prems, of s "ShownEncrypted e"]
    have "on_callback env f s cb st = show_finding s (ShownEncrypted e) st"
      using Cons.prems by (simp add: OnPKCS12Encrypted on_encrypted_def no_errors_def)
    with Cons.IH [of "show_finding s (ShownEncrypted e) st"] one show ?thesis
      by (auto simp: OnPKCS12Encrypted taken_def)
  qed
qed (simp add: taken_Nil)

lemma verified_ok:
  assumes "no_errors st"
  shows "taken env s cs st (take_verified env s cs st) \<and>
    rs_shown (take_verified env s cs st) = rs_shown st @ concat (map (shown_certificate env s) cs)"
  using assms
proof (induction cs arbitrary: st)
  case (Cons c cs)
  show ?case
  proof (cases "matches env s c")
    case True
    note one = take_certificate_ok [OF Cons.prems True]
    then have "no_errors (take_certificate env s c st)" by (simp add: taken_def)
    with Cons.IH [OF this] one True show ?thesis
      by (auto simp: no_errors_def Let_def intro: taken_Cons)
  next
    case False
    with Cons.IH [OF Cons.prems] show ?thesis
      by (auto simp: shown_certificate_def intro: taken_skip)
  qed
qed (simp add: taken_Nil)

section \<open>The whole run\<close>

definition writes_succeed :: "run_env \<Rightarrow> bool" where
  "writes_succeed env \<longleftrightarrow> (\<forall>e\<in>set (ru_encodeErrors env). e = None) \<and> ru_displayErr env = None \<and> ru_jsonErr env = None"

lemma start_ok: "writes_succeed env \<Longrightarrow> no_errors (start_run env)"
  by (simp add: writes_succeed_def no_errors_def start_run_def)

lemma verify_one_same:
  "matches env s (verify_one lib q c) = matches env s c"
  "expires env s (verify_one lib q c) = expires env s c"
  "cert_SHA256Fingerprint (verify_one lib q c) = cert_SHA256Fingerprint c"
  by (cases "cert_parsed c"; simp add: verify_one_def matches_def certificateMatches_def VerifyHostname_def
      expires_def certificateExpiresWithin_def)+

lemma verified_map:
  assumes "VerifyCertificates lib now cs options = Inr verified"
  obtains q where "verified = map (verify_one lib q) cs"
  using assms by (auto simp: VerifyCertificates_def Let_def split: sum.splits)

lemma filter_verified: "filter (matches env s) (map (verify_one lib q) cs) = map (verify_one lib q) (filter (matches env s) cs)"
  by (induction cs) (simp_all add: verify_one_same)

text \<open>The certificates that were shown one by one.\<close>

fun shown_certificates :: "shown list \<Rightarrow> certificate list" where
  "shown_certificates [] = []"
| "shown_certificates (ShownCertificate c # items) = c # shown_certificates items"
| "shown_certificates (_ # items) = shown_certificates items"

lemma shown_certificates_append [simp]: "shown_certificates (xs @ ys) = shown_certificates xs @ shown_certificates ys"
  by (induction xs rule: shown_certificates.induct) simp_all

lemma shown_certificates_groups [simp]: "shown_certificates (map ShownGroup gs) = []"
  by (induction gs) simp_all

definition streamed :: "run_env \<Rightarrow> settings \<Rightarrow> certificate list \<Rightarrow> certificate list" where
  "streamed env s cs = (if grouped_output s \<or> \<not> streams s then [] else filter (matches env s) cs)"

lemma streamed_certificates: "shown_certificates (concat (map (shown_certificate env s) cs)) = streamed env s cs"
  by (induction cs) (auto simp: shown_certificate_def streamed_def)

lemma streamed_callbacks:
  "shown_certificates (shown_callbacks env f s cbs) = (if fl_verify f then [] else streamed env s (callback_certificates cbs))"
  by (induction env f s cbs rule: shown_callbacks.induct) (auto simp: shown_certificate_def streamed_def)

text \<open>The end of the run, in which nothing fails.\<close>

lemma finish_run_ok:
  assumes "writes_succeed env"
  shows "rr_exit (finish_run env f s r st) = final_exit f r (rs_finding st) \<and>
    rr_summary (finish_run env f s r st) = Some (summarizeCertificateIdentities (rs_counts st)) \<and>
    rr_warnings (finish_run env f s r st) = rp_Errors r \<and>
    shown_certificates (rr_shown (finish_run env f s r st)) = shown_certificates (rs_shown st)"
  using assms by (simp add: finish_run_def writes_succeed_def Let_def)

definition roots_loaded :: "run_env \<Rightarrow> cli_flags \<Rightarrow> certificate list \<Rightarrow> bool" where
  "roots_loaded env f roots \<longleftrightarrow>
     (if fl_verify f \<and> fl_roots f \<noteq> [] then loadVerificationRoots (ru_Scan env) (fl_roots f) (fl_workers f) = Inr roots
      else roots = [])"

definition verified_as :: "run_env \<Rightarrow> cli_flags \<Rightarrow> settings \<Rightarrow> certificate list \<Rightarrow> certificate list \<Rightarrow> certificate list \<Rightarrow> bool" where
  "verified_as env f s roots cs verified \<longleftrightarrow>
     VerifyCertificates (ru_verifyLib env) (ru_now env) cs
       \<lparr>vo_CurrentTime = Some (ru_now env), vo_DNSName = se_hostname s,
        vo_IncludeSystemRoots = (\<not> fl_rootsOnly f), vo_Roots = roots\<rparr> = Inr verified"

lemma scan_run_ok:
  assumes ok: "writes_succeed env" and scan: "ru_Scan env path (scan_options f s) = (cbs, Inr r)"
    and verified: "fl_verify f \<Longrightarrow> verified_as env f s roots (rp_Certificates r) verified"
  defines "cs \<equiv> if fl_verify f then verified else callback_certificates cbs"
  shows "rr_exit (scan_run env f s path roots) = final_exit f r (\<exists>c\<in>set cs. matches env s c \<and> expires env s c) \<and>
    rr_summary (scan_run env f s path roots) =
      Some (summarizeCertificateIdentities (identity_counts (filter (matches env s) cs))) \<and>
    rr_warnings (scan_run env f s path roots) = rp_Errors r \<and>
    shown_certificates (rr_shown (scan_run env f s path roots)) = streamed env s cs"
proof -
  let ?st = "fold (on_callback env f s) cbs (start_run env)"
  have start: "rs_counts (start_run env) = []" "rs_finding (start_run env) = False" "rs_shown (start_run env) = []"
    by (simp_all add: start_run_def)
  note cb = callbacks_ok [OF start_ok [OF ok], of env s f cbs, unfolded taken_def start]
  then have ne: "no_errors ?st" by blast
  show ?thesis
  proof (cases "fl_verify f")
    case False
    then have "scan_run env f s path roots = finish_run env f s r ?st"
      using ne scan by (simp add: scan_run_def no_errors_def Let_def)
    with finish_run_ok [OF ok, of f s r ?st] cb False streamed_callbacks [of env f s cbs] show ?thesis
      by (simp add: cs_def identity_counts_def)
  next
    case True
    let ?v = "take_verified env s verified ?st"
    note v = verified_ok [OF ne, of env s verified, unfolded taken_def]
    then have "no_errors ?v" by blast
    then have "scan_run env f s path roots = finish_run env f s (r\<lparr>rp_Certificates := verified\<rparr>) ?v"
      using ne scan True verified [OF True] by (simp add: scan_run_def verify_run_def verified_as_def no_errors_def Let_def)
    moreover have "final_exit f (r\<lparr>rp_Certificates := verified\<rparr>) b = final_exit f r b" for b
      by (simp add: final_exit_def)
    ultimately show ?thesis
      using finish_run_ok [OF ok, of f s "r\<lparr>rp_Certificates := verified\<rparr>" ?v] v cb True streamed_callbacks [of env f s cbs]
      by (simp add: cs_def identity_counts_def streamed_certificates)
  qed
qed

text \<open>
  C7: the exit status of a scan that runs: an error of the scan comes first unless errors are
  ignored, then a selected certificate that expires within the monitored time, else success.
  What is shown one by one are the selected certificates in the order they were found, or, with
  verification, in the order of the report; and the summary counts exactly these.
\<close>

theorem run_status:
  assumes "writes_succeed env" and "fl_args f = [path]" and "\<not> fl_version f"
    and "check_options (ru_lib env) f = Inr s" and "roots_loaded env f roots"
    and "ru_Scan env path (scan_options f s) = (cbs, Inr r)"
    and "fl_verify f \<longrightarrow> verified_as env f s roots (rp_Certificates r) verified"
  shows "let out = run env (Flags f); cs = (if fl_verify f then rp_Certificates r else callback_certificates cbs) in
    rr_exit out = (if rp_Errors r \<noteq> [] \<and> \<not> fl_ignoreErrors f then 1
      else if \<exists>c\<in>set cs. matches env s c \<and> expires env s c then 3 else 0) \<and>
    map cert_SHA256Fingerprint (shown_certificates (rr_shown out)) = map cert_SHA256Fingerprint (streamed env s cs) \<and>
    rr_summary out = Some (summarizeCertificateIdentities (identity_counts (filter (matches env s) cs)))"
proof -
  have out: "run env (Flags f) = scan_run env f s path roots"
    using assms(2-5) by (auto simp: run_def roots_loaded_def)
  note ok = scan_run_ok [OF assms(1,6), of roots verified]
  show ?thesis
  proof (cases "fl_verify f")
    case True
    then obtain q where q: "verified = map (verify_one (ru_verifyLib env) q) (rp_Certificates r)"
      using assms(7) verified_map unfolding verified_as_def by blast
    have "identity_counts (map (verify_one lib q) cs) = identity_counts cs" for lib cs
      by (simp add: identity_counts_def fold_map comp_def verify_one_same)
    with ok assms(7) True q show ?thesis
      unfolding out Let_def by (auto simp: final_exit_def exits streamed_def filter_verified verify_one_same comp_def)
  next
    case False
    with ok show ?thesis unfolding out Let_def by (auto simp: final_exit_def exits)
  qed
qed

section \<open>Monitoring\<close>

text \<open>The state without the mark of an operational finding, and the operations on it.\<close>

definition unmarked :: "run_state \<Rightarrow> run_state" where
  "unmarked st = st\<lparr>rs_finding := False\<rparr>"

definition monitored :: "settings \<Rightarrow> 64 word \<Rightarrow> bool \<Rightarrow> settings" where
  "monitored s duration given = s\<lparr>se_failExpiration := duration, se_hasFailExpiration := given\<rparr>"

lemma monitored_matches [simp]: "matches env (monitored s d g) = matches env s"
  by (rule ext) (simp add: monitored_def matches_def)

lemma monitored_simps [simp]:
  "se_format (monitored s d g) = se_format s" "se_identity (monitored s d g) = se_identity s"
  "se_hostname (monitored s d g) = se_hostname s"
  "grouped_output (monitored s d g) = grouped_output s"
  "scan_options f (monitored s d g) = scan_options f s" "show_finding (monitored s d g) = show_finding s"
  "filtered_certificates env (monitored s d g) r = filtered_certificates env s r"
  "output_groups (monitored s d g) cs = output_groups s cs"
proof -
  have same: "se_format (monitored s d g) = se_format s" "se_identity (monitored s d g) = se_identity s"
    "se_hostname (monitored s d g) = se_hostname s"
    by (simp_all add: monitored_def)
  then show "se_format (monitored s d g) = se_format s" "se_identity (monitored s d g) = se_identity s"
    "se_hostname (monitored s d g) = se_hostname s"
    "grouped_output (monitored s d g) = grouped_output s"
    "scan_options f (monitored s d g) = scan_options f s" "show_finding (monitored s d g) = show_finding s"
    "filtered_certificates env (monitored s d g) r = filtered_certificates env s r"
    "output_groups (monitored s d g) cs = output_groups s cs"
    by (simp_all add: grouped_output_def scan_options_def show_finding_def fun_eq_iff
        filtered_certificates_def output_groups_def)
qed

lemma unmarked_simps [simp]:
  "rs_outputErr (unmarked st) = rs_outputErr st" "rs_shown (unmarked st) = rs_shown st"
  "rs_counts (unmarked st) = rs_counts st"
  by (simp_all add: unmarked_def)

lemma unmarked_show: "unmarked (show_finding s item st) = show_finding s item (unmarked st)"
  by (simp add: show_finding_def unmarked_def Let_def split: output_format.split)

lemma unmarked_take:
  assumes "unmarked st = unmarked st'"
  shows "unmarked (take_certificate env (monitored s d g) c st) = unmarked (take_certificate env s c st')"
proof -
  have counts: "unmarked (st\<lparr>rs_counts := n\<rparr>) = (unmarked st)\<lparr>rs_counts := n\<rparr>"
    "unmarked (st\<lparr>rs_counts := n, rs_finding := b\<rparr>) = (unmarked st)\<lparr>rs_counts := n\<rparr>" for st n b
    by (simp_all add: unmarked_def)
  have "rs_counts st = rs_counts st'" using assms unmarked_simps(3) by metis
  with assms show ?thesis by (simp add: take_certificate_def Let_def unmarked_show counts)
qed

lemma same_outputErr: "unmarked st = unmarked st' \<Longrightarrow> rs_outputErr st = rs_outputErr st'"
  by (metis unmarked_simps(1))

lemma unmarked_callback:
  assumes "unmarked st = unmarked st'"
  shows "unmarked (on_callback env f (monitored s d g) cb st) = unmarked (on_callback env f s cb st')"
  using assms same_outputErr [OF assms]
  by (cases cb) (simp_all add: on_certificate_def on_encrypted_def unmarked_take unmarked_show)

lemma unmarked_callbacks:
  "unmarked st = unmarked st' \<Longrightarrow>
   unmarked (fold (on_callback env f (monitored s d g)) cbs st) = unmarked (fold (on_callback env f s) cbs st')"
  by (induction cbs arbitrary: st st') (simp_all add: unmarked_callback)

lemma unmarked_verified:
  "unmarked st = unmarked st' \<Longrightarrow>
   unmarked (take_verified env (monitored s d g) cs st) = unmarked (take_verified env s cs st')"
proof (induction cs arbitrary: st st')
  case (Cons c cs)
  note take = unmarked_take [OF Cons.prems, of env s d g c]
  show ?case
    using Cons take same_outputErr [OF take] by (simp add: Let_def)
qed simp

text \<open>Two results that differ at most in whether there was an operational finding.\<close>

definition same_output :: "run_result \<Rightarrow> run_result \<Rightarrow> bool" where
  "same_output a b \<longleftrightarrow> rr_shown a = rr_shown b \<and> rr_json a = rr_json b \<and> rr_summary a = rr_summary b \<and>
     rr_warnings a = rr_warnings b \<and> (rr_exit a = rr_exit b \<or> {rr_exit a, rr_exit b} = {exitSuccess, exitOperationalFinding})"

lemma finish_monitored:
  assumes "unmarked st = unmarked st'"
  shows "same_output (finish_run env f (monitored s d g) r st) (finish_run env f s r st')"
proof -
  have "rs_shown st = rs_shown st'" "rs_counts st = rs_counts st'"
    using assms unmarked_simps(2,3) by metis+
  then show ?thesis by (auto simp: finish_run_def same_output_def final_exit_def exits Let_def)
qed

lemma same_output_refl: "same_output a a"
  by (simp add: same_output_def)

text \<open>
  C24: monitoring for expired or expiring certificates does not hide or add anything: with any
  monitored time, and without one, a run shows the same findings, writes the same JSON, counts
  the same identities and warns of the same errors; only its status can change, between success
  and an operational finding.
\<close>

theorem monitoring_keeps_output:
  "same_output (scan_run env f (monitored s duration given) path roots) (scan_run env f s path roots)"
proof -
  obtain cbs result where scan: "ru_Scan env path (scan_options f s) = (cbs, result)" by (rule prod.exhaust)
  let ?a = "fold (on_callback env f (monitored s duration given)) cbs (start_run env)"
  let ?b = "fold (on_callback env f s) cbs (start_run env)"
  have ab: "unmarked ?a = unmarked ?b" by (rule unmarked_callbacks) simp
  have shown: "rs_shown st = rs_shown st'" if "unmarked st = unmarked st'" for st st'
    using that unmarked_simps(2) by metis
  have v: "unmarked (take_verified env (monitored s duration given) cs ?a) = unmarked (take_verified env s cs ?b)" for cs
    by (rule unmarked_verified [OF ab])
  have "same_output (verify_run env f (monitored s duration given) roots r ?a) (verify_run env f s roots r ?b)" for r
    using shown [OF ab] shown [OF v] same_outputErr [OF v] finish_monitored [OF v]
    by (auto simp: verify_run_def Let_def same_output_refl split: sum.split)
  then show ?thesis
    using scan shown [OF ab] same_outputErr [OF ab] finish_monitored [OF ab]
    by (auto simp: scan_run_def Let_def same_output_refl split: sum.split)
qed

section \<open>A sample\<close>

text \<open>A run that looks for a server certificate of one file, which has expired.\<close>

definition sample_flags :: cli_flags where
  "sample_flags = \<lparr>fl_excludes = [], fl_extensions = [], fl_roots = [], fl_maxBytes = 65536, fl_workers = 4,
     fl_oneFileSystem = False, fl_followSymlinks = False, fl_archives = False, fl_archiveMaxBytes = DefaultArchiveMaxBytes,
     fl_archiveMaxEntries = DefaultArchiveMaxEntries, fl_archiveMaxDepth = 3, fl_ignoreErrors = False, fl_usage = [],
     fl_hostname = [], fl_expired = False, fl_expiration = [], fl_failExpired = True, fl_failExpiring = [],
     fl_verify = False, fl_rootsOnly = False, fl_unique = False, fl_duplicates = False, fl_json = False,
     fl_jsonl = True, fl_quiet = True, fl_version = False, fl_args = [''/r''], fl_provided = [''jsonl'', ''fail-expired'']\<rparr>"

definition sample_settings :: settings where
  "sample_settings = \<lparr>se_usage = [], se_hostname = [], se_expiration = 0, se_hasExpiration = False,
     se_failExpiration = 0, se_hasFailExpiration = True, se_identity = IdentityAll, se_format = OutputJSONL\<rparr>"

definition sample_run_env :: run_env where
  "sample_run_env = \<lparr>ru_lib = sample_cli_lib, ru_verifyLib = sample_verify_lib,
     ru_text = \<lparr>strconv_Quote = id, time_RFC3339 = (\<lambda>_. ''1970'')\<rparr>,
     ru_Scan = (\<lambda>path opts. ([OnCertificate (sample_finding ''/r/a.pem'')], Inr empty_report)),
     ru_now = 100, ru_later = 101, ru_versionErr = None, ru_encodeErrors = [None, None], ru_displayErr = None,
     ru_jsonErr = None\<rparr>"

lemma run_status_witness:
  "rr_exit (run sample_run_env (Flags sample_flags)) = 3 \<and>
   shown_certificates (rr_shown (run sample_run_env (Flags sample_flags))) \<noteq> []"
proof -
  have check: "check_options (ru_lib sample_run_env) sample_flags = Inr sample_settings"
    unfolding sample_run_env_def run_env.select_convs by code_simp
  have env: "writes_succeed sample_run_env" "roots_loaded sample_run_env sample_flags []"
    "ru_Scan sample_run_env ''/r'' (scan_options sample_flags sample_settings) =
      ([OnCertificate (sample_finding ''/r/a.pem'')], Inr empty_report)"
    by (simp_all add: writes_succeed_def sample_run_env_def roots_loaded_def sample_flags_def)
  have flags: "fl_args sample_flags = [''/r'']" "\<not> fl_version sample_flags" "\<not> fl_verify sample_flags"
    by (simp_all add: sample_flags_def)
  have m: "matches sample_run_env sample_settings (sample_finding ''/r/a.pem'')"
    "expires sample_run_env sample_settings (sample_finding ''/r/a.pem'')"
    by (simp_all add: matches_def certificateMatches_def expires_def certificateExpiresWithin_def sample_settings_def
        sample_run_env_def sample_finding_def)
  have "\<not> grouped_output sample_settings" "streams sample_settings"
    by (simp_all add: grouped_output_def streams_def sample_settings_def)
  with run_status [OF env(1) flags(1,2) check env(2,3)] flags(3) m
  have run: "rr_exit (run sample_run_env (Flags sample_flags)) = 3"
    "map cert_SHA256Fingerprint (shown_certificates (rr_shown (run sample_run_env (Flags sample_flags)))) =
       [cert_SHA256Fingerprint (sample_finding ''/r/a.pem'')]"
    by (simp_all add: empty_report_def streamed_def Let_def)
  from run(2) have "shown_certificates (rr_shown (run sample_run_env (Flags sample_flags))) \<noteq> []"
    by (metis list.simps(8) list.distinct(1))
  with run(1) show ?thesis by simp
qed

end
