(* ===== verification/Progress.thy ===== *)
theory Progress
  imports Output Pipeline
begin

text \<open>
  The display of the command (progress.go) with the build information it prints
  (buildinfo.go), and the snapshots the scan sends it (\<^verbatim>\<open>notifyProgress\<close>, scanner.go). The methods
  of the display hold its lock while they run, so each is one step here; the writers are those of the
  output. Absolute paths and the elapsed time come from outside.
\<close>

section \<open>Build information\<close>

record build_info =
  bi_version :: string
  bi_commit :: string
  bi_built :: string

definition unset_build :: build_info where
  "unset_build = \<lparr>bi_version = ''dev'', bi_commit = ''unknown'', bi_built = ''unknown''\<rparr>"

definition buildinfo_Version :: "build_info \<Rightarrow> string" where
  "buildinfo_Version b = bi_version b"

definition buildinfo_String :: "build_info \<Rightarrow> string" where
  "buildinfo_String b =
     ''certfinder '' @ bi_version b @ '' (commit '' @ bi_commit b @ '', built '' @ bi_built b @ '')''"

section \<open>Snapshots of the counters\<close>

text \<open>
  The fields are loaded one after the other: the argument tells the counters at the time of each
  load. Without a callback nothing is loaded.
\<close>

definition snapshot :: "(nat \<Rightarrow> progress_counters) \<Rightarrow> progress_counters" where
  "snapshot at =
     \<lparr>pc_filesDiscovered = pc_filesDiscovered (at 0), pc_filesScanned = pc_filesScanned (at 1),
      pc_filesCapped = pc_filesCapped (at 2), pc_archiveEntriesDiscovered = pc_archiveEntriesDiscovered (at 3),
      pc_archiveEntriesScanned = pc_archiveEntriesScanned (at 4), pc_archiveEntriesCapped = pc_archiveEntriesCapped (at 5),
      pc_certificatesFound = pc_certificatesFound (at 6), pc_pkcs12Encrypted = pc_pkcs12Encrypted (at 7),
      pc_scanErrors = pc_scanErrors (at 8), pc_discoveryComplete = pc_discoveryComplete (at 9)\<rparr>"

definition notifyProgress :: "bool \<Rightarrow> (nat \<Rightarrow> progress_counters) \<Rightarrow> progress_counters list" where
  "notifyProgress callback at = (if callback then [snapshot at] else [])"

section \<open>The display\<close>

record scan_configuration =
  sc_Path :: string
  sc_Workers :: int
  sc_MaxBytes :: int
  sc_Exclude :: "string list"
  sc_Extensions :: "string list"
  sc_OneFileSystem :: bool
  sc_FollowSymlinks :: bool
  sc_Archives :: bool
  sc_ArchiveMaxBytes :: int
  sc_ArchiveMaxEntries :: int
  sc_ArchiveMaxDepth :: int
  sc_IgnoreErrors :: bool
  sc_Usage :: string
  sc_Hostname :: string
  sc_Expiration :: string
  sc_FailExpiring :: string
  sc_Verify :: bool
  sc_Roots :: "string list"
  sc_RootsOnly :: bool
  sc_IdentityMode :: string
  sc_Output :: string
  sc_Quiet :: bool

record progress_display =
  pd_progressOutput :: writer
  pd_certificateOutput :: writer
  pd_showResults :: bool
  pd_quiet :: bool
  pd_terminal :: bool
  pd_progress :: progress_counters
  pd_identitySummary :: "identity_summary option"
  pd_stopped :: bool
  pd_writeErr :: "go_error option"

text \<open>What a writer is: a file whose mode can be asked for, or something else.\<close>

datatype output_kind = OutputFile "bool go_result" | OutputOther

fun isTerminal :: "output_kind \<Rightarrow> bool" where
  "isTerminal (OutputFile (Inr charDevice)) = charDevice"
| "isTerminal (OutputFile (Inl err)) = False"
| "isTerminal OutputOther = False"

definition newProgressDisplay ::
  "output_kind \<Rightarrow> writer \<Rightarrow> writer \<Rightarrow> bool \<Rightarrow> bool \<Rightarrow> progress_display" where
  "newProgressDisplay kind progressOutput certificateOutput showResults quiet =
     \<lparr>pd_progressOutput = progressOutput, pd_certificateOutput = certificateOutput, pd_showResults = showResults,
      pd_quiet = quiet, pd_terminal = isTerminal kind, pd_progress = zero_counters, pd_identitySummary = None,
      pd_stopped = False, pd_writeErr = None\<rparr>"

definition plural :: "int \<Rightarrow> string \<Rightarrow> string \<Rightarrow> string" where
  "plural n singular multiple = (if n = 1 then singular else multiple)"

definition show_bool :: "bool \<Rightarrow> string" where
  "show_bool b = (if b then ''true'' else ''false'')"

definition counted_noun :: "int \<Rightarrow> string \<Rightarrow> string \<Rightarrow> string" where
  "counted_noun n singular multiple = itoa n @ '' '' @ plural n singular multiple"

definition formatOptionList :: "string list \<Rightarrow> string \<Rightarrow> string" where
  "formatOptionList values unset = (if values = [] then unset else strings_Join values '','')"

definition writeProgress :: "string \<Rightarrow> progress_display \<Rightarrow> progress_display" where
  "writeProgress line d =
     (if pd_writeErr d \<noteq> None then d
      else (case Fprint line (pd_progressOutput d) of
          (err, w) \<Rightarrow> d\<lparr>pd_progressOutput := w, pd_writeErr := err\<rparr>))"

definition clear_line :: string where
  "clear_line = [CHR 0x0D, CHR 0x1B] @ ''[2K''"

definition clearStatusLocked :: "progress_display \<Rightarrow> progress_display" where
  "clearStatusLocked d = writeProgress clear_line d"

definition encrypted_contents :: "int \<Rightarrow> string" where
  "encrypted_contents n = itoa n @ '' encrypted PKCS#12 '' @ plural n ''content'' ''contents''"

definition status_text :: "progress_counters \<Rightarrow> string" where
  "status_text p =
     (let pending = max (pc_filesDiscovered p - pc_filesScanned p) 0;
          discovery = (if pc_discoveryComplete p then ''discovery complete'' else ''discovering files...'');
          status = ''Scanning: '' @ itoa (pc_filesScanned p) @ ''/'' @ itoa (pc_filesDiscovered p) @ '' files scanned; '' @
            itoa pending @ '' pending; '' @ itoa (pc_archiveEntriesScanned p) @ ''/'' @
            itoa (pc_archiveEntriesDiscovered p) @ '' archive entries scanned; '' @
            counted_noun (pc_certificatesFound p) ''certificate'' ''certificates'' @ '' found; '' @ discovery
      in status @ (if pc_pkcs12Encrypted p > 0 then ''; '' @ encrypted_contents (pc_pkcs12Encrypted p) else []))"

definition drawStatusLocked :: "progress_display \<Rightarrow> progress_display" where
  "drawStatusLocked d =
     (let d = (if pd_terminal d then clearStatusLocked d else d)
      in if pd_terminal d then writeProgress (status_text (pd_progress d)) d
         else writeProgress (println (status_text (pd_progress d))) d)"

section \<open>Its methods\<close>

definition start_lines :: "build_info \<Rightarrow> (string \<Rightarrow> string go_result) \<Rightarrow> scan_configuration \<Rightarrow> string list" where
  "start_lines b filepathAbs c =
     (let path = (case filepathAbs (sc_Path c) of Inr absolute \<Rightarrow> absolute | Inl err \<Rightarrow> sc_Path c)
      in [println (''certfinder '' @ buildinfo_Version b),
          println (''Scan path: '' @ path),
          println (''Workers: '' @ itoa (sc_Workers c)),
          println (''Options: max-bytes='' @ (if sc_MaxBytes c = 0 then ''unlimited'' else itoa (sc_MaxBytes c)) @
            '' usage='' @ or_default (sc_Usage c) ''all'' @ '' hostname='' @ or_default (sc_Hostname c) ''none'' @
            '' expiration='' @ or_default (sc_Expiration c) ''none'' @
            '' fail-expiring='' @ or_default (sc_FailExpiring c) ''none'' @
            '' identity='' @ or_default (sc_IdentityMode c) ''all'' @ '' output='' @ or_default (sc_Output c) ''text'' @
            '' quiet='' @ show_bool (sc_Quiet c)),
          println (''Traversal: exclude='' @ formatOptionList (sc_Exclude c) ''none'' @
            '' extensions='' @ formatOptionList (sc_Extensions c) ''all'' @
            '' one-file-system='' @ show_bool (sc_OneFileSystem c) @
            '' follow-symlinks='' @ show_bool (sc_FollowSymlinks c) @
            '' ignore-errors='' @ show_bool (sc_IgnoreErrors c)),
          println (''Verification: enabled='' @ show_bool (sc_Verify c) @
            '' roots='' @ formatOptionList (sc_Roots c) ''none'' @ '' roots-only='' @ show_bool (sc_RootsOnly c)),
          println (''Archives: enabled='' @ show_bool (sc_Archives c) @ '' max-bytes='' @ itoa (sc_ArchiveMaxBytes c) @
            '' max-entries='' @ itoa (sc_ArchiveMaxEntries c) @ '' max-depth='' @ itoa (sc_ArchiveMaxDepth c)),
          newline])"

definition Start ::
  "build_info \<Rightarrow> (string \<Rightarrow> string go_result) \<Rightarrow> scan_configuration \<Rightarrow> progress_display \<Rightarrow> progress_display" where
  "Start b filepathAbs c d =
     (if pd_quiet d then d else drawStatusLocked (fold writeProgress (start_lines b filepathAbs c) d))"

definition merge_progress :: "progress_counters \<Rightarrow> progress_counters \<Rightarrow> progress_counters" where
  "merge_progress p q =
     \<lparr>pc_filesDiscovered = max (pc_filesDiscovered p) (pc_filesDiscovered q),
      pc_filesScanned = max (pc_filesScanned p) (pc_filesScanned q),
      pc_filesCapped = max (pc_filesCapped p) (pc_filesCapped q),
      pc_archiveEntriesDiscovered = max (pc_archiveEntriesDiscovered p) (pc_archiveEntriesDiscovered q),
      pc_archiveEntriesScanned = max (pc_archiveEntriesScanned p) (pc_archiveEntriesScanned q),
      pc_archiveEntriesCapped = max (pc_archiveEntriesCapped p) (pc_archiveEntriesCapped q),
      pc_certificatesFound = max (pc_certificatesFound p) (pc_certificatesFound q),
      pc_pkcs12Encrypted = max (pc_pkcs12Encrypted p) (pc_pkcs12Encrypted q),
      pc_scanErrors = max (pc_scanErrors p) (pc_scanErrors q),
      pc_discoveryComplete = (pc_discoveryComplete p \<or> pc_discoveryComplete q)\<rparr>"

definition Update :: "progress_counters \<Rightarrow> progress_display \<Rightarrow> progress_display" where
  "Update p d = (if pd_stopped d then d else d\<lparr>pd_progress := merge_progress (pd_progress d) p\<rparr>)"

definition writeResult :: "(writer \<Rightarrow> go_error option \<times> writer) \<Rightarrow> progress_display \<Rightarrow> progress_display" where
  "writeResult printResult d =
     (if pd_stopped d \<or> \<not> pd_showResults d then d
      else
        let d = (if \<not> pd_quiet d \<and> pd_terminal d then clearStatusLocked d else d);
            d = (if pd_writeErr d = None
              then (case printResult (pd_certificateOutput d) of
                  (err, w) \<Rightarrow> d\<lparr>pd_certificateOutput := w, pd_writeErr := err\<rparr>)
              else d)
        in if \<not> pd_quiet d then drawStatusLocked (writeProgress newline d) else d)"

definition Certificate :: "text_lib \<Rightarrow> certificate \<Rightarrow> go_time \<Rightarrow> progress_display \<Rightarrow> progress_display" where
  "Certificate lib c now = writeResult (printCertificateAt lib c now)"

definition CertificateGroup :: "text_lib \<Rightarrow> certificate_group \<Rightarrow> go_time \<Rightarrow> progress_display \<Rightarrow> progress_display" where
  "CertificateGroup lib g now = writeResult (printCertificateGroupAt lib g now)"

definition PKCS12Encrypted :: "pkcs12_encrypted_content \<Rightarrow> progress_display \<Rightarrow> progress_display" where
  "PKCS12Encrypted f = writeResult (printPKCS12EncryptedContent f)"

definition SetIdentitySummary :: "identity_summary \<Rightarrow> progress_display \<Rightarrow> progress_display" where
  "SetIdentitySummary s d = d\<lparr>pd_identitySummary := Some s\<rparr>"

definition summary_text :: "bool \<Rightarrow> string \<Rightarrow> identity_summary option \<Rightarrow> progress_counters \<Rightarrow> string" where
  "summary_text completed elapsed identity p =
     (if completed then ''Scan complete'' else ''Scan stopped'') @ '': '' @
     counted_noun (pc_filesScanned p) ''file'' ''files'' @ '' scanned, '' @ itoa (pc_filesCapped p) @
     '' stopped at max-bytes; '' @ itoa (pc_archiveEntriesScanned p) @ '' archive '' @
     plural (pc_archiveEntriesScanned p) ''entry'' ''entries'' @ '' scanned, '' @ itoa (pc_archiveEntriesCapped p) @
     '' stopped at max-bytes; '' @ counted_noun (pc_certificatesFound p) ''certificate'' ''certificates'' @ '' found;'' @
     (case identity of None \<Rightarrow> []
      | Some s \<Rightarrow> '' '' @ counted_noun (id_Matched s) ''certificate'' ''certificates'' @ '' matched; '' @
          itoa (id_Unique s) @ '' unique '' @ plural (id_Unique s) ''certificate'' ''certificates'' @ ''; '' @
          itoa (id_DuplicateOccurrences s) @ '' duplicate '' @
          plural (id_DuplicateOccurrences s) ''occurrence'' ''occurrences'' @ '';'') @
     (if pc_pkcs12Encrypted p > 0 then '' '' @ encrypted_contents (pc_pkcs12Encrypted p) @ '';'' else []) @
     '' '' @ counted_noun (pc_scanErrors p) ''error'' ''errors'' @ ''; elapsed '' @ elapsed"

text \<open>
  \<^verbatim>\<open>Stop\<close> marks the display, lets the refresh loop end without the lock, and then prints the
  summary: two steps, between which a tick of the loop can come.
\<close>

definition stop_mark :: "progress_display \<Rightarrow> progress_display" where
  "stop_mark d = d\<lparr>pd_stopped := True\<rparr>"

definition stop_print :: "bool \<Rightarrow> string \<Rightarrow> progress_display \<Rightarrow> progress_display" where
  "stop_print completed elapsed d =
     (if pd_quiet d then d
      else
        let d = (if pd_terminal d then clearStatusLocked d else d)
        in writeProgress (println (summary_text completed elapsed (pd_identitySummary d) (pd_progress d))) d)"

definition Stop :: "bool \<Rightarrow> string \<Rightarrow> progress_display \<Rightarrow> progress_display" where
  "Stop completed elapsed d =
     (if pd_stopped d then d else stop_print completed elapsed (stop_mark d))"

definition Err :: "progress_display \<Rightarrow> go_error option" where
  "Err d = pd_writeErr d"

text \<open>
  What the refresh loop does at a tick; \<^verbatim>\<open>Start\<close> returns before it starts the loop of a quiet
  display, which therefore has no ticks.
\<close>

definition refresh_tick :: "progress_display \<Rightarrow> progress_display" where
  "refresh_tick d = (if pd_quiet d \<or> pd_stopped d then d else drawStatusLocked d)"

end
