(* ===== verification/DisplayFacts.thy ===== *)
theory DisplayFacts
  imports Progress Samples
begin

text \<open>
  What the display writes, whatever order its methods are called in: all the results it was given, up
  to the first error of a writer, on the one output, and nothing on the other when it is quiet.
\<close>

section \<open>Calls\<close>

datatype display_call =
    CallUpdate progress_counters | CallCertificate certificate go_time | CallGroup certificate_group go_time
  | CallEncrypted pkcs12_encrypted_content | CallSummary identity_summary | CallStop bool string | CallTick

fun perform :: "text_lib \<Rightarrow> display_call \<Rightarrow> progress_display \<Rightarrow> progress_display" where
  "perform lib (CallUpdate p) = Update p"
| "perform lib (CallCertificate c now) = Certificate lib c now"
| "perform lib (CallGroup g now) = CertificateGroup lib g now"
| "perform lib (CallEncrypted f) = PKCS12Encrypted f"
| "perform lib (CallSummary s) = SetIdentitySummary s"
| "perform lib (CallStop completed elapsed) = Stop completed elapsed"
| "perform lib CallTick = refresh_tick"

text \<open>The text of a result, in the pieces in which it is written.\<close>

definition details_chunks :: "text_lib \<Rightarrow> certificate \<Rightarrow> go_time \<Rightarrow> string list" where
  "details_chunks lib c now = map println (certificate_lines lib c now @
     (case cert_Verification c of None \<Rightarrow> [] | Some v \<Rightarrow> verification_lines v))"

fun result_chunks :: "text_lib \<Rightarrow> display_call \<Rightarrow> string list" where
  "result_chunks lib (CallCertificate c now) =
     println (formatLogicalLocation (cert_Path c) (cert_ArchiveEntries c) @ '' [index '' @ itoa (cert_Index c) @ '']'') #
     details_chunks lib c now"
| "result_chunks lib (CallGroup g now) =
     map println ([''Certificate'', ''  Locations ('' @ itoa (int (length (gr_Locations g))) @ ''):''] @
       map (\<lambda>l. ''    '' @ formatCertificateLocation lib l) (gr_Locations g)) @
     details_chunks lib ((gr_Certificate g)\<lparr>cert_Keystore := None\<rparr>) now"
| "result_chunks lib (CallEncrypted f) =
     map println
       [formatLogicalLocation (enc_Path f) (enc_ArchiveEntries f) @ '' [PKCS#12 content '' @ itoa (enc_ContentIndex f) @ '']'',
        ''  Status: encrypted; certificates are unreadable without a password'',
        ''  PBE algorithm: '' @ enc_Algorithm f @ '' ('' @ enc_AlgorithmOID f @ '')'',
        ''  Bag count: '' @ (case enc_BagCount f of None \<Rightarrow> ''unknown'' | Some n \<Rightarrow> itoa n)]"
| "result_chunks lib _ = []"

lemma print_chunks_append:
  "print_chunks (cs @ ds) w =
     (case print_chunks cs w of (Some err, w) \<Rightarrow> (Some err, w) | (None, w) \<Rightarrow> print_chunks ds w)"
  by (induction cs arbitrary: w) (auto split: prod.splits option.splits)

lemma Fprint_written:
  assumes "Fprint chunk w = (err, w')"
  shows "wr_written w' = wr_written w @ (if err = None then [chunk] else [])"
  using assms by (auto simp: Fprint_def split: option.splits)

lemma print_chunks_written:
  assumes "print_chunks cs w = (err, w')"
  obtains sent where "prefix sent cs" "wr_written w' = wr_written w @ sent" "err = None \<Longrightarrow> sent = cs"
  using assms
proof (induction cs arbitrary: w thesis)
  case (Cons c cs)
  obtain e1 w1 where p: "Fprint c w = (e1, w1)" by fastforce
  show ?case
  proof (cases e1)
    case None
    with Cons.prems(2) p have rest: "print_chunks cs w1 = (err, w')" by simp
    obtain sent where "prefix sent cs" "wr_written w' = wr_written w1 @ sent" "err = None \<Longrightarrow> sent = cs"
      by (rule Cons.IH [OF _ rest]) auto
    with Fprint_written [OF p] None show ?thesis by (intro Cons.prems(1) [of "c # sent"]) auto
  next
    case (Some e)
    with Cons.prems(2) p Fprint_written [OF p] show ?thesis by (intro Cons.prems(1) [of "[]"]) auto
  qed
qed simp

text \<open>A result is printed with its pieces, when the display still takes results.\<close>

definition write_chunks :: "string list \<Rightarrow> progress_display \<Rightarrow> progress_display" where
  "write_chunks cs = writeResult (print_chunks cs)"

lemma printed_in_chunks:
  "Certificate lib c now = write_chunks (result_chunks lib (CallCertificate c now))"
  "CertificateGroup lib g now = write_chunks (result_chunks lib (CallGroup g now))"
  "PKCS12Encrypted f = write_chunks (result_chunks lib (CallEncrypted f))"
proof -
  have "printCertificateAt lib c now = print_chunks (result_chunks lib (CallCertificate c now))"
    unfolding printCertificateAt_def printCertificateDetailsAt_def details_chunks_def result_chunks.simps
    by (rule ext) (simp only: print_chunks.simps)
  then show "Certificate lib c now = write_chunks (result_chunks lib (CallCertificate c now))"
    by (simp only: Certificate_def write_chunks_def)
  have "printCertificateGroupAt lib g now = print_chunks (result_chunks lib (CallGroup g now))"
    by (rule ext) (simp only: printCertificateGroupAt_def printCertificateDetailsAt_def details_chunks_def
        result_chunks.simps print_chunks_append)
  then show "CertificateGroup lib g now = write_chunks (result_chunks lib (CallGroup g now))"
    by (simp only: CertificateGroup_def write_chunks_def)
  have "printPKCS12EncryptedContent f = print_chunks (result_chunks lib (CallEncrypted f))"
    by (rule ext) (simp add: printPKCS12EncryptedContent_def)
  then show "PKCS12Encrypted f = write_chunks (result_chunks lib (CallEncrypted f))"
    by (simp only: PKCS12Encrypted_def write_chunks_def)
qed

section \<open>What every method keeps\<close>

text \<open>
  A property of the display that survives a line of progress, the pieces of a result, and a change of
  what is to be shown, survives every method.
\<close>

locale display_invariant =
  fixes I :: "progress_display \<Rightarrow> bool"
  assumes line: "I d \<Longrightarrow> \<not> pd_quiet d \<Longrightarrow> I (writeProgress str d)"
    and result: "I d \<Longrightarrow> pd_showResults d \<Longrightarrow> \<not> pd_stopped d \<Longrightarrow> pd_writeErr d = None \<Longrightarrow>
      I (d\<lparr>pd_certificateOutput := snd (print_chunks cs (pd_certificateOutput d)),
           pd_writeErr := fst (print_chunks cs (pd_certificateOutput d))\<rparr>)"
    and shown_progress: "I d \<Longrightarrow> I (d\<lparr>pd_progress := p\<rparr>)"
    and shown_summary: "I d \<Longrightarrow> I (d\<lparr>pd_identitySummary := s\<rparr>)"
    and stopping: "I d \<Longrightarrow> I (d\<lparr>pd_stopped := True\<rparr>)"

lemma writeProgress_simps [simp]:
  "pd_certificateOutput (writeProgress s d) = pd_certificateOutput d"
  "pd_showResults (writeProgress s d) = pd_showResults d" "pd_quiet (writeProgress s d) = pd_quiet d"
  "pd_terminal (writeProgress s d) = pd_terminal d" "pd_progress (writeProgress s d) = pd_progress d"
  "pd_identitySummary (writeProgress s d) = pd_identitySummary d" "pd_stopped (writeProgress s d) = pd_stopped d"
  by (simp_all add: writeProgress_def split: prod.splits)

lemma writeProgress_err: "pd_writeErr (writeProgress s d) = None \<Longrightarrow> pd_writeErr d = None"
  by (simp add: writeProgress_def split: if_splits)

lemma drawn_simps [simp]:
  "pd_certificateOutput (drawStatusLocked d) = pd_certificateOutput d"
  "pd_showResults (drawStatusLocked d) = pd_showResults d" "pd_quiet (drawStatusLocked d) = pd_quiet d"
  "pd_terminal (drawStatusLocked d) = pd_terminal d" "pd_progress (drawStatusLocked d) = pd_progress d"
  "pd_identitySummary (drawStatusLocked d) = pd_identitySummary d" "pd_stopped (drawStatusLocked d) = pd_stopped d"
  by (simp_all add: drawStatusLocked_def clearStatusLocked_def Let_def)

lemma drawn_err: "pd_writeErr (drawStatusLocked d) = None \<Longrightarrow> pd_writeErr d = None"
  by (auto simp: drawStatusLocked_def clearStatusLocked_def Let_def dest: writeProgress_err split: if_splits)

context display_invariant
begin

lemma drawn: "I d \<Longrightarrow> \<not> pd_quiet d \<Longrightarrow> I (drawStatusLocked d)"
  by (simp add: drawStatusLocked_def clearStatusLocked_def Let_def line)

lemma chunks: "I d \<Longrightarrow> I (write_chunks cs d)"
  by (simp add: write_chunks_def writeResult_def Let_def clearStatusLocked_def case_prod_beta drawn line result)

lemma started: "I d \<Longrightarrow> I (Start b filepathAbs c d)"
proof -
  have "I (fold writeProgress ls d) \<and> pd_quiet (fold writeProgress ls d) = pd_quiet d" if "I d" "\<not> pd_quiet d" for ls d
    using that by (induction ls arbitrary: d) (simp_all add: line)
  then show "I d \<Longrightarrow> I (Start b filepathAbs c d)" by (auto simp: Start_def intro: drawn)
qed

lemma performed: "I d \<Longrightarrow> I (perform lib call d)"
proof (cases call)
  case (CallStop completed elapsed)
  assume "I d"
  then show ?thesis
    by (simp add: CallStop Stop_def stop_print_def stop_mark_def clearStatusLocked_def Let_def line stopping)
qed (simp_all add: printed_in_chunks [where lib = lib] chunks Update_def shown_progress SetIdentitySummary_def shown_summary
    refresh_tick_def drawn)

lemma all_performed: "I d \<Longrightarrow> I (fold (perform lib) calls d)"
  by (induction calls arbitrary: d) (simp_all add: performed)

end
lemma started_same:
  "pd_certificateOutput (Start b filepathAbs c d) = pd_certificateOutput d"
  "pd_showResults (Start b filepathAbs c d) = pd_showResults d" "pd_stopped (Start b filepathAbs c d) = pd_stopped d"
proof -
  have "pd_certificateOutput (fold writeProgress ls d) = pd_certificateOutput d \<and>
    pd_showResults (fold writeProgress ls d) = pd_showResults d \<and> pd_stopped (fold writeProgress ls d) = pd_stopped d" for ls
    by (induction ls arbitrary: d) simp_all
  then show "pd_certificateOutput (Start b filepathAbs c d) = pd_certificateOutput d"
    "pd_showResults (Start b filepathAbs c d) = pd_showResults d" "pd_stopped (Start b filepathAbs c d) = pd_stopped d"
    by (simp_all add: Start_def)
qed

text \<open>A quiet display writes nothing on the output of the progress.\<close>

interpretation quiet: display_invariant "\<lambda>d. pd_quiet d = q \<and> (q \<longrightarrow> pd_progressOutput d = w)" for q w
  by unfold_locales (auto simp: writeProgress_def split: prod.splits)

text \<open>A display that shows no results leaves the output of the results alone.\<close>

interpretation unshown: display_invariant "\<lambda>d. \<not> pd_showResults d \<and> pd_certificateOutput d = w" for w
  by unfold_locales auto

text \<open>The first error of a writer is kept, and nothing is written after it.\<close>

interpretation failed: display_invariant
  "\<lambda>d. pd_writeErr d = Some e \<and> pd_certificateOutput d = w \<and> pd_progressOutput d = v" for e w v
  by unfold_locales (auto simp: writeProgress_def)

text \<open>Writers that have no errors to come give none.\<close>

lemma print_chunks_sound: "wr_errors w = [] \<Longrightarrow> \<exists>w'. print_chunks cs w = (None, w') \<and> wr_errors w' = []"
  by (induction cs arbitrary: w) (simp_all add: Fprint_def next_error_def)

interpretation sound: display_invariant
  "\<lambda>d. pd_writeErr d = None \<and> wr_errors (pd_progressOutput d) = [] \<and> wr_errors (pd_certificateOutput d) = []"
proof (unfold_locales, goal_cases)
  case (2 d cs)
  then show ?case using print_chunks_sound [of "pd_certificateOutput d" cs] by auto
qed (auto simp: writeProgress_def Fprint_def next_error_def)

lemma error_final:
  assumes "Err d = Some e"
  shows "Err (fold (perform lib) calls d) = Some e"
    and "pd_certificateOutput (fold (perform lib) calls d) = pd_certificateOutput d"
    and "pd_progressOutput (fold (perform lib) calls d) = pd_progressOutput d"
  using failed.all_performed [of d e "pd_certificateOutput d" "pd_progressOutput d" lib calls] assms
  by (simp_all add: Err_def)

section \<open>The results\<close>

text \<open>What the output of the results holds, for the pieces it was given.\<close>

definition holds_results :: "string list \<Rightarrow> progress_display \<Rightarrow> bool" where
  "holds_results pieces d \<longleftrightarrow>
     (if Err d = None then wr_written (pd_certificateOutput d) = pieces
      else prefix (wr_written (pd_certificateOutput d)) pieces)"

lemma holds_line: "holds_results pieces d \<Longrightarrow> holds_results pieces (writeProgress str d)"
  by (auto simp: holds_results_def Err_def dest: writeProgress_err split: if_splits)

lemma holds_drawn: "holds_results pieces d \<Longrightarrow> holds_results pieces (drawStatusLocked d)"
  by (auto simp: holds_results_def Err_def dest: drawn_err split: if_splits)

lemma holds_same:
  "pd_certificateOutput d' = pd_certificateOutput d \<Longrightarrow> pd_writeErr d' = pd_writeErr d \<Longrightarrow>
   holds_results pieces d' = holds_results pieces d"
  by (simp add: holds_results_def Err_def)

lemma holds_updates [simp]:
  "holds_results pieces (d\<lparr>pd_progress := p\<rparr>) = holds_results pieces d"
  "holds_results pieces (d\<lparr>pd_identitySummary := s\<rparr>) = holds_results pieces d"
  "holds_results pieces (d\<lparr>pd_stopped := b\<rparr>) = holds_results pieces d"
  by (simp_all add: holds_results_def Err_def)

lemma holds_chunks:
  assumes "holds_results pieces d" and "\<not> pd_stopped d" and "pd_showResults d"
  shows "holds_results (pieces @ cs) (write_chunks cs d)"
proof -
  let ?d1 = "if \<not> pd_quiet d \<and> pd_terminal d then clearStatusLocked d else d"
  have d1: "holds_results pieces ?d1"
    using assms(1) by (simp add: clearStatusLocked_def holds_line)
  let ?d2 = "if pd_writeErr ?d1 = None
      then (case print_chunks cs (pd_certificateOutput ?d1) of
          (err, w) \<Rightarrow> ?d1\<lparr>pd_certificateOutput := w, pd_writeErr := err\<rparr>) else ?d1"
  have "holds_results (pieces @ cs) ?d2"
  proof (cases "pd_writeErr ?d1")
    case None
    obtain err w where p: "print_chunks cs (pd_certificateOutput ?d1) = (err, w)" by fastforce
    obtain sent where "prefix sent cs" "wr_written w = wr_written (pd_certificateOutput ?d1) @ sent"
      "err = None \<Longrightarrow> sent = cs"
      using print_chunks_written [OF p] by blast
    moreover have "wr_written (pd_certificateOutput ?d1) = pieces"
      using d1 None by (simp add: holds_results_def Err_def)
    ultimately show ?thesis using None p by (auto simp: holds_results_def Err_def)
  next
    case (Some e)
    then show ?thesis using d1 by (auto simp: holds_results_def Err_def intro: prefix_prefix)
  qed
  moreover have "write_chunks cs d = (if \<not> pd_quiet ?d2 then drawStatusLocked (writeProgress newline ?d2) else ?d2)"
    using assms(2,3) by (simp add: write_chunks_def writeResult_def Let_def)
  ultimately show ?thesis by (simp add: holds_drawn holds_line)
qed

fun is_stop :: "display_call \<Rightarrow> bool" where
  "is_stop (CallStop completed elapsed) = True"
| "is_stop _ = False"

lemma stopped_same:
  assumes "pd_stopped d"
  shows "pd_stopped (perform lib call d)" and "pd_certificateOutput (perform lib call d) = pd_certificateOutput d"
    and "pd_writeErr (perform lib call d) = pd_writeErr d" and "pd_progressOutput (perform lib call d) = pd_progressOutput d"
  using assms
  by (cases call; simp add: printed_in_chunks [where lib = lib] write_chunks_def writeResult_def Update_def
      SetIdentitySummary_def Stop_def refresh_tick_def)+

lemma stopped_holds: "pd_stopped d \<Longrightarrow> holds_results pieces d \<Longrightarrow> holds_results pieces (fold (perform lib) calls d)"
  by (induction calls arbitrary: d) (simp_all add: stopped_same holds_same [OF stopped_same(2,3)])

lemma chunks_flags:
  "pd_stopped (write_chunks cs d) = pd_stopped d" "pd_showResults (write_chunks cs d) = pd_showResults d"
  by (simp_all add: write_chunks_def writeResult_def clearStatusLocked_def Let_def case_prod_beta)

lemma performed_flags:
  "pd_showResults (perform lib call d) = pd_showResults d"
  "\<not> is_stop call \<Longrightarrow> pd_stopped (perform lib call d) = pd_stopped d"
  by (cases call; simp add: printed_in_chunks [where lib = lib] chunks_flags Update_def SetIdentitySummary_def
      Stop_def stop_print_def stop_mark_def clearStatusLocked_def refresh_tick_def Let_def)+

lemma performed_holds:
  assumes "holds_results pieces d" and "\<not> pd_stopped d" and "pd_showResults d"
  shows "holds_results (pieces @ result_chunks lib call) (perform lib call d)"
proof (cases call)
  case (CallStop completed elapsed)
  with assms show ?thesis
    by (simp add: Stop_def stop_print_def stop_mark_def clearStatusLocked_def Let_def holds_line)
qed (use assms in \<open>simp_all add: printed_in_chunks [where lib = lib] holds_chunks Update_def SetIdentitySummary_def
    refresh_tick_def holds_drawn del: result_chunks.simps(1-3)\<close>)

lemma all_performed_holds:
  assumes "holds_results pieces d" and "\<not> pd_stopped d" and "pd_showResults d"
  shows "holds_results (pieces @ concat (map (result_chunks lib) (takeWhile (\<lambda>c. \<not> is_stop c) calls)))
    (fold (perform lib) calls d)"
  using assms
proof (induction calls arbitrary: pieces d)
  case (Cons call calls)
  note one = performed_holds [OF Cons.prems, of lib call]
  show ?case
  proof (cases "is_stop call")
    case True
    then obtain completed elapsed where call: "call = CallStop completed elapsed" by (cases call) auto
    with Cons.prems(2) have "pd_stopped (perform lib call d)"
      by (simp add: Stop_def stop_print_def stop_mark_def clearStatusLocked_def Let_def)
    with one call show ?thesis by (simp add: stopped_holds)
  next
    case False
    with Cons.IH [OF one] Cons.prems show ?thesis by (simp add: performed_flags)
  qed
qed simp

lemma started_display_holds:
  assumes "showResults"
  shows "holds_results (wr_written cw @ concat (map (result_chunks lib) (takeWhile (\<lambda>c. \<not> is_stop c) calls)))
    (fold (perform lib) calls (Start b filepathAbs c (newProgressDisplay kind pw cw showResults quiet)))"
proof (rule all_performed_holds)
  show "holds_results (wr_written cw) (Start b filepathAbs c (newProgressDisplay kind pw cw showResults quiet))"
    by (simp add: holds_results_def started_same newProgressDisplay_def)
qed (simp_all add: started_same newProgressDisplay_def assms)

text \<open>
  C12: whatever is shown and in whatever order, a display that was given results has written each of
  them in full and in order when it reports no error, and up to the first error otherwise;
  nothing comes after the stop. A quiet display writes nothing on the output of the progress,
  and one that shows no results, as for JSON, leaves the output of the results to the document.
\<close>

theorem results_written:
  "let d = fold (perform lib) calls (Start b filepathAbs c (newProgressDisplay kind pw cw showResults quiet));
     results = wr_written cw @
       (if showResults then concat (map (result_chunks lib) (takeWhile (\<lambda>c. \<not> is_stop c) calls)) else [])
   in (if Err d = None then wr_written (pd_certificateOutput d) = results
       else prefix (wr_written (pd_certificateOutput d)) results) \<and>
     (if quiet then pd_progressOutput d = pw else True) \<and>
     (if showResults then True else pd_certificateOutput d = cw)"
proof -
  define d0 where "d0 = newProgressDisplay kind pw cw showResults quiet"
  define d where "d = fold (perform lib) calls (Start b filepathAbs c d0)"
  define results where "results = wr_written cw @
    (if showResults then concat (map (result_chunks lib) (takeWhile (\<lambda>c. \<not> is_stop c) calls)) else [])"
  have d0: "pd_certificateOutput d0 = cw" "pd_progressOutput d0 = pw" "pd_showResults d0 = showResults" "pd_quiet d0 = quiet"
    by (simp_all add: d0_def newProgressDisplay_def)
  have q: "if quiet then pd_progressOutput d = pw else True"
    using quiet.all_performed [OF quiet.started, of d0 quiet pw lib calls b filepathAbs c] d0
    by (simp add: d_def)
  have u: "if showResults then True else pd_certificateOutput d = cw"
    using unshown.all_performed [OF unshown.started, of d0 cw lib calls b filepathAbs c] d0
    by (simp add: d_def)
  have "holds_results results d"
    using started_display_holds [of showResults cw lib calls b filepathAbs c kind pw quiet] u
    by (cases showResults) (simp_all add: d_def d0_def results_def holds_results_def)
  then show ?thesis
    using q u unfolding Let_def d0_def [symmetric] d_def [symmetric] results_def [symmetric] holds_results_def by simp
qed

end
