(* ===== verification/RunDisplay.thy ===== *)
theory RunDisplay
  imports RunFacts DisplayFacts
begin

text \<open>
  The run and its display together: what a run of the command starts the display with, and that a text run
  has printed all it has shown, or says so by its exit status.
\<close>

section \<open>The configuration\<close>

text \<open>The texts of the durations are those given, or \<^verbatim>\<open>0d\<close> for their shortcuts.\<close>

definition duration_description :: "bool \<Rightarrow> string \<Rightarrow> string" where
  "duration_description shortcut given = (if shortcut then ''0d'' else given)"

fun identity_name :: "identity_mode \<Rightarrow> string" where
  "identity_name IdentityAll = ''all''"
| "identity_name IdentityUnique = ''unique''"
| "identity_name IdentityDuplicates = ''duplicates''"

fun format_name :: "output_format \<Rightarrow> string" where
  "format_name OutputText = ''text''"
| "format_name OutputJSON = ''json''"
| "format_name OutputJSONL = ''jsonl''"

definition run_configuration :: "cli_flags \<Rightarrow> settings \<Rightarrow> string \<Rightarrow> scan_configuration" where
  "run_configuration f s path =
     \<lparr>sc_Path = path, sc_Workers = fl_workers f, sc_MaxBytes = fl_maxBytes f, sc_Exclude = fl_excludes f,
      sc_Extensions = fl_extensions f, sc_OneFileSystem = fl_oneFileSystem f,
      sc_FollowSymlinks = fl_followSymlinks f, sc_Archives = fl_archives f,
      sc_ArchiveMaxBytes = fl_archiveMaxBytes f, sc_ArchiveMaxEntries = fl_archiveMaxEntries f,
      sc_ArchiveMaxDepth = fl_archiveMaxDepth f, sc_IgnoreErrors = fl_ignoreErrors f, sc_Usage = se_usage s,
      sc_Hostname = se_hostname s, sc_Expiration = duration_description (fl_expired f) (fl_expiration f),
      sc_FailExpiring = duration_description (fl_failExpired f) (fl_failExpiring f), sc_Verify = fl_verify f,
      sc_Roots = fl_roots f, sc_RootsOnly = fl_rootsOnly f, sc_IdentityMode = identity_name (se_identity s),
      sc_Output = format_name (se_format s), sc_Quiet = fl_quiet f\<rparr>"

definition run_display ::
  "build_info \<Rightarrow> (string \<Rightarrow> string go_result) \<Rightarrow> output_kind \<Rightarrow> writer \<Rightarrow> writer \<Rightarrow> cli_flags \<Rightarrow> settings \<Rightarrow> string \<Rightarrow>
     progress_display" where
  "run_display b filepathAbs kind stderr stdout f s path =
     Start b filepathAbs (run_configuration f s path)
       (newProgressDisplay kind stderr stdout (se_format s = OutputText) (fl_quiet f))"

section \<open>The end of a run\<close>

text \<open>The calls that show a result, and what they show.\<close>

fun shown_by :: "display_call \<Rightarrow> shown list" where
  "shown_by (CallCertificate c now) = [ShownCertificate c]"
| "shown_by (CallGroup g now) = [ShownGroup g]"
| "shown_by (CallEncrypted e) = [ShownEncrypted e]"
| "shown_by _ = []"

lemma finished_display_error:
  assumes "rr_summary (run env parsed) \<noteq> None" and "ru_displayErr env \<noteq> None"
  shows "rr_exit (run env parsed) = exitRuntimeError"
proof -
  have failed: "rr_summary (failed_run exit shown) = None" for exit shown
    by (simp add: failed_run_def)
  have finish: "rr_exit (finish_run env f s r st) = exitRuntimeError" for f s r st
    using assms(2) by (simp add: finish_run_def Let_def)
  have verify: "rr_exit (verify_run env f s roots r st) = exitRuntimeError"
    if "rr_summary (verify_run env f s roots r st) \<noteq> None" for f s roots r st
    using that by (auto simp: verify_run_def Let_def finish failed split: sum.splits if_splits)
  have scan: "rr_exit (scan_run env f s path roots) = exitRuntimeError"
    if "rr_summary (scan_run env f s path roots) \<noteq> None" for f s path roots
    using that verify by (auto simp: scan_run_def Let_def finish failed split: prod.splits sum.splits if_splits)
  show ?thesis
    using assms(1) scan
    by (auto simp: run_def failed split: parsed_flags.splits list.splits sum.splits if_splits)
qed

text \<open>
  C13: a text run that reaches its end calls the display with its results in their order, among snapshots
  and ticks in any order, then sets the summary and stops it. If the display reports no error,
  every result has been printed in full and in order on the standard output; otherwise the
  run ends with the status of a runtime error, and what was printed is a part from the front.
\<close>

theorem text_run_prints:
  assumes "rr_summary (run env (Flags f)) = Some summary" and "se_format s = OutputText"
    and "concat (map shown_by calls) = rr_shown (run env (Flags f))" and "list_all (\<lambda>c. \<not> is_stop c) calls"
    and "d = fold (perform lib) (calls @ [CallSummary summary, CallStop True elapsed])
      (run_display b filepathAbs kind stderr stdout f s path)"
    and "ru_displayErr env = Err d"
  shows "if Err d = None
    then wr_written (pd_certificateOutput d) = wr_written stdout @ concat (map (result_chunks lib) calls)
    else rr_exit (run env (Flags f)) = 1 \<and>
      prefix (wr_written (pd_certificateOutput d)) (wr_written stdout @ concat (map (result_chunks lib) calls))"
proof -
  let ?calls = "calls @ [CallSummary summary, CallStop True elapsed]"
  have calls: "takeWhile (\<lambda>c. \<not> is_stop c) ?calls = calls @ [CallSummary summary]"
    using assms(4) by (simp add: takeWhile_append list_all_iff)
  have "holds_results (wr_written stdout @ concat (map (result_chunks lib) (takeWhile (\<lambda>c. \<not> is_stop c) ?calls))) d"
    unfolding assms(5) run_display_def by (rule started_display_holds) (rule assms(2))
  with calls have "holds_results (wr_written stdout @ concat (map (result_chunks lib) calls)) d" by simp
  moreover have "rr_exit (run env (Flags f)) = 1" if "Err d \<noteq> None"
    using finished_display_error [of env "Flags f"] assms(1,6) that by (simp add: exits)
  ultimately show ?thesis by (simp add: holds_results_def split: if_splits)
qed

section \<open>A sample\<close>

text \<open>The run of the other sample, as text: a certificate that has expired, among a snapshot and a tick.\<close>

definition text_flags :: cli_flags where
  "text_flags = sample_flags\<lparr>fl_jsonl := False, fl_quiet := False, fl_provided := [''fail-expired'']\<rparr>"

definition text_settings :: settings where
  "text_settings = sample_settings\<lparr>se_format := OutputText\<rparr>"

definition text_calls :: "display_call list" where
  "text_calls = [CallUpdate zero_counters, CallCertificate (sample_finding ''/r/a.pem'') 100, CallTick]"

definition text_display :: progress_display where
  "text_display = fold (perform (ru_text sample_run_env))
     (text_calls @ [CallSummary \<lparr>id_Matched = 1, id_Unique = 1, id_DuplicateOccurrences = 0\<rparr>, CallStop True ''1s''])
     (run_display unset_build Inr OutputOther \<lparr>wr_written = [], wr_errors = []\<rparr> \<lparr>wr_written = [], wr_errors = []\<rparr>
       text_flags text_settings ''/r'')"

lemma text_run:
  "run sample_run_env (Flags text_flags) =
     \<lparr>rr_exit = 3, rr_shown = [ShownCertificate (sample_finding ''/r/a.pem'')], rr_json = None,
      rr_summary = Some \<lparr>id_Matched = 1, id_Unique = 1, id_DuplicateOccurrences = 0\<rparr>, rr_warnings = []\<rparr>"
proof -
  have check: "check_options (ru_lib sample_run_env) text_flags = Inr text_settings"
    unfolding sample_run_env_def run_env.select_convs by code_simp
  have m: "matches sample_run_env text_settings (sample_finding ''/r/a.pem'')"
    "expires sample_run_env text_settings (sample_finding ''/r/a.pem'')"
    by (simp_all add: matches_def certificateMatches_def expires_def certificateExpiresWithin_def text_settings_def
        sample_settings_def sample_run_env_def sample_finding_def)
  have f: "fl_args text_flags = [''/r'']" "\<not> fl_version text_flags" "\<not> fl_verify text_flags"
    by (simp_all add: text_flags_def sample_flags_def)
  have s: "\<not> grouped_output text_settings" "se_format text_settings = OutputText"
    by (simp_all add: grouped_output_def text_settings_def sample_settings_def)
  have e: "ru_Scan sample_run_env path opts = ([OnCertificate (sample_finding ''/r/a.pem'')], Inr empty_report)"
    "ru_displayErr sample_run_env = None" for path opts
    by (simp_all add: sample_run_env_def)
  show ?thesis
    using f s e m
    by (simp add: run_def check scan_run_def start_run_def on_certificate_def take_certificate_def show_finding_def
        finish_run_def filtered_certificates_def output_groups_def final_exit_def empty_report_def exits
        summarizeCertificateIdentities_def Let_def)
qed

lemma text_run_prints_witness:
  "rr_exit (run sample_run_env (Flags text_flags)) = 3 \<and>
   wr_written (pd_certificateOutput text_display) =
     result_chunks (ru_text sample_run_env) (CallCertificate (sample_finding ''/r/a.pem'') 100)"
proof -
  have ok: "Err text_display = None"
    unfolding Err_def text_display_def run_display_def
    by (rule sound.all_performed [OF sound.started, THEN conjunct1]) (simp add: newProgressDisplay_def)
  have shown: "concat (map shown_by text_calls) = rr_shown (run sample_run_env (Flags text_flags))"
    "list_all (\<lambda>c. \<not> is_stop c) text_calls"
    by (simp_all add: text_calls_def text_run)
  have env: "rr_summary (run sample_run_env (Flags text_flags)) =
      Some \<lparr>id_Matched = 1, id_Unique = 1, id_DuplicateOccurrences = 0\<rparr>"
    "se_format text_settings = OutputText" "ru_displayErr sample_run_env = Err text_display"
    using ok by (simp_all add: text_run text_settings_def) (simp add: sample_run_env_def)
  from text_run_prints [OF env(1,2) shown text_display_def env(3)] ok show ?thesis
    by (simp add: text_run) (simp add: text_calls_def)
qed

end
