(* ===== verification/JsonFacts.thy ===== *)
theory JsonFacts
  imports Json
begin

text \<open>
  What a consumer reads back from the JSON of the command: a reader that knows the keys of the records
  and nothing of the program, and the round trip of whole documents through it.
\<close>

section \<open>A reader\<close>

text \<open>A missing field reads as the empty value that \<^verbatim>\<open>omitempty\<close> leaves out.\<close>

fun field :: "string \<Rightarrow> json \<Rightarrow> json option" where
  "field key (JObj members) = map_of members key"
| "field key _ = None"

fun string_of_json :: "json \<Rightarrow> string" where
  "string_of_json (JStr s) = s"
| "string_of_json _ = []"

fun int_of_json :: "json \<Rightarrow> int" where
  "int_of_json (JNum n) = n"
| "int_of_json _ = 0"

fun bool_of_json :: "json \<Rightarrow> bool" where
  "bool_of_json (JBool b) = b"
| "bool_of_json _ = False"

fun items_of_json :: "json \<Rightarrow> json list" where
  "items_of_json (JArr js) = js"
| "items_of_json _ = []"

definition read_field :: "(json \<Rightarrow> 'a) \<Rightarrow> 'a \<Rightarrow> string \<Rightarrow> json \<Rightarrow> 'a" where
  "read_field get missing key j = (case field key j of None \<Rightarrow> missing | Some v \<Rightarrow> get v)"

abbreviation read_string :: "string \<Rightarrow> json \<Rightarrow> string" where
  "read_string \<equiv> read_field string_of_json []"

abbreviation read_int :: "string \<Rightarrow> json \<Rightarrow> int" where
  "read_int \<equiv> read_field int_of_json 0"

abbreviation read_bool :: "string \<Rightarrow> json \<Rightarrow> bool" where
  "read_bool \<equiv> read_field bool_of_json False"

abbreviation read_list :: "(json \<Rightarrow> 'a) \<Rightarrow> string \<Rightarrow> json \<Rightarrow> 'a list" where
  "read_list get \<equiv> read_field (\<lambda>v. map get (items_of_json v)) []"

definition read_keystore :: "json \<Rightarrow> keystore_info" where
  "read_keystore j = \<lparr>ks_Format = read_string ''format'' j, ks_Alias = read_string ''alias'' j,
     ks_FriendlyName = read_string ''friendly_name'' j, ks_EntryType = read_string ''entry_type'' j,
     ks_ChainIndex = read_int ''chain_index'' j, ks_Truststore = read_bool ''truststore'' j\<rparr>"

definition read_chain_certificate :: "json \<Rightarrow> verification_chain_certificate" where
  "read_chain_certificate j = \<lparr>vc_Subject = read_string ''subject'' j, vc_Issuer = read_string ''issuer'' j,
     vc_SHA256Fingerprint = read_string ''sha256_fingerprint'' j, vc_TrustAnchor = read_bool ''trust_anchor'' j\<rparr>"

definition read_verification :: "json \<Rightarrow> verification_result" where
  "read_verification j = \<lparr>vr_Status = read_string ''status'' j, vr_Error = read_string ''error'' j,
     vr_Chains = read_list (\<lambda>chain. map read_chain_certificate (items_of_json chain)) ''chains'' j\<rparr>"

text \<open>
  What a record says of a certificate. The times are strings, and the names, addresses and the parsed
  certificate that the scanner keeps for itself are not written: the reader leaves them empty.
\<close>

record certificate_reading =
  rd_certificate :: certificate
  rd_ValidFrom :: string
  rd_ValidTo :: string
  rd_ValidityStatus :: string

definition read_certificate :: "json \<Rightarrow> certificate_reading" where
  "read_certificate j =
     (let key = read_field id JNull ''public_key'' j; prints = read_field id JNull ''fingerprints'' j in
      \<lparr>rd_certificate = \<lparr>cert_Path = read_string ''path'' j, cert_Index = read_int ''index'' j,
         cert_Subject = read_string ''subject'' j, cert_Issuer = read_string ''issuer'' j,
         cert_SerialNumber = read_string ''serial_number'' j, cert_IsCA = read_bool ''is_ca'' j,
         cert_SelfSigned = read_bool ''self_signed'' j, cert_SANs = read_list string_of_json ''sans'' j,
         cert_KeyUsage = read_list string_of_json ''key_usage'' j,
         cert_ExtendedKeyUsage = read_list string_of_json ''extended_key_usage'' j,
         cert_ExtendedKeyUsageUnrestricted = read_bool ''extended_key_usage_unrestricted'' j,
         cert_PublicKeyAlgorithm = read_string ''algorithm'' key, cert_PublicKeyBits = read_int ''bits'' key,
         cert_PublicKeyCurve = read_string ''curve'' key,
         cert_SignatureAlgorithm = read_string ''signature_algorithm'' j,
         cert_SHA1Fingerprint = read_string ''sha1'' prints, cert_SHA256Fingerprint = read_string ''sha256'' prints,
         cert_SPKISHA256Fingerprint = read_string ''spki_sha256'' prints, cert_NotBefore = 0, cert_NotAfter = 0,
         cert_Keystore = map_option read_keystore (field ''keystore'' j),
         cert_Verification = map_option read_verification (field ''verification'' j),
         cert_ArchiveEntries = read_list string_of_json ''archive_entries'' j,
         cert_dnsNames = [], cert_ipAddresses = [], cert_parsed = None\<rparr>,
       rd_ValidFrom = read_string ''valid_from'' j, rd_ValidTo = read_string ''valid_to'' j,
       rd_ValidityStatus = read_string ''validity_status'' j\<rparr>)"

definition read_location :: "json \<Rightarrow> certificate_location" where
  "read_location j = \<lparr>loc_Path = read_string ''path'' j, loc_ArchiveEntries = read_list string_of_json ''archive_entries'' j,
     loc_Index = read_int ''index'' j, loc_Keystore = map_option read_keystore (field ''keystore'' j)\<rparr>"

definition read_encrypted :: "json \<Rightarrow> pkcs12_encrypted_content" where
  "read_encrypted j =
     (let detail = read_field id JNull ''pkcs12'' j in
      \<lparr>enc_Path = read_string ''path'' j, enc_ArchiveEntries = read_list string_of_json ''archive_entries'' j,
       enc_ContentIndex = read_int ''content_index'' detail, enc_Algorithm = read_string ''algorithm'' detail,
       enc_AlgorithmOID = read_string ''algorithm_oid'' detail,
       enc_BagCount = read_field (\<lambda>v. case v of JNum n \<Rightarrow> Some n | _ \<Rightarrow> None) None ''bag_count'' detail\<rparr>)"

text \<open>The two kinds of record in a document are told apart by the key \<^verbatim>\<open>record_type\<close>.\<close>

definition read_document :: "(json \<Rightarrow> 'a) \<Rightarrow> json \<Rightarrow> 'a list \<times> pkcs12_encrypted_content list" where
  "read_document get document =
     (map get (filter (\<lambda>j. field ''record_type'' j = None) (items_of_json document)),
      map read_encrypted (filter (\<lambda>j. field ''record_type'' j = Some (JStr ''pkcs12_encrypted_content''))
        (items_of_json document)))"

definition read_group :: "json \<Rightarrow> certificate_reading \<times> certificate_location list" where
  "read_group j = (read_certificate (read_field id JNull ''certificate'' j), read_list read_location ''locations'' j)"

section \<open>What it reads\<close>

text \<open>What is published of a certificate, and of the certificate of a group.\<close>

definition published :: "text_lib \<Rightarrow> go_time \<Rightarrow> certificate \<Rightarrow> certificate_reading" where
  "published lib at c =
     \<lparr>rd_certificate = c\<lparr>cert_NotBefore := 0, cert_NotAfter := 0, cert_dnsNames := [], cert_ipAddresses := [],
        cert_parsed := None\<rparr>,
      rd_ValidFrom = time_RFC3339 lib (cert_NotBefore c), rd_ValidTo = time_RFC3339 lib (cert_NotAfter c),
      rd_ValidityStatus = ValidityStatus c at\<rparr>"

definition without_place :: "certificate_reading \<Rightarrow> certificate_reading" where
  "without_place r = r\<lparr>rd_certificate := (rd_certificate r)\<lparr>cert_Path := [], cert_Index := 0, cert_Keystore := None\<rparr>\<rparr>"

lemma items_strings [simp]: "map string_of_json (items_of_json (json_strings ss)) = ss"
  by (induction ss) (simp_all add: json_strings_def)

text \<open>Looking a key up passes over a field that is left out.\<close>

lemma lookup_written [simp]:
  "map_of (omit_when absent k v @ r) key = (if key = k then if absent then map_of r key else Some v else map_of r key)"
  "map_of (option_field k u @ r) key = (if key = k \<and> u \<noteq> None then u else map_of r key)"
  "map_of (option_field k u) key = (if key = k then u else None)"
  by (simp_all add: omit_when_def option_field_def split: option.split)

declare map_of_append [simp del]

text \<open>The fields of a certificate.\<close>

lemma certificate_fields:
  "field ''path'' (json_of_certificate j) = (if jc_Path j = [] then None else Some (JStr (jc_Path j)))"
  "field ''archive_entries'' (json_of_certificate j) =
     (if jc_ArchiveEntries j = [] then None else Some (json_strings (jc_ArchiveEntries j)))"
  "field ''index'' (json_of_certificate j) = map_option JNum (jc_Index j)"
  "field ''subject'' (json_of_certificate j) = Some (JStr (jc_Subject j))"
  "field ''issuer'' (json_of_certificate j) = Some (JStr (jc_Issuer j))"
  "field ''serial_number'' (json_of_certificate j) = Some (JStr (jc_SerialNumber j))"
  "field ''is_ca'' (json_of_certificate j) = Some (JBool (jc_IsCA j))"
  "field ''self_signed'' (json_of_certificate j) = Some (JBool (jc_SelfSigned j))"
  "field ''sans'' (json_of_certificate j) = Some (json_strings (jc_SANs j))"
  "field ''key_usage'' (json_of_certificate j) = Some (json_strings (jc_KeyUsage j))"
  "field ''extended_key_usage'' (json_of_certificate j) = Some (json_strings (jc_ExtendedKeyUsage j))"
  "field ''extended_key_usage_unrestricted'' (json_of_certificate j) = Some (JBool (jc_ExtendedKeyUsageUnrestricted j))"
  "field ''public_key'' (json_of_certificate j) = Some (json_publicKey j)"
  "field ''signature_algorithm'' (json_of_certificate j) = Some (JStr (jc_SignatureAlgorithm j))"
  "field ''fingerprints'' (json_of_certificate j) = Some (json_fingerprints j)"
  "field ''valid_from'' (json_of_certificate j) = Some (JStr (jc_ValidFrom j))"
  "field ''valid_to'' (json_of_certificate j) = Some (JStr (jc_ValidTo j))"
  "field ''validity_status'' (json_of_certificate j) = Some (JStr (jc_ValidityStatus j))"
  "field ''keystore'' (json_of_certificate j) = jc_Keystore j"
  "field ''verification'' (json_of_certificate j) = jc_Verification j"
  "field ''record_type'' (json_of_certificate j) = None"
  by (simp_all add: json_of_certificate_def)

lemma key_fields:
  "field ''algorithm'' (json_publicKey j) = Some (JStr (jc_Algorithm j))"
  "field ''bits'' (json_publicKey j) = (if jc_Bits j = 0 then None else Some (JNum (jc_Bits j)))"
  "field ''curve'' (json_publicKey j) = (if jc_Curve j = [] then None else Some (JStr (jc_Curve j)))"
  "field ''sha1'' (json_fingerprints j) = Some (JStr (jc_SHA1 j))"
  "field ''sha256'' (json_fingerprints j) = Some (JStr (jc_SHA256 j))"
  "field ''spki_sha256'' (json_fingerprints j) = Some (JStr (jc_SPKISHA256 j))"
  by (simp_all add: json_publicKey_def json_fingerprints_def) (simp_all add: omit_when_def)

text \<open>So the reader gets back what was put into the struct.\<close>

lemma read_struct:
  "read_certificate (json_of_certificate j) =
     \<lparr>rd_certificate = \<lparr>cert_Path = jc_Path j, cert_Index = (case jc_Index j of None \<Rightarrow> 0 | Some i \<Rightarrow> i),
         cert_Subject = jc_Subject j, cert_Issuer = jc_Issuer j, cert_SerialNumber = jc_SerialNumber j,
         cert_IsCA = jc_IsCA j, cert_SelfSigned = jc_SelfSigned j, cert_SANs = jc_SANs j,
         cert_KeyUsage = jc_KeyUsage j, cert_ExtendedKeyUsage = jc_ExtendedKeyUsage j,
         cert_ExtendedKeyUsageUnrestricted = jc_ExtendedKeyUsageUnrestricted j,
         cert_PublicKeyAlgorithm = jc_Algorithm j, cert_PublicKeyBits = jc_Bits j, cert_PublicKeyCurve = jc_Curve j,
         cert_SignatureAlgorithm = jc_SignatureAlgorithm j, cert_SHA1Fingerprint = jc_SHA1 j,
         cert_SHA256Fingerprint = jc_SHA256 j, cert_SPKISHA256Fingerprint = jc_SPKISHA256 j,
         cert_NotBefore = 0, cert_NotAfter = 0, cert_Keystore = map_option read_keystore (jc_Keystore j),
         cert_Verification = map_option read_verification (jc_Verification j),
         cert_ArchiveEntries = jc_ArchiveEntries j, cert_dnsNames = [], cert_ipAddresses = [], cert_parsed = None\<rparr>,
       rd_ValidFrom = jc_ValidFrom j, rd_ValidTo = jc_ValidTo j, rd_ValidityStatus = jc_ValidityStatus j\<rparr>"
  by (simp add: read_certificate_def read_field_def certificate_fields key_fields split: option.split)

lemma read_keystore_of: "map_option read_keystore (newJSONKeystoreInfo k) = k"
  by (cases k) (simp_all add: newJSONKeystoreInfo_def read_keystore_def read_field_def omit_when_def)

lemma read_chain_of: "read_chain_certificate (json_chain_certificate c) = c"
  by (simp add: read_chain_certificate_def json_chain_certificate_def read_field_def)

lemma read_verification_of: "map_option read_verification (newJSONVerification v) = v"
proof (cases v)
  case (Some r)
  have "map (\<lambda>chain. map read_chain_certificate (items_of_json chain))
      (map (\<lambda>chain. JArr (map json_chain_certificate chain)) cs) = cs" for cs
    by (induction cs) (simp_all add: comp_def read_chain_of)
  with Some show ?thesis
    by (simp add: newJSONVerification_def read_verification_def read_field_def omit_when_def comp_def)
qed (simp add: newJSONVerification_def)

lemma read_certificate_of:
  "read_certificate (json_of_certificate (newJSONCertificate lib c at)) = published lib at c"
  by (simp add: read_struct newJSONCertificate_def published_def read_keystore_of read_verification_of)

lemma read_group_certificate_of:
  "read_certificate (json_of_certificate (group_json_certificate lib g at)) =
     without_place (published lib at (gr_Certificate g))"
  by (simp add: read_struct group_json_certificate_def newJSONCertificate_def published_def without_place_def
      read_verification_of)

lemma read_location_of: "read_location (json_location l) = l"
proof -
  have "newJSONKeystoreInfo (loc_Keystore l) = None \<longleftrightarrow> loc_Keystore l = None"
    by (simp add: newJSONKeystoreInfo_def)
  with read_keystore_of [of "loc_Keystore l"] show ?thesis
    by (cases "loc_Keystore l")
      (auto simp: read_location_def json_location_def read_field_def omit_when_def option_field_def)
qed

lemma read_encrypted_of: "read_encrypted (newJSONPKCS12EncryptedContent f) = f"
  by (simp add: read_encrypted_def newJSONPKCS12EncryptedContent_def read_field_def omit_when_def Let_def
      split: option.split)

lemma record_types:
  "field ''record_type'' (newJSONPKCS12EncryptedContent f) = Some (JStr ''pkcs12_encrypted_content'')"
  "field ''record_type'' (json_of_certificate c) = None"
  "field ''record_type'' (json_group lib at g) = None"
  by (simp_all add: newJSONPKCS12EncryptedContent_def certificate_fields(21) json_group_def)

lemma read_document_of:
  assumes "\<And>x. field ''record_type'' (put x) = None" and "\<And>x. get (put x) = view x"
  shows "read_document get (JArr (map put xs @ map newJSONPKCS12EncryptedContent es)) = (map view xs, es)"
proof -
  have "filter (\<lambda>j. field ''record_type'' j = None) (map put ys) = map put ys"
    "filter (\<lambda>j. field ''record_type'' j = Some v) (map put ys) = []" for ys v
    using assms(1) by (induction ys) simp_all
  moreover have "filter (\<lambda>j. field ''record_type'' j = None) (map newJSONPKCS12EncryptedContent fs) = []"
    "filter (\<lambda>j. field ''record_type'' j = Some (JStr ''pkcs12_encrypted_content''))
       (map newJSONPKCS12EncryptedContent fs) = map newJSONPKCS12EncryptedContent fs" for fs
    by (induction fs) (simp_all add: record_types)
  ultimately show ?thesis
    by (simp add: read_document_def comp_def assms(2) read_encrypted_of)
qed

text \<open>
  C27: a document of the command can be read back. From the list of certificates a consumer gets all that
  is published of every certificate, in order: its place, its fields, the whole keystore entry
  and the whole verification result; and with it the encrypted contents, told apart by their
  record type. From the grouped document it gets, for every group, the locations with their
  keystore entries, and the certificate without path, index and keystore entry, but with the
  archive entries of its first location.
\<close>

theorem json_documents_read_back:
  "read_document read_certificate (printJSONResultsAt lib cs es at) = (map (published lib at) cs, es) \<and>
   read_document read_group (printJSONCertificateGroupsAndPKCS12At lib gs es at) =
     (map (\<lambda>g. (without_place (published lib at (gr_Certificate g)), gr_Locations g)) gs, es)"
proof
  show "read_document read_certificate (printJSONResultsAt lib cs es at) = (map (published lib at) cs, es)"
    unfolding printJSONResultsAt_def
    by (rule read_document_of) (simp_all add: record_types read_certificate_of)
  have "read_group (json_group lib at g) = (without_place (published lib at (gr_Certificate g)), gr_Locations g)" for g
    by (simp add: read_group_def json_group_def read_field_def read_group_certificate_of comp_def read_location_of)
  then show "read_document read_group (printJSONCertificateGroupsAndPKCS12At lib gs es at) =
      (map (\<lambda>g. (without_place (published lib at (gr_Certificate g)), gr_Locations g)) gs, es)"
    unfolding printJSONCertificateGroupsAndPKCS12At_def
    by (intro read_document_of) (simp_all add: record_types)
qed

end
