(* ===== verification/Notify.thy ===== *)
theory Notify
  imports Progress
begin

text \<open>
  The progress of a scan as it runs (\<^verbatim>\<open>notifyProgress\<close> and its five callers, scanner.go): the
  counters are atomic variables that the goroutines add to one by one between their communications, and a
  notification loads them one by one before it calls the callback. The communications are the
  steps of the pipeline; here each goroutine also carries the straight-line code it has to
  run before its next one.
\<close>

section \<open>Atomic operations\<close>

datatype counter =
    FilesDiscovered | FilesScanned | FilesCapped | ArchiveEntriesDiscovered | ArchiveEntriesScanned
  | ArchiveEntriesCapped | CertificatesFound | EncryptedFound | ErrorsFound

fun add_counter :: "counter \<Rightarrow> int \<Rightarrow> progress_counters \<Rightarrow> progress_counters" where
  "add_counter FilesDiscovered n c = c\<lparr>pc_filesDiscovered := pc_filesDiscovered c + n\<rparr>"
| "add_counter FilesScanned n c = c\<lparr>pc_filesScanned := pc_filesScanned c + n\<rparr>"
| "add_counter FilesCapped n c = c\<lparr>pc_filesCapped := pc_filesCapped c + n\<rparr>"
| "add_counter ArchiveEntriesDiscovered n c = c\<lparr>pc_archiveEntriesDiscovered := pc_archiveEntriesDiscovered c + n\<rparr>"
| "add_counter ArchiveEntriesScanned n c = c\<lparr>pc_archiveEntriesScanned := pc_archiveEntriesScanned c + n\<rparr>"
| "add_counter ArchiveEntriesCapped n c = c\<lparr>pc_archiveEntriesCapped := pc_archiveEntriesCapped c + n\<rparr>"
| "add_counter CertificatesFound n c = c\<lparr>pc_certificatesFound := pc_certificatesFound c + n\<rparr>"
| "add_counter EncryptedFound n c = c\<lparr>pc_pkcs12Encrypted := pc_pkcs12Encrypted c + n\<rparr>"
| "add_counter ErrorsFound n c = c\<lparr>pc_scanErrors := pc_scanErrors c + n\<rparr>"

text \<open>\<open>Complete\<close> stores that the discovery is complete; \<open>Load k\<close> loads the k-th field of a notification.\<close>

datatype action = Add counter int | Complete | Load nat | Callback

definition notify_code :: "bool \<Rightarrow> action list" where
  "notify_code callback = (if callback then map Load [0..<10] @ [Callback] else [])"

text \<open>What \<^verbatim>\<open>queuePath\<close> does before it sends, where \<open>discovered\<close> is the counter after its addition.\<close>

definition discovered_code :: "bool \<Rightarrow> int \<Rightarrow> action list" where
  "discovered_code callback discovered =
     Add FilesDiscovered 1 # (if discovered = 1 \<or> discovered mod 100 = 0 then notify_code callback else [])"

definition complete_code :: "bool \<Rightarrow> action list" where
  "complete_code callback = Complete # notify_code callback"

text \<open>The calls of the callback that a worker gives to the scan of a file.\<close>

definition archive_code :: "bool \<Rightarrow> (int \<times> int \<times> int) list \<Rightarrow> action list" where
  "archive_code callback calls =
     concat (map (\<lambda>(discovered, scanned, capped).
       [Add ArchiveEntriesDiscovered discovered, Add ArchiveEntriesScanned scanned, Add ArchiveEntriesCapped capped] @
       notify_code callback) calls)"

text \<open>What the collector does with an outcome.\<close>

definition collect_code :: "bool \<Rightarrow> outcome \<Rightarrow> action list" where
  "collect_code callback result =
     (if oc_scanned result
      then [Add FilesScanned 1] @ (if oc_capped result then [Add FilesCapped 1] else []) @
        [Add CertificatesFound (int (length (oc_certificates result))),
         Add EncryptedFound (int (length (oc_pkcs12Encrypted result)))]
      else []) @
     (if oc_err result \<noteq> None then [Add ErrorsFound 1] else []) @ notify_code callback"

section \<open>The running scan\<close>

datatype goroutine = GDiscovery | GWorker nat | GCollector

text \<open>
  \<open>nt_counters\<close> are the atomic counters; those of the pipeline count a communication at once.
  \<open>nt_completing\<close> tells that the discovery has come to its end. A worker's code is that of the file it
  scans, none before and after. \<open>nt_loaded\<close> are the counters each goroutine saw when it loaded
  a field, and \<open>nt_calls\<close> what the callback was called with.
\<close>

record running =
  nt_pipe :: pipeline
  nt_counters :: progress_counters
  nt_discovery :: "action list"
  nt_completing :: bool
  nt_workers :: "action list option list"
  nt_collector :: "action list"
  nt_loaded :: "goroutine \<Rightarrow> nat \<Rightarrow> progress_counters"
  nt_calls :: "progress_counters list"

definition start_running :: "options \<Rightarrow> disc_item list \<Rightarrow> running" where
  "start_running options items =
     \<lparr>nt_pipe = start_pipeline options items, nt_counters = zero_counters, nt_discovery = [], nt_completing = False,
      nt_workers = replicate (nat (opt_Workers options)) None, nt_collector = [],
      nt_loaded = (\<lambda>_ _. zero_counters), nt_calls = []\<rparr>"

fun perform_action :: "goroutine \<Rightarrow> action \<Rightarrow> running \<Rightarrow> running" where
  "perform_action g (Add c n) st = st\<lparr>nt_counters := add_counter c n (nt_counters st)\<rparr>"
| "perform_action g Complete st = st\<lparr>nt_counters := (nt_counters st)\<lparr>pc_discoveryComplete := True\<rparr>\<rparr>"
| "perform_action g (Load k) st = st\<lparr>nt_loaded := (nt_loaded st)(g := (nt_loaded st g)(k := nt_counters st))\<rparr>"
| "perform_action g Callback st = st\<lparr>nt_calls := nt_calls st @ notifyProgress True (nt_loaded st g)\<rparr>"

text \<open>The next action of a goroutine.\<close>

fun act :: "goroutine \<Rightarrow> running \<Rightarrow> running option" where
  "act GDiscovery st =
     (case nt_discovery st of [] \<Rightarrow> None
      | a # code \<Rightarrow> Some (perform_action GDiscovery a (st\<lparr>nt_discovery := code\<rparr>)))"
| "act GCollector st =
     (case nt_collector st of [] \<Rightarrow> None
      | a # code \<Rightarrow> Some (perform_action GCollector a (st\<lparr>nt_collector := code\<rparr>)))"
| "act (GWorker i) st =
     (if i < length (nt_workers st)
      then (case nt_workers st ! i of
          Some (a # code) \<Rightarrow> Some (perform_action (GWorker i) a (st\<lparr>nt_workers := (nt_workers st)[i := Some code]\<rparr>))
        | _ \<Rightarrow> None)
      else None)"

text \<open>A worker starts to scan the file it has taken; the discovery has come to its end.\<close>

definition begin_scan :: "bool \<Rightarrow> pipeline_env \<Rightarrow> nat \<Rightarrow> running \<Rightarrow> running option" where
  "begin_scan callback env i st =
     (if i < length (nt_workers st) \<and> nt_workers st ! i = None
      then (case pl_workers (nt_pipe st) ! i of
          WScanning path \<Rightarrow>
            Some (st\<lparr>nt_workers := (nt_workers st)[i := Some (archive_code callback (snd (pe_scan env path)))]\<rparr>)
        | _ \<Rightarrow> None)
      else None)"

definition begin_complete :: "bool \<Rightarrow> running \<Rightarrow> running option" where
  "begin_complete callback st =
     (if pl_todo (nt_pipe st) = [] \<and> nt_discovery st = [] \<and> \<not> nt_completing st
      then Some (st\<lparr>nt_completing := True, nt_discovery := complete_code callback\<rparr>) else None)"

text \<open>
  A goroutine communicates when it has run its code, a worker at the end of a scan when it has run that of
  the file, and the discovery closes the paths after its last notification.
\<close>

fun may_communicate :: "event \<Rightarrow> running \<Rightarrow> bool" where
  "may_communicate DiscAnnounce st \<longleftrightarrow> nt_discovery st = []"
| "may_communicate DiscSend st \<longleftrightarrow> nt_discovery st = []"
| "may_communicate DiscDrop st \<longleftrightarrow> nt_discovery st = []"
| "may_communicate DiscStop st \<longleftrightarrow> nt_discovery st = []"
| "may_communicate DiscError st \<longleftrightarrow> nt_discovery st = [] \<and> nt_collector st = []"
| "may_communicate DiscEnd st \<longleftrightarrow> nt_discovery st = [] \<and> nt_completing st"
| "may_communicate (WorkerScan i) st \<longleftrightarrow> nt_workers st ! i = Some []"
| "may_communicate (WorkerSend i) st \<longleftrightarrow> nt_collector st = []"
| "may_communicate CollectEnd st \<longleftrightarrow> nt_collector st = []"
| "may_communicate CollectCancel st \<longleftrightarrow> nt_collector st = []"
| "may_communicate _ st \<longleftrightarrow> True"

text \<open>The code that follows a communication, which took the pipeline from \<open>p\<close> to \<open>p'\<close>.\<close>

fun code_after :: "bool \<Rightarrow> event \<Rightarrow> pipeline \<Rightarrow> pipeline \<Rightarrow> running \<Rightarrow> running" where
  "code_after callback DiscAnnounce p p' st =
     st\<lparr>nt_discovery := discovered_code callback (pc_filesDiscovered (pl_counters p'))\<rparr>"
| "code_after callback DiscStop p p' st =
     st\<lparr>nt_discovery := (if pl_announced p then [Add FilesDiscovered (-1)] else [])\<rparr>"
| "code_after callback DiscError p p' st =
     (case pl_todo p of
        DErr e # _ \<Rightarrow> if pl_panicked p' then st else st\<lparr>nt_collector := collect_code callback (reported_error e)\<rparr>
      | _ \<Rightarrow> st)"
| "code_after callback (WorkerScan i) p p' st = st\<lparr>nt_workers := (nt_workers st)[i := None]\<rparr>"
| "code_after callback (WorkerSend i) p p' st =
     (case pl_workers p ! i of WHolding result \<Rightarrow> st\<lparr>nt_collector := collect_code callback result\<rparr> | _ \<Rightarrow> st)"
| "code_after callback CollectEnd p p' st = st\<lparr>nt_collector := notify_code callback\<rparr>"
| "code_after callback _ p p' st = st"

datatype running_event = Communicate event | BeginScan nat | BeginComplete | Act goroutine

fun running_step :: "bool \<Rightarrow> pipeline_env \<Rightarrow> running_event \<Rightarrow> running \<Rightarrow> running option" where
  "running_step callback env (Communicate ev) st =
     (if may_communicate ev st
      then (case pipeline_step env ev (nt_pipe st) of
          None \<Rightarrow> None
        | Some p' \<Rightarrow> Some (code_after callback ev (nt_pipe st) p' (st\<lparr>nt_pipe := p'\<rparr>)))
      else None)"
| "running_step callback env (BeginScan i) st = begin_scan callback env i st"
| "running_step callback env BeginComplete st = begin_complete callback st"
| "running_step callback env (Act g) st = act g st"

text \<open>\<^verbatim>\<open>Scan\<close> has returned the report when the collector has run its last notification.\<close>

definition scan_returned :: "running \<Rightarrow> report \<Rightarrow> bool" where
  "scan_returned st r \<longleftrightarrow> pl_result (nt_pipe st) = Some (Inr r) \<and> nt_collector st = []"

inductive scan_runs :: "bool \<Rightarrow> pipeline_env \<Rightarrow> running \<Rightarrow> running \<Rightarrow> bool" for callback env st where
  runs_start: "scan_runs callback env st st"
| runs_step: "scan_runs callback env st st1 \<Longrightarrow> running_step callback env ev st1 = Some st2 \<Longrightarrow>
    scan_runs callback env st st2"

text \<open>The same as a function, to evaluate runs.\<close>

fun running_events :: "bool \<Rightarrow> pipeline_env \<Rightarrow> running_event list \<Rightarrow> running \<Rightarrow> running option" where
  "running_events callback env [] st = Some st"
| "running_events callback env (ev # evs) st =
     (case running_step callback env ev st of None \<Rightarrow> None | Some st' \<Rightarrow> running_events callback env evs st')"

end
