(* ===== verification/ProgressFacts.thy ===== *)
theory ProgressFacts
  imports DisplayFacts PipelineRuns
begin

text \<open>
  The counters of a scan and the display: how the display merges the snapshots it is sent, that the scans
  of files only add, and what the counters are when a scan has returned.
\<close>

section \<open>The order of the counters\<close>

definition counters_le :: "progress_counters \<Rightarrow> progress_counters \<Rightarrow> bool" where
  "counters_le p q \<longleftrightarrow>
     pc_filesDiscovered p \<le> pc_filesDiscovered q \<and> pc_filesScanned p \<le> pc_filesScanned q \<and>
     pc_filesCapped p \<le> pc_filesCapped q \<and> pc_archiveEntriesDiscovered p \<le> pc_archiveEntriesDiscovered q \<and>
     pc_archiveEntriesScanned p \<le> pc_archiveEntriesScanned q \<and> pc_archiveEntriesCapped p \<le> pc_archiveEntriesCapped q \<and>
     pc_certificatesFound p \<le> pc_certificatesFound q \<and> pc_pkcs12Encrypted p \<le> pc_pkcs12Encrypted q \<and>
     pc_scanErrors p \<le> pc_scanErrors q \<and> pc_discoveryComplete p \<le> pc_discoveryComplete q"

text \<open>The display merges snapshots as a semilattice: in any order, and repeatedly.\<close>

interpretation counters: semilattice_sup merge_progress counters_le "\<lambda>p q. counters_le p q \<and> \<not> counters_le q p"
  by unfold_locales (auto simp: counters_le_def merge_progress_def)

lemma updates_reach:
  assumes "\<not> pd_stopped d" and "counters_le (pd_progress d) u" and "\<forall>p\<in>set ps. counters_le p u"
  shows "counters_le (pd_progress (fold Update ps d)) u \<and> \<not> pd_stopped (fold Update ps d) \<and>
    counters_le (pd_progress d) (pd_progress (fold Update ps d)) \<and>
    (\<forall>p\<in>set ps. counters_le p (pd_progress (fold Update ps d)))"
  using assms
proof (induction ps arbitrary: d)
  case (Cons p ps)
  let ?d = "Update p d"
  have d: "\<not> pd_stopped ?d" "pd_progress ?d = merge_progress (pd_progress d) p"
    using Cons.prems(1) by (simp_all add: Update_def)
  then have le: "counters_le (pd_progress ?d) u" using Cons.prems by (simp add: counters.le_sup_iff)
  show ?case
    using Cons.IH [OF d(1) le] Cons.prems(3) d(2) counters.sup_ge1 counters.sup_ge2
    by (auto intro: counters.order_trans)
qed (simp add: counters.order_refl)

section \<open>The run of the scan\<close>

text \<open>The calls of an archive's progress callback only add.\<close>

definition growing_calls :: "(int \<times> int \<times> int) list \<Rightarrow> bool" where
  "growing_calls calls \<longleftrightarrow> list_all (\<lambda>(discovered, scanned, capped). 0 \<le> discovered \<and> 0 \<le> scanned \<and> 0 \<le> capped) calls"

interpretation growing: archive_invariant env
  "\<lambda>k sc. case as_progress sc of None \<Rightarrow> True | Some calls \<Rightarrow> growing_calls calls" for env
  by unfold_locales (auto simp: growing_calls_def bytes_read_def dest!: beginEntry_cases(3) split: option.splits)

text \<open>So the scan of a file only adds to the counters.\<close>

lemma file_scan_grows: "growing_calls (snd (scanFileContentsWithOptions env opened archiveProgress))"
proof -
  have "growing_calls (progress_calls (snd (scanArchiveFile env f format archiveProgress)))" for f format
    using growing.scanArchiveFile_I [of archiveProgress env f format]
    by (cases archiveProgress)
      (auto simp: new_archiveScanner_def progress_calls_def growing_calls_def split: option.split_asm option.split)
  then show ?thesis
    by (auto simp: scanFileContentsWithOptions_def Let_def growing_calls_def case_prod_beta split: sum.split option.split prod.split)
qed

definition scans_grow :: "pipeline_env \<Rightarrow> bool" where
  "scans_grow env \<longleftrightarrow> (\<forall>path. growing_calls (snd (pe_scan env path)))"

lemma file_scans_grow: "scans_grow \<lparr>pe_options = opts, pe_scan = (\<lambda>path. scanFileContentsWithOptions (envs path) (opened path) progress)\<rparr>"
  by (simp add: scans_grow_def file_scan_grows)

section \<open>What is counted at the end\<close>

text \<open>The paths that are counted as discovered and those that are left to the discovery are all.\<close>

definition all_found :: "disc_item list \<Rightarrow> pipeline \<Rightarrow> bool" where
  "all_found items st \<longleftrightarrow>
     (pl_cancelled st \<or>
      pc_filesDiscovered (pl_counters st) + int (length (disc_jobs (pl_todo st))) =
        int (length (disc_jobs items)) + (if pl_announced st then 1 else 0)) \<and>
     pc_discoveryComplete (pl_counters st) = pl_jobsClosed st"

lemma all_found_start: "all_found items (start_pipeline options items)"
  by (simp add: all_found_def start_pipeline_def zero_counters_def)

lemma disc_jobs_simps [simp]:
  "disc_jobs [] = []" "disc_jobs (DJob path # items) = path # disc_jobs items" "disc_jobs (DErr e # items) = disc_jobs items"
  by (simp_all add: disc_jobs_def)

lemma counters_complete [simp]:
  "pc_discoveryComplete (collect_counters r c) = pc_discoveryComplete c"
  "pc_discoveryComplete (add_progress calls c) = pc_discoveryComplete c"
  "pc_discoveryComplete (pl_counters (count_discovered n st)) = pc_discoveryComplete (pl_counters st)"
proof -
  have "pc_discoveryComplete (fold (\<lambda>(discovered, scanned, capped) c.
       c\<lparr>pc_archiveEntriesDiscovered := pc_archiveEntriesDiscovered c + discovered,
         pc_archiveEntriesScanned := pc_archiveEntriesScanned c + scanned,
         pc_archiveEntriesCapped := pc_archiveEntriesCapped c + capped\<rparr>) calls c) = pc_discoveryComplete c"
    by (induction calls arbitrary: c) (simp_all add: case_prod_beta)
  then show "pc_discoveryComplete (add_progress calls c) = pc_discoveryComplete c"
    by (simp only: add_progress_def)
qed (simp_all add: collect_counters_def count_discovered_def Let_def)

lemma all_found_step:
  assumes "all_found items st" and "pipeline_step env ev st = Some st'"
  shows "all_found items st'"
  using pipeline_step_cases(2) [OF assms(2)]
proof (elim disjE)
  assume "discovery_step env ev st = Some st'"
  then show ?thesis
    by (cases rule: discovery_stepE) (use assms(1) in \<open>auto simp: all_found_def\<close>)
next
  assume "worker_step env ev st = Some st'"
  then show ?thesis
    by (cases rule: worker_stepE) (use assms(1) in \<open>auto simp: all_found_def\<close>)
next
  assume "main_step ev st = Some st'"
  then show ?thesis by (cases rule: main_stepE) (use assms(1) in \<open>auto simp: all_found_def\<close>)
qed

lemma run_found: "pipeline_run env st evs st' \<Longrightarrow> all_found items st \<Longrightarrow> all_found items st'"
  by (induction rule: pipeline_run.induct) (auto dest: all_found_step)

lemma items_scanned_certificates:
  "concat (map oc_certificates (filter oc_scanned (map (item_outcome env) items))) =
     concat (map (\<lambda>p. oc_certificates (fst (pe_scan env p))) (disc_jobs items))"
proof (induction items)
  case (Cons a items)
  then show ?case by (cases a) simp_all
qed simp

lemma finished_counters:
  assumes "pipeline_run env (start_pipeline options items) evs st" and "1 \<le> opt_Workers options"
    and "\<not> pl_cancelled st" and "pl_result st = Some (Inr r)"
  shows "pc_filesDiscovered (pl_counters st) = int (length (disc_jobs items))"
    and "pc_filesScanned (pl_counters st) = int (length (disc_jobs items))"
    and "pc_certificatesFound (pl_counters st) =
      int (length (concat (map (\<lambda>p. oc_certificates (fst (pe_scan env p))) (disc_jobs items))))"
    and "pc_discoveryComplete (pl_counters st)"
proof -
  obtain delivered where wo: "well_ordered st" and d: "delivers env items delivered st"
    by (rule run_from_start [OF assms(1,2)])
  have closed: "pl_outcomesClosed st" using wo assms(4) by (auto simp: well_ordered_def)
  note fin = finished_outstanding [OF wo assms(3) closed]
  have found: "all_found items st" by (rule run_found [OF assms(1) all_found_start])
  have "\<not> pl_announced st" using wo fin(2) by (auto simp: well_ordered_def)
  then show "pc_filesDiscovered (pl_counters st) = int (length (disc_jobs items))"
    using found fin(2) assms(3) by (simp add: all_found_def)
  have "WExited \<in> set (pl_workers st)"
    using wo closed all_exited_in [of "pl_workers st"] by (auto simp: well_ordered_def)
  then have "pl_jobsClosed st" using wo assms(3) by (auto simp: well_ordered_def)
  then show "pc_discoveryComplete (pl_counters st)" using found by (simp add: all_found_def)
  have m: "mset delivered = mset (map (item_outcome env) items)"
    using d assms(3) fin(1) by (simp add: delivers_def expected_def)
  then have ms: "mset (filter oc_scanned delivered) = mset (filter oc_scanned (map (item_outcome env) items))"
    by (metis mset_filter)
  have c: "counted delivered (pl_counters st)" using d by (simp add: delivers_def)
  then show "pc_filesScanned (pl_counters st) = int (length (disc_jobs items))"
    using items_scanned [of env items] ms by (metis counted_def mset_eq_length)
  have "length (concat (map oc_certificates (filter oc_scanned delivered))) =
      length (concat (map oc_certificates (filter oc_scanned (map (item_outcome env) items))))"
    by (rule mset_eq_length [OF mset_concat_cong [OF ms]])
  then show "pc_certificatesFound (pl_counters st) =
      int (length (concat (map (\<lambda>p. oc_certificates (fst (pe_scan env p))) (disc_jobs items))))"
    using c by (simp only: counted_def items_scanned_certificates)
qed

end
