(* ===== verification/NotifyFacts.thy ===== *)
theory NotifyFacts
  imports Notify ProgressFacts
begin

text \<open>
  From the atomic counters to the summary: the notifications of concurrent goroutines reach the display in
  any order and each mixes several moments, and still the last numbers shown are those of the
  report, because the collector sends a last notification when everything else has ended.
\<close>

section \<open>The pipeline below\<close>

lemma code_after_pipe [simp]:
  "nt_pipe (code_after callback ev p p' st) = nt_pipe st"
  "nt_counters (code_after callback ev p p' st) = nt_counters st"
  "nt_completing (code_after callback ev p p' st) = nt_completing st"
  "nt_loaded (code_after callback ev p p' st) = nt_loaded st"
  "nt_calls (code_after callback ev p p' st) = nt_calls st"
  by (induction callback ev p p' st rule: code_after.induct)
    (simp_all split: list.split disc_item.split worker_state.split)

lemma perform_action_pipe [simp]:
  "nt_pipe (perform_action g a st) = nt_pipe st"
  "nt_discovery (perform_action g a st) = nt_discovery st"
  "nt_completing (perform_action g a st) = nt_completing st"
  "nt_workers (perform_action g a st) = nt_workers st"
  "nt_collector (perform_action g a st) = nt_collector st"
  by (cases a; simp)+

lemma running_stepE:
  assumes "running_step callback env ev st = Some st'"
  obtains (communicate) e p' where "ev = Communicate e" "may_communicate e st"
      "pipeline_step env e (nt_pipe st) = Some p'" "st' = code_after callback e (nt_pipe st) p' (st\<lparr>nt_pipe := p'\<rparr>)"
    | (scan) i path where "i < length (nt_workers st)" "nt_workers st ! i = None"
      "pl_workers (nt_pipe st) ! i = WScanning path"
      "st' = st\<lparr>nt_workers := (nt_workers st)[i := Some (archive_code callback (snd (pe_scan env path)))]\<rparr>"
    | (complete) "pl_todo (nt_pipe st) = []" "nt_discovery st = []" "\<not> nt_completing st"
      "st' = st\<lparr>nt_completing := True, nt_discovery := complete_code callback\<rparr>"
    | (discovery) a code where "nt_discovery st = a # code"
      "st' = perform_action GDiscovery a (st\<lparr>nt_discovery := code\<rparr>)"
    | (collector) a code where "nt_collector st = a # code"
      "st' = perform_action GCollector a (st\<lparr>nt_collector := code\<rparr>)"
    | (worker) i a code where "i < length (nt_workers st)" "nt_workers st ! i = Some (a # code)"
      "st' = perform_action (GWorker i) a (st\<lparr>nt_workers := (nt_workers st)[i := Some code]\<rparr>)"
proof (cases ev)
  case (Communicate e)
  with assms communicate show thesis by (auto split: if_splits option.splits)
next
  case (BeginScan i)
  with assms scan show thesis by (auto simp: begin_scan_def split: if_splits worker_state.splits)
next
  case BeginComplete
  with assms complete show thesis by (auto simp: begin_complete_def split: if_splits)
next
  case (Act g)
  with assms discovery collector worker show thesis
    by (cases g) (auto split: list.splits if_splits option.splits)
qed

text \<open>The communications of a running scan are a run of the pipeline.\<close>

lemma step_pipe:
  assumes "running_step callback env ev st = Some st'"
  shows "nt_pipe st' = nt_pipe st \<or> (\<exists>e. pipeline_step env e (nt_pipe st) = Some (nt_pipe st'))"
  using assms by (cases rule: running_stepE) auto

lemma runs_pipe:
  "scan_runs callback env st st' \<Longrightarrow> \<exists>evs. pipeline_run env (nt_pipe st) evs (nt_pipe st')"
proof (induction rule: scan_runs.induct)
  case (runs_step st1 ev st2)
  then obtain evs where "pipeline_run env (nt_pipe st) evs (nt_pipe st1)" by blast
  with step_pipe [OF runs_step(2)] show ?case by (metis run_snoc)
qed (blast intro: run_Nil)

section \<open>The accounts\<close>

text \<open>What some code adds to a counter, and the value of a counter.\<close>

definition adds :: "counter \<Rightarrow> action list \<Rightarrow> int" where
  "adds c code = sum_list (map (\<lambda>a. case a of Add c' n \<Rightarrow> (if c' = c then n else 0) | _ \<Rightarrow> 0) code)"

lemma adds_simps [simp]:
  "adds c [] = 0" "adds c (Add c' n # code) = (if c' = c then n else 0) + adds c code"
  "adds c (Complete # code) = adds c code" "adds c (Load k # code) = adds c code"
  "adds c (Callback # code) = adds c code" "adds c (code @ code') = adds c code + adds c code'"
  by (simp_all add: adds_def)

lemma adds_notify [simp]: "adds c (notify_code callback) = 0"
proof -
  have "adds c (map Load ks) = 0" for ks by (induction ks) simp_all
  then show ?thesis by (simp add: notify_code_def)
qed

fun counter_value :: "counter \<Rightarrow> progress_counters \<Rightarrow> int" where
  "counter_value FilesDiscovered c = pc_filesDiscovered c"
| "counter_value FilesScanned c = pc_filesScanned c"
| "counter_value FilesCapped c = pc_filesCapped c"
| "counter_value ArchiveEntriesDiscovered c = pc_archiveEntriesDiscovered c"
| "counter_value ArchiveEntriesScanned c = pc_archiveEntriesScanned c"
| "counter_value ArchiveEntriesCapped c = pc_archiveEntriesCapped c"
| "counter_value CertificatesFound c = pc_certificatesFound c"
| "counter_value EncryptedFound c = pc_pkcs12Encrypted c"
| "counter_value ErrorsFound c = pc_scanErrors c"

lemma add_counter_value [simp]:
  "counter_value c (add_counter c' n p) = counter_value c p + (if c' = c then n else 0)"
  "pc_discoveryComplete (add_counter c' n p) = pc_discoveryComplete p"
  by (cases c'; cases c; simp) (cases c'; simp)

lemma complete_value [simp]: "counter_value c (p\<lparr>pc_discoveryComplete := b\<rparr>) = counter_value c p"
  by (cases c) simp_all

lemma perform_value:
  "counter_value c (nt_counters (perform_action g a st)) + adds c code = counter_value c (nt_counters st) + adds c (a # code)"
  by (cases a) simp_all

lemma counters_equal:
  assumes "\<And>c. counter_value c p = counter_value c q" and "pc_discoveryComplete p = pc_discoveryComplete q"
  shows "p = q"
  using assms(1) [of FilesDiscovered] assms(1) [of FilesScanned] assms(1) [of FilesCapped]
    assms(1) [of ArchiveEntriesDiscovered] assms(1) [of ArchiveEntriesScanned] assms(1) [of ArchiveEntriesCapped]
    assms(1) [of CertificatesFound] assms(1) [of EncryptedFound] assms(1) [of ErrorsFound] assms(2)
  by (cases p; cases q) simp

text \<open>The code adds what the pipeline counts.\<close>

lemma archive_value: "counter_value c (add_progress calls p) = counter_value c p + adds c (archive_code callback calls)"
proof (induction calls arbitrary: p)
  case Nil
  then show ?case by (simp add: add_progress_def archive_code_def)
next
  case (Cons call calls)
  obtain x y z where call: "call = (x, y, z)" by (cases call)
  have "add_progress (call # calls) p = add_progress calls (add_counter ArchiveEntriesCapped z
      (add_counter ArchiveEntriesScanned y (add_counter ArchiveEntriesDiscovered x p)))"
    by (simp add: add_progress_def call)
  moreover have "adds c (archive_code callback (call # calls)) = (if ArchiveEntriesDiscovered = c then x else 0) +
      (if ArchiveEntriesScanned = c then y else 0) + (if ArchiveEntriesCapped = c then z else 0) +
      adds c (archive_code callback calls)"
    by (simp add: archive_code_def call)
  ultimately show ?case using Cons.IH by (cases c) simp_all
qed

lemma collect_value: "counter_value c (collect_counters r p) = counter_value c p + adds c (collect_code callback r)"
  by (cases c) (simp_all add: collect_counters_def collect_code_def Let_def)

lemma count_value:
  "counter_value c (pl_counters (count_discovered n st)) = counter_value c (pl_counters st) + (if c = FilesDiscovered then n else 0)"
  by (cases c) (simp_all add: count_discovered_def)

lemma adds_discovered: "adds c (discovered_code callback n) = (if c = FilesDiscovered then 1 else 0)"
  by (auto simp: discovered_code_def)

lemma adds_complete: "adds c (complete_code callback) = 0"
  by (simp add: complete_code_def)

text \<open>
  The balance of a worker: while it scans a file the atomic counters are ahead of those of the
  pipeline by what it has added so far.
\<close>

fun balance :: "bool \<Rightarrow> pipeline_env \<Rightarrow> counter \<Rightarrow> action list option \<times> worker_state \<Rightarrow> int" where
  "balance callback env c (Some code, WScanning path) =
     adds c code - adds c (archive_code callback (snd (pe_scan env path)))"
| "balance callback env c _ = 0"

definition workers_match :: "running \<Rightarrow> bool" where
  "workers_match st \<longleftrightarrow> length (nt_workers st) = length (pl_workers (nt_pipe st)) \<and>
     (\<forall>i < length (nt_workers st). nt_workers st ! i \<noteq> None \<longrightarrow> (\<exists>path. pl_workers (nt_pipe st) ! i = WScanning path))"

definition balances :: "bool \<Rightarrow> pipeline_env \<Rightarrow> counter \<Rightarrow> action list option list \<Rightarrow> worker_state list \<Rightarrow> int" where
  "balances callback env c ns ws = sum_list (map (balance callback env c) (zip ns ws))"

definition accounted :: "bool \<Rightarrow> pipeline_env \<Rightarrow> running \<Rightarrow> bool" where
  "accounted callback env st \<longleftrightarrow>
     (\<forall>c. counter_value c (nt_counters st) + adds c (nt_discovery st) + adds c (nt_collector st) +
        balances callback env c (nt_workers st) (pl_workers (nt_pipe st)) = counter_value c (pl_counters (nt_pipe st)))"

lemma balances_update:
  assumes "i < length ns" and "length ns = length ws"
  shows "balances callback env c (ns[i := n]) (ws[i := w]) + balance callback env c (ns ! i, ws ! i) =
    balances callback env c ns ws + balance callback env c (n, w)"
  using sum_list_list_update [of i "zip ns ws" "balance callback env c" "(n, w)"] assms
  by (simp add: balances_def update_zip)

lemma balances_worker:
  assumes "i < length ns" and "length ns = length ws"
  shows "balances callback env c (ns[i := n]) ws + balance callback env c (ns ! i, ws ! i) =
    balances callback env c ns ws + balance callback env c (n, ws ! i)"
  using balances_update [OF assms, of callback env c n "ws ! i"] by simp

lemma balances_state:
  assumes "i < length ns" and "length ns = length ws" and "ns ! i = None"
  shows "balances callback env c ns (ws[i := w]) = balances callback env c ns ws"
  using balances_update [OF assms(1,2), of callback env c None w] assms(3) list_update_id [of ns i] by simp

lemma balances_idle: "balances callback env c (replicate n None) ws = 0"
proof (induction n arbitrary: ws)
  case (Suc n)
  then show ?case by (cases ws) (simp_all add: balances_def)
qed (simp add: balances_def)

lemma no_scan_no_code:
  "workers_match st \<Longrightarrow> i < length (pl_workers (nt_pipe st)) \<Longrightarrow> \<forall>path. pl_workers (nt_pipe st) ! i \<noteq> WScanning path \<Longrightarrow>
     i < length (nt_workers st) \<and> length (nt_workers st) = length (pl_workers (nt_pipe st)) \<and> nt_workers st ! i = None"
  by (auto simp: workers_match_def)

lemma match_state:
  assumes "workers_match st" and "i < length (pl_workers (nt_pipe st))" and "nt_workers st ! i = None"
    and "nt_workers st' = nt_workers st" and "pl_workers (nt_pipe st') = (pl_workers (nt_pipe st))[i := w]"
  shows "workers_match st'"
  using assms by (auto simp: workers_match_def nth_list_update)

lemma communicate_accounted:
  assumes "accounted callback env st" and "workers_match st" and "may_communicate ev st"
    and "pipeline_step env ev (nt_pipe st) = Some p'"
    and "st' = code_after callback ev (nt_pipe st) p' (st\<lparr>nt_pipe := p'\<rparr>)"
  shows "accounted callback env st' \<and> workers_match st'"
  using pipeline_step_cases(2) [OF assms(4)]
proof (elim disjE)
  assume "discovery_step env ev (nt_pipe st) = Some p'"
  then show ?thesis
  proof (cases rule: discovery_stepE)
    case (error e todo)
    have "nt_discovery st = []" "nt_collector st = []" using assms(3) error(1) by simp_all
    moreover have "st' = st\<lparr>nt_pipe := p', nt_collector := collect_code callback (reported_error e)\<rparr>" "\<not> pl_panicked p'"
      using assms(5) error pipeline_step_cases(1) [OF assms(4)] by simp_all
    ultimately show ?thesis
      using assms(1,2) error by (simp add: accounted_def workers_match_def collect_value [of _ _ _ callback])
  qed (use assms in \<open>auto simp: accounted_def workers_match_def count_value adds_discovered add.assoc
      simp del: counter_value.simps\<close>)
next
  assume "main_step ev (nt_pipe st) = Some p'"
  then show ?thesis
    by (cases rule: main_stepE) (use assms in \<open>auto simp: accounted_def workers_match_def\<close>)
next
  assume "worker_step env ev (nt_pipe st) = Some p'"
  then show ?thesis
  proof (cases rule: worker_stepE)
    case (take i path jobs)
    note idle = no_scan_no_code [OF assms(2) take(3)] take(4)
    with assms(1,2,5) take match_state [OF assms(2) take(3), of st' "WScanning path"] show ?thesis
      by (simp add: accounted_def balances_state)
  next
    case (scan i path)
    have i: "i < length (nt_workers st)" "length (nt_workers st) = length (pl_workers (nt_pipe st))"
      "nt_workers st ! i = Some []"
      using assms(2,3) scan(1,2) by (simp_all add: workers_match_def)
    note b = balances_update [OF i(1,2), of callback env _ None "WHolding (worker_outcome env path)"]
    have "workers_match st'"
      using assms(2,5) scan(1,2,4) by (auto simp: workers_match_def nth_list_update)
    moreover have "accounted callback env st'"
      unfolding accounted_def
    proof
      fix c
      show "counter_value c (nt_counters st') + adds c (nt_discovery st') + adds c (nt_collector st') +
          balances callback env c (nt_workers st') (pl_workers (nt_pipe st')) = counter_value c (pl_counters (nt_pipe st'))"
        using assms(1) [unfolded accounted_def, THEN spec, of c] assms(5) scan b [of c] i(3)
        by (simp add: archive_value [of c _ _ callback])
    qed
    ultimately show ?thesis by blast
  next
    case (send i result)
    note idle = no_scan_no_code [OF assms(2) send(2)] send(3)
    with assms(1,2,3,5) send match_state [OF assms(2) send(2), of st' WIdle] show ?thesis
      by (simp add: accounted_def balances_state collect_value [of _ _ _ callback] add.assoc)
  next
    case (quit i)
    note idle = no_scan_no_code [OF assms(2) quit(2)] quit(3)
    with assms(1,2,5) quit match_state [OF assms(2) quit(2), of st' WExited] show ?thesis
      by (simp add: accounted_def balances_state)
  next
    case (lose i result)
    note idle = no_scan_no_code [OF assms(2) lose(2)] lose(3)
    with assms(1,2,5) lose match_state [OF assms(2) lose(2), of st' WExited] show ?thesis
      by (simp add: accounted_def balances_state)
  qed
qed

lemma step_accounted:
  assumes "accounted callback env st \<and> workers_match st" and "running_step callback env ev st = Some st'"
  shows "accounted callback env st' \<and> workers_match st'"
  using assms(2)
proof (cases rule: running_stepE)
  case (communicate e p')
  with communicate_accounted [of callback env st e p' st'] assms(1) show ?thesis by blast
next
  case (scan i path)
  have len: "length (nt_workers st) = length (pl_workers (nt_pipe st))" using assms(1) by (simp add: workers_match_def)
  from balances_worker [OF scan(1) len, of callback env _ "Some (archive_code callback (snd (pe_scan env path)))"]
  have "balances callback env c (nt_workers st') (pl_workers (nt_pipe st)) =
      balances callback env c (nt_workers st) (pl_workers (nt_pipe st))" for c
    using scan by simp
  then have "accounted callback env st'" using assms(1) scan(4) by (simp add: accounted_def)
  moreover have "workers_match st'" using assms(1) scan by (auto simp: workers_match_def nth_list_update)
  ultimately show ?thesis by blast
next
  case complete
  with assms(1) show ?thesis by (simp add: accounted_def workers_match_def adds_complete)
next
  case (discovery a code)
  have "accounted callback env st'"
    unfolding accounted_def
  proof
    fix c
    show "counter_value c (nt_counters st') + adds c (nt_discovery st') + adds c (nt_collector st') +
        balances callback env c (nt_workers st') (pl_workers (nt_pipe st')) = counter_value c (pl_counters (nt_pipe st'))"
      using conjunct1 [OF assms(1), unfolded accounted_def, THEN spec, of c] discovery
        perform_value [of c GDiscovery a "st\<lparr>nt_discovery := code\<rparr>" code]
      by simp
  qed
  with assms(1) discovery show ?thesis by (simp add: workers_match_def)
next
  case (collector a code)
  have "accounted callback env st'"
    unfolding accounted_def
  proof
    fix c
    show "counter_value c (nt_counters st') + adds c (nt_discovery st') + adds c (nt_collector st') +
        balances callback env c (nt_workers st') (pl_workers (nt_pipe st')) = counter_value c (pl_counters (nt_pipe st'))"
      using conjunct1 [OF assms(1), unfolded accounted_def, THEN spec, of c] collector
        perform_value [of c GCollector a "st\<lparr>nt_collector := code\<rparr>" code]
      by simp
  qed
  with assms(1) collector show ?thesis by (simp add: workers_match_def)
next
  case (worker i a code)
  let ?st = "st\<lparr>nt_workers := (nt_workers st)[i := Some code]\<rparr>"
  obtain path where w: "pl_workers (nt_pipe st) ! i = WScanning path"
    using assms(1) worker(1,2) by (auto simp: workers_match_def)
  have len: "length (nt_workers st) = length (pl_workers (nt_pipe st))" using assms(1) by (simp add: workers_match_def)
  have "accounted callback env st'"
    unfolding accounted_def
  proof
    fix c
    show "counter_value c (nt_counters st') + adds c (nt_discovery st') + adds c (nt_collector st') +
        balances callback env c (nt_workers st') (pl_workers (nt_pipe st')) = counter_value c (pl_counters (nt_pipe st'))"
      using conjunct1 [OF assms(1), unfolded accounted_def, THEN spec, of c] w worker(2,3)
        balances_worker [OF worker(1) len, of callback env c "Some code"] perform_value [of c "GWorker i" a ?st code]
      by simp
  qed
  moreover have "workers_match st'" using assms(1) worker by (auto simp: workers_match_def nth_list_update)
  ultimately show ?thesis by blast
qed

lemma start_accounted: "accounted callback env (start_running options items) \<and> workers_match (start_running options items)"
proof -
  have "counter_value c zero_counters = 0" for c by (cases c) (simp_all add: zero_counters_def)
  then show ?thesis
    by (simp add: accounted_def workers_match_def start_running_def start_pipeline_def balances_idle)
qed

section \<open>The end of the discovery\<close>

definition completion :: "running \<Rightarrow> bool" where
  "completion st \<longleftrightarrow>
     (nt_completing st \<longrightarrow> pl_todo (nt_pipe st) = []) \<and>
     (pl_jobsClosed (nt_pipe st) \<longrightarrow> nt_completing st \<and> nt_discovery st = []) \<and>
     (if nt_completing st then pc_discoveryComplete (nt_counters st) \<longleftrightarrow> Complete \<notin> set (nt_discovery st)
      else \<not> pc_discoveryComplete (nt_counters st) \<and> Complete \<notin> set (nt_discovery st)) \<and>
     Complete \<notin> set (tl (nt_discovery st)) \<and> Complete \<notin> set (nt_collector st) \<and>
     (\<forall>code. Some code \<in> set (nt_workers st) \<longrightarrow> Complete \<notin> set code)"

lemma no_complete [simp]:
  "Complete \<notin> set (notify_code callback)" "Complete \<notin> set (discovered_code callback n)"
  "Complete \<notin> set (collect_code callback r)" "Complete \<notin> set (archive_code callback calls)"
  by (auto simp: notify_code_def discovered_code_def collect_code_def archive_code_def)

lemma tl_no_complete [simp]: "Complete \<notin> set xs \<Longrightarrow> Complete \<notin> set (tl xs)"
  by (cases xs) simp_all

lemma perform_complete:
  "pc_discoveryComplete (nt_counters (perform_action g a st)) \<longleftrightarrow> a = Complete \<or> pc_discoveryComplete (nt_counters st)"
  by (cases a) simp_all

lemma in_update: "x \<in> set (xs[i := y]) \<Longrightarrow> x = y \<or> x \<in> set xs"
  using set_update_subset_insert [of xs i y] by auto

lemma step_completion:
  assumes "completion st" and "running_step callback env ev st = Some st'"
  shows "completion st'"
  using assms(2)
proof (cases rule: running_stepE)
  case (communicate e p')
  show ?thesis using pipeline_step_cases(2) [OF communicate(3)]
  proof (elim disjE)
    assume "discovery_step env e (nt_pipe st) = Some p'"
    then show ?thesis
      by (cases rule: discovery_stepE) (use assms(1) communicate(2,4) in \<open>auto simp: completion_def\<close>)
  next
    assume "main_step e (nt_pipe st) = Some p'"
    then show ?thesis
      by (cases rule: main_stepE) (use assms(1) communicate(2,4) in \<open>auto simp: completion_def\<close>)
  next
    assume "worker_step env e (nt_pipe st) = Some p'"
    then show ?thesis
      by (cases rule: worker_stepE) (use assms(1) communicate(2,4) in \<open>auto simp: completion_def dest!: in_update\<close>)
  qed
next
  case (scan i path)
  with assms(1) show ?thesis by (auto simp: completion_def dest!: in_update)
next
  case complete
  with assms(1) show ?thesis by (auto simp: completion_def complete_code_def)
next
  case (discovery a code)
  with assms(1) show ?thesis by (auto simp: completion_def perform_complete split: if_splits)
next
  case (collector a code)
  with assms(1) show ?thesis by (auto simp: completion_def perform_complete split: if_splits)
next
  case (worker i a code)
  then have "Some (a # code) \<in> set (nt_workers st)" using nth_mem by metis
  with assms(1) have "a \<noteq> Complete" "Complete \<notin> set code" by (auto simp: completion_def)
  with worker assms(1) show ?thesis by (auto simp: completion_def perform_complete dest!: in_update split: if_splits)
qed

lemma start_completion: "completion (start_running options items)"
  by (auto simp: completion_def start_running_def start_pipeline_def zero_counters_def)

section \<open>What the notifications have seen\<close>

definition only_adds :: "action list \<Rightarrow> bool" where
  "only_adds code \<longleftrightarrow> list_all (\<lambda>a. case a of Add _ n \<Rightarrow> 0 \<le> n | _ \<Rightarrow> True) code"

lemma only_adds_simps [simp]:
  "only_adds []" "only_adds (code @ code') \<longleftrightarrow> only_adds code \<and> only_adds code'"
  "only_adds (Add c n # code) \<longleftrightarrow> 0 \<le> n \<and> only_adds code" "only_adds (Complete # code) \<longleftrightarrow> only_adds code"
  "only_adds (Load k # code) \<longleftrightarrow> only_adds code" "only_adds (Callback # code) \<longleftrightarrow> only_adds code"
  by (simp_all add: only_adds_def)

lemma only_adds_code [simp]:
  "only_adds (notify_code callback)" "only_adds (discovered_code callback n)" "only_adds (complete_code callback)"
  "only_adds (collect_code callback r)"
proof -
  have "only_adds (map Load ks)" for ks by (induction ks) simp_all
  then show "only_adds (notify_code callback)" by (simp add: notify_code_def)
  then show "only_adds (discovered_code callback n)" "only_adds (complete_code callback)" "only_adds (collect_code callback r)"
    by (simp_all add: discovered_code_def complete_code_def collect_code_def)
qed

lemma only_adds_archive: "growing_calls calls \<Longrightarrow> only_adds (archive_code callback calls)"
  by (induction calls) (auto simp: archive_code_def growing_calls_def)

lemma add_counter_grows: "0 \<le> n \<Longrightarrow> counters_le p (add_counter c n p)"
  by (cases c) (simp_all add: counters_le_def)

lemma perform_grows: "only_adds (a # code) \<Longrightarrow> counters_le (nt_counters st) (nt_counters (perform_action g a st))"
proof (cases a)
  case (Add c n)
  then show "only_adds (a # code) \<Longrightarrow> ?thesis" by (simp add: add_counter_grows)
qed (simp_all add: counters_le_def)

lemma snapshot_le: "(\<And>k. counters_le (at k) u) \<Longrightarrow> counters_le (snapshot at) u"
  by (simp add: counters_le_def snapshot_def)

lemma snapshot_const: "(\<And>k. k < 10 \<Longrightarrow> at k = c) \<Longrightarrow> snapshot at = c"
  by (simp add: snapshot_def)

text \<open>Without a cancellation the counters only grow, so whatever has been loaded is no more than they are.\<close>

definition seen_le :: "running \<Rightarrow> bool" where
  "seen_le st \<longleftrightarrow> counters_le zero_counters (nt_counters st) \<and>
     (\<forall>p\<in>set (nt_calls st). counters_le p (nt_counters st)) \<and>
     (\<forall>g k. counters_le (nt_loaded st g k) (nt_counters st))"

definition growing_code :: "running \<Rightarrow> bool" where
  "growing_code st \<longleftrightarrow> only_adds (nt_discovery st) \<and> only_adds (nt_collector st) \<and>
     (\<forall>code. Some code \<in> set (nt_workers st) \<longrightarrow> only_adds code)"

lemma perform_seen:
  assumes "seen_le st" and "only_adds (a # code)"
  shows "seen_le (perform_action g a st)"
proof -
  have "counters_le (nt_counters st) (nt_counters (perform_action g a st))" by (rule perform_grows [OF assms(2)])
  with assms(1) show ?thesis
    by (cases a) (auto simp: seen_le_def notifyProgress_def intro: counters.order_trans snapshot_le counters.order_refl)
qed

definition grows :: "running \<Rightarrow> bool" where
  "grows st \<longleftrightarrow> pl_cancelled (nt_pipe st) \<or> growing_code st \<and> seen_le st"

lemma only_adds_tl: "only_adds (a # code) \<Longrightarrow> only_adds code"
  by (cases a) simp_all

lemma step_grows:
  assumes "grows st" and "running_step callback env ev st = Some st'" and "scans_grow env"
  shows "grows st'"
proof (cases "pl_cancelled (nt_pipe st')")
  case True
  then show ?thesis by (simp add: grows_def)
next
  case cancel: False
  have "\<not> pl_cancelled (nt_pipe st)"
    using step_pipe [OF assms(2)] step_result(3) [of env _ "nt_pipe st" "nt_pipe st'"] cancel by auto
  with assms(1) have code: "growing_code st" and seen: "seen_le st" by (simp_all add: grows_def)
  from assms(2) show ?thesis
  proof (cases rule: running_stepE)
    case (communicate e p')
    have "seen_le st'" using seen communicate(4) by (simp add: seen_le_def)
    moreover have "growing_code st'" using pipeline_step_cases(2) [OF communicate(3)]
    proof (elim disjE)
      assume "discovery_step env e (nt_pipe st) = Some p'"
      then show ?thesis
        by (cases rule: discovery_stepE) (use code communicate(4) cancel in \<open>auto simp: growing_code_def\<close>)
    next
      assume "main_step e (nt_pipe st) = Some p'"
      then show ?thesis
        by (cases rule: main_stepE) (use code communicate(4) in \<open>auto simp: growing_code_def\<close>)
    next
      assume "worker_step env e (nt_pipe st) = Some p'"
      then show ?thesis
        by (cases rule: worker_stepE) (use code communicate(4) in \<open>auto simp: growing_code_def dest!: in_update\<close>)
    qed
    ultimately show ?thesis by (simp add: grows_def)
  next
    case (scan i path)
    have "only_adds (archive_code callback (snd (pe_scan env path)))"
      using assms(3) by (simp add: scans_grow_def only_adds_archive)
    with code scan(4) have "growing_code st'" by (auto simp: growing_code_def dest!: in_update)
    moreover have "seen_le st'" using seen scan(4) by (simp add: seen_le_def)
    ultimately show ?thesis by (simp add: grows_def)
  next
    case complete
    with code seen show ?thesis by (simp add: grows_def growing_code_def seen_le_def)
  next
    case (discovery a rest)
    have a: "only_adds (a # rest)" using code discovery(1) by (simp add: growing_code_def)
    have "seen_le (st\<lparr>nt_discovery := rest\<rparr>)" using seen by (simp add: seen_le_def)
    from perform_seen [OF this a] only_adds_tl [OF a] code discovery show ?thesis by (simp add: grows_def growing_code_def)
  next
    case (collector a rest)
    have a: "only_adds (a # rest)" using code collector(1) by (simp add: growing_code_def)
    have "seen_le (st\<lparr>nt_collector := rest\<rparr>)" using seen by (simp add: seen_le_def)
    from perform_seen [OF this a] only_adds_tl [OF a] code collector show ?thesis by (simp add: grows_def growing_code_def)
  next
    case (worker i a rest)
    then have "Some (a # rest) \<in> set (nt_workers st)" using nth_mem by metis
    then have a: "only_adds (a # rest)" using code by (simp add: growing_code_def)
    have "seen_le (st\<lparr>nt_workers := (nt_workers st)[i := Some rest]\<rparr>)" using seen by (simp add: seen_le_def)
    from perform_seen [OF this a] only_adds_tl [OF a] code worker show ?thesis
      by (auto simp: grows_def growing_code_def dest!: in_update)
  qed
qed

lemma start_grows: "grows (start_running options items)"
  by (auto simp: grows_def growing_code_def seen_le_def start_running_def counters.order_refl)

section \<open>The last notification\<close>

text \<open>When the report is there, only the collector is left, on its way through its last notification.\<close>

definition last_notification :: "running \<Rightarrow> bool" where
  "last_notification st \<longleftrightarrow>
     (\<exists>j\<le>10. nt_collector st = map Load [j..<10] @ [Callback] \<and> (\<forall>k<j. nt_loaded st GCollector k = nt_counters st)) \<or>
     nt_collector st = [] \<and> nt_counters st \<in> set (nt_calls st)"

definition ending :: "running \<Rightarrow> bool" where
  "ending st \<longleftrightarrow> pl_cancelled (nt_pipe st) \<or> (\<forall>r. pl_result (nt_pipe st) = Some (Inr r) \<longrightarrow> last_notification st)"

lemma last_notification_act:
  assumes "last_notification st" and "nt_collector st = a # code"
  shows "last_notification (perform_action GCollector a (st\<lparr>nt_collector := code\<rparr>))"
proof -
  from assms obtain j where j: "j \<le> 10" "a # code = map Load [j..<10] @ [Callback]"
    "\<forall>k<j. nt_loaded st GCollector k = nt_counters st"
    by (auto simp: last_notification_def)
  show ?thesis
  proof (cases "j = 10")
    case True
    with j have a: "a = Callback" "code = []" "\<forall>k<10. nt_loaded st GCollector k = nt_counters st" by simp_all
    have "snapshot (nt_loaded st GCollector) = nt_counters st" by (rule snapshot_const) (use a(3) in simp)
    with a show ?thesis by (simp add: last_notification_def notifyProgress_def)
  next
    case False
    then have less: "j < 10" using j(1) by simp
    with j(2) have a: "a = Load j" "code = map Load [Suc j..<10] @ [Callback]" by (simp_all add: upt_conv_Cons)
    have "\<exists>i\<le>10. map Load [Suc j..<10] = map Load [i..<10] \<and>
        (\<forall>k<i. ((nt_loaded st GCollector)(j := nt_counters st)) k = nt_counters st)"
      using less j(3) by (intro exI [of _ "Suc j"]) (auto simp: less_Suc_eq)
    with a show ?thesis by (simp add: last_notification_def)
  qed
qed

lemma ended_step:
  assumes "scan_ended st" and "pipeline_step env ev st = Some st'"
  shows "pl_cancelled st'"
  using pipeline_step_cases(2) [OF assms(2)]
proof (elim disjE)
  assume "discovery_step env ev st = Some st'"
  then show ?thesis by (cases rule: discovery_stepE) (use assms(1) in \<open>auto simp: scan_ended_def\<close>)
next
  assume "worker_step env ev st = Some st'"
  then show ?thesis by (cases rule: worker_stepE) (use assms(1) in \<open>auto simp: scan_ended_def list_all_length\<close>)
next
  assume "main_step ev st = Some st'"
  then show ?thesis by (cases rule: main_stepE) (use assms(1) in \<open>auto simp: scan_ended_def\<close>)
qed

lemma ended_no_code:
  assumes "scan_ended (nt_pipe st)" and "workers_match st" and "completion st"
  shows "nt_discovery st = []" and "nt_completing st" and "i < length (nt_workers st) \<Longrightarrow> nt_workers st ! i = None"
    and "i < length (nt_workers st) \<Longrightarrow> pl_workers (nt_pipe st) ! i = WExited"
  using assms by (auto simp: scan_ended_def workers_match_def completion_def list_all_length)

lemma step_ending:
  assumes "ending st" and "running_step True env ev st = Some st'" and "well_ordered (nt_pipe st)"
    and "workers_match st" and "completion st"
  shows "ending st'"
proof (cases "pl_cancelled (nt_pipe st')")
  case True
  then show ?thesis by (simp add: ending_def)
next
  case cancel: False
  have old: "\<not> pl_cancelled (nt_pipe st)"
    using step_pipe [OF assms(2)] step_result(3) [of env _ "nt_pipe st" "nt_pipe st'"] cancel by auto
  show ?thesis
  proof (cases "pl_result (nt_pipe st)")
    case None
    show ?thesis
      using assms(2)
    proof (cases rule: running_stepE)
      case (communicate e p')
      show ?thesis
      proof (cases "e = CollectEnd")
        case True
        with communicate(4) have "nt_collector st' = map Load [0..<10] @ [Callback]" by (simp add: notify_code_def)
        then have "last_notification st'" unfolding last_notification_def by (intro disjI1 exI [of _ 0]) simp
        then show ?thesis by (simp add: ending_def)
      next
        case False
        with step_result(1) [OF communicate(3)] None have "pl_result p' = None \<or> pl_result p' = Some (Inl context_Canceled)"
          by (cases e) simp_all
        with communicate(4) show ?thesis by (auto simp: ending_def)
      qed
    qed (use None in \<open>auto simp: ending_def\<close>)
  next
    case (Some x)
    then have ended: "scan_ended (nt_pipe st)" using returned_ended [OF assms(3) old] by simp
    note no_code = ended_no_code [OF ended assms(4,5)]
    show ?thesis
      using assms(2)
    proof (cases rule: running_stepE)
      case (communicate e p')
      with ended_step [OF ended communicate(3)] cancel show ?thesis by simp
    next
      case (scan i path)
      with no_code(4) show ?thesis by simp
    next
      case complete
      with no_code(2) show ?thesis by simp
    next
      case (discovery a code)
      with no_code(1) show ?thesis by simp
    next
      case (collector a code)
      have "last_notification st'" if "pl_result (nt_pipe st) = Some (Inr r)" for r
        using last_notification_act [OF _ collector(1)] collector(2) assms(1) old that by (auto simp: ending_def)
      with collector(2) show ?thesis by (simp add: ending_def)
    next
      case (worker i a code)
      with no_code(3) show ?thesis by simp
    qed
  qed
qed

lemma start_ending: "ending (start_running options items)"
  by (simp add: ending_def start_running_def start_pipeline_def)

section \<open>What the display shows at the end\<close>

lemma runs_invariant:
  assumes "scan_runs True env (start_running options items) st" and "1 \<le> opt_Workers options" and "scans_grow env"
  shows "accounted True env st \<and> workers_match st \<and> completion st \<and> grows st \<and> ending st \<and> well_ordered (nt_pipe st)"
  using assms(1)
proof (induction rule: scan_runs.induct)
  case runs_start
  have "well_ordered (nt_pipe (start_running options items))"
    using well_ordered_start [OF assms(2)] by (simp add: start_running_def)
  with start_accounted start_completion start_grows start_ending show ?case by blast
next
  case (runs_step st1 ev st2)
  then show ?case
    using step_accounted [of True env st1 ev st2] step_completion [OF _ runs_step(2)]
      step_grows [OF _ runs_step(2) assms(3)] step_ending [OF _ runs_step(2)]
      step_pipe [OF runs_step(2)] step_ordered [of "nt_pipe st1" env _ "nt_pipe st2"]
    by metis
qed

text \<open>When the scan has returned, the atomic counters are those of the pipeline, and the callback has got them.\<close>

lemma returned_counters:
  assumes "scan_runs True env (start_running options items) st" and "1 \<le> opt_Workers options" and "scans_grow env"
    and "\<not> pl_cancelled (nt_pipe st)" and "scan_returned st r"
  shows "nt_counters st = pl_counters (nt_pipe st)" and "nt_counters st \<in> set (nt_calls st)"
proof -
  note inv = runs_invariant [OF assms(1-3)]
  have result: "pl_result (nt_pipe st) = Some (Inr r)" and coll: "nt_collector st = []"
    using assms(5) by (simp_all add: scan_returned_def)
  then have ended: "scan_ended (nt_pipe st)" using returned_ended [of "nt_pipe st"] inv assms(4) by simp
  then have no_code: "nt_discovery st = []" "nt_completing st"
    and workers: "\<And>i. i < length (nt_workers st) \<Longrightarrow> nt_workers st ! i = None"
    using ended_no_code inv by blast+
  from workers have "nt_workers st = replicate (length (nt_workers st)) None" by (simp add: list_eq_iff_nth_eq)
  then have "balances True env c (nt_workers st) (pl_workers (nt_pipe st)) = 0" for c
    by (metis balances_idle)
  then have same: "counter_value c (nt_counters st) = counter_value c (pl_counters (nt_pipe st))" for c
    using conjunct1 [OF inv, unfolded accounted_def, THEN spec, of c] no_code(1) coll by simp
  obtain evs where run: "pipeline_run env (start_pipeline options items) evs (nt_pipe st)"
    using runs_pipe [OF assms(1)] by (auto simp: start_running_def)
  have "pc_discoveryComplete (pl_counters (nt_pipe st))"
    by (rule finished_counters(4) [OF run assms(2,4) result])
  moreover have "pc_discoveryComplete (nt_counters st)" using inv no_code by (auto simp: completion_def)
  ultimately show "nt_counters st = pl_counters (nt_pipe st)" by (intro counters_equal) (simp_all add: same)
  show "nt_counters st \<in> set (nt_calls st)"
    using inv assms(4) result coll by (auto simp: ending_def last_notification_def)
qed

lemma started_progress:
  "pd_progress (Start b filepathAbs c d) = pd_progress d"
proof -
  have "pd_progress (fold writeProgress ls d) = pd_progress d" for ls
    by (induction ls arbitrary: d) simp_all
  then show ?thesis by (simp add: Start_def)
qed

text \<open>
  C14: when a scan has returned its report without being cancelled, the display that got its
  notifications shows the counters of the scan, and they are those of the report: every path
  found is discovered and scanned, the certificates and the errors are all counted and the
  discovery is complete. This holds whatever order the notifications of the goroutines reach the
  display in and although each loads its fields one after another while the counters change: the
  collector's last one sees them all.
\<close>

theorem final_display_exact:
  assumes "scan_runs True env (start_running options items) st" and "1 \<le> opt_Workers options"
    and "\<not> pl_cancelled (nt_pipe st)" and "scan_returned st r" and "scans_grow env"
  shows "let d = Start b filepathAbs c (newProgressDisplay kind pw cw showResults quiet);
      p = pd_progress (fold Update (nt_calls st) d)
    in p = nt_counters st \<and>
      pc_filesDiscovered p = int (length (disc_jobs items)) \<and> pc_filesScanned p = int (length (disc_jobs items)) \<and>
      pc_certificatesFound p = int (length (concat (map (\<lambda>p. oc_certificates (fst (pe_scan env p))) (disc_jobs items)))) \<and>
      pc_scanErrors p = int (length (rp_Errors r)) \<and> pc_discoveryComplete p"
proof -
  define d where "d = Start b filepathAbs c (newProgressDisplay kind pw cw showResults quiet)"
  have result: "pl_result (nt_pipe st) = Some (Inr r)" using assms(4) by (simp add: scan_returned_def)
  obtain evs where run: "pipeline_run env (start_pipeline options items) evs (nt_pipe st)"
    using runs_pipe [OF assms(1)] by (auto simp: start_running_def)
  have seen: "seen_le st" using runs_invariant [OF assms(1,2,5)] assms(3) by (simp add: grows_def)
  have d: "\<not> pd_stopped d" "pd_progress d = zero_counters"
    by (simp_all add: d_def started_same started_progress newProgressDisplay_def)
  note returned = returned_counters [OF assms(1,2,5,3,4)]
  have shown: "pd_progress (fold Update (nt_calls st) d) = nt_counters st"
    using updates_reach [OF d(1), of "nt_counters st" "nt_calls st"] seen returned(2) d(2)
    by (auto simp: seen_le_def intro: counters.order_antisym)
  moreover have "pc_scanErrors (pl_counters (nt_pipe st)) = int (length (rp_Errors r))"
  proof -
    obtain delivered where d: "delivers env items delivered (nt_pipe st)" by (rule run_from_start [OF run assms(2)])
    then have "pl_report (nt_pipe st) = r" using result by (simp add: delivers_def)
    with errors_counted [OF d] show ?thesis by simp
  qed
  ultimately show ?thesis
    using finished_counters [OF run assms(2,3) result] returned(1) unfolding Let_def d_def [symmetric] by simp
qed

section \<open>The notifications do not hold up the scan\<close>

text \<open>Some goroutine can take a step of its own until the scan has ended and all code has been run.\<close>

definition all_run :: "running \<Rightarrow> bool" where
  "all_run st \<longleftrightarrow> scan_ended (nt_pipe st) \<and> nt_discovery st = [] \<and> nt_collector st = [] \<and>
     list_all (\<lambda>n. n = None) (nt_workers st)"

lemma running_can_move:
  assumes "scan_runs True env (start_running options items) st" and "1 \<le> opt_Workers options" and "scans_grow env"
    and "\<not> pl_panicked (nt_pipe st)" and "\<not> all_run st"
  shows "\<exists>ev st'. running_step True env ev st = Some st' \<and> (\<forall>e. ev = Communicate e \<longrightarrow> own_event e)"
proof -
  note inv = runs_invariant [OF assms(1-3)]
  have act: ?thesis if "act g st \<noteq> None" for g
    using that by (intro exI [of _ "Act g"]) auto
  show ?thesis
  proof (cases "nt_discovery st = [] \<and> nt_collector st = [] \<and> (\<forall>i < length (nt_workers st). nt_workers st ! i \<in> {None, Some []})")
    case False
    then consider "nt_discovery st \<noteq> []" | "nt_collector st \<noteq> []"
      | i where "i < length (nt_workers st)" "nt_workers st ! i \<notin> {None, Some []}" by blast
    then show ?thesis
    proof cases
      case 1
      then show ?thesis by (intro act [of GDiscovery]) (cases "nt_discovery st"; simp)
    next
      case 2
      then show ?thesis by (intro act [of GCollector]) (cases "nt_collector st"; simp)
    next
      case 3
      then obtain a code where "nt_workers st ! i = Some (a # code)"
        by (cases "nt_workers st ! i"; cases "the (nt_workers st ! i)") auto
      with 3(1) show ?thesis by (intro act [of "GWorker i"]) simp
    qed
  next
    case quiet: True
    have "\<not> scan_ended (nt_pipe st)"
    proof
      assume "scan_ended (nt_pipe st)"
      then have "list_all (\<lambda>n. n = None) (nt_workers st)" using ended_no_code(3) inv by (auto simp: list_all_length)
      with \<open>scan_ended (nt_pipe st)\<close> quiet assms(5) show False by (simp add: all_run_def)
    qed
    then obtain e p' where e: "own_event e" "pipeline_step env e (nt_pipe st) = Some p'"
      using can_move [of "nt_pipe st" env] cancelled_can_move [of "nt_pipe st" env] returned_ended [of "nt_pipe st"] inv assms(4)
      by metis
    show ?thesis
    proof (cases "may_communicate e st")
      case True
      with e show ?thesis by (intro exI [of _ "Communicate e"]) simp
    next
      case False
      then consider "e = DiscEnd" "\<not> nt_completing st" | i where "e = WorkerScan i" "nt_workers st ! i \<noteq> Some []"
        using quiet by (cases e) auto
      then show ?thesis
      proof cases
        case 1
        with e(2) have "pl_todo (nt_pipe st) = []" by (auto simp: pipeline_step_def split: if_splits)
        with 1 quiet show ?thesis by (intro exI [of _ BeginComplete]) (simp add: begin_complete_def)
      next
        case 2
        with e(2) obtain path where w: "i < length (pl_workers (nt_pipe st))" "pl_workers (nt_pipe st) ! i = WScanning path"
          by (auto simp: pipeline_step_def split: if_splits worker_state.splits)
        moreover have "length (nt_workers st) = length (pl_workers (nt_pipe st))" using inv by (simp add: workers_match_def)
        ultimately have "nt_workers st ! i = None" using quiet 2(2) by auto
        with w inv show ?thesis by (intro exI [of _ "BeginScan i"]) (simp add: begin_scan_def workers_match_def)
      qed
    qed
  qed
qed

text \<open>And no run goes on forever: the work of the pipeline, the scans to begin and the code left get less.\<close>

definition running_left :: "running \<Rightarrow> nat \<times> nat \<times> nat" where
  "running_left st =
     (work_left (nt_pipe st), (if nt_completing st then 0 else 1) + length (filter (\<lambda>n. n = None) (nt_workers st)),
      length (nt_discovery st) + length (nt_collector st) +
        sum_list (map (\<lambda>n. case n of None \<Rightarrow> 0 | Some code \<Rightarrow> length code) (nt_workers st)))"

lemma filter_update_less:
  "i < length xs \<Longrightarrow> P (xs ! i) \<Longrightarrow> \<not> P x \<Longrightarrow> length (filter P (xs[i := x])) < length (filter P xs)"
proof (induction xs arbitrary: i)
  case (Cons y xs)
  then show ?case by (cases i) auto
qed simp

lemma filter_update_same:
  "i < length xs \<Longrightarrow> P (xs ! i) = P x \<Longrightarrow> length (filter P (xs[i := x])) = length (filter P xs)"
proof (induction xs arbitrary: i)
  case (Cons y xs)
  then show ?case by (cases i) auto
qed simp

lemma running_step_left:
  assumes "running_step callback env ev st = Some st'" and "well_ordered (nt_pipe st)"
  shows "(running_left st', running_left st) \<in> less_than <*lex*> less_than <*lex*> less_than"
  using assms(1)
proof (cases rule: running_stepE)
  case (communicate e p')
  with step_work [OF communicate(3) assms(2)] show ?thesis by (simp add: running_left_def)
next
  case (scan i path)
  with filter_update_less [OF scan(1), of "\<lambda>n. n = None"] show ?thesis by (simp add: running_left_def)
next
  case (worker i a code)
  with filter_update_same [OF worker(1), of "\<lambda>n. n = None" "Some code"]
    sum_list_list_update [OF worker(1), of "\<lambda>n. case n of None \<Rightarrow> 0 | Some code \<Rightarrow> length code" "Some code"]
  show ?thesis by (simp add: running_left_def)
qed (simp_all add: running_left_def)

text \<open>
  A scan with its notifications has no infinite run; so, as some goroutine can move until everything has
  ended, it ends.
\<close>

theorem running_ends:
  assumes "f 0 = start_running options items" and "1 \<le> opt_Workers options"
  shows "\<exists>n. \<forall>ev. running_step callback env ev (f n) \<noteq> Some (f (Suc n))"
proof (rule ccontr)
  assume "\<not> ?thesis"
  then have step: "\<exists>ev. running_step callback env ev (f n) = Some (f (Suc n))" for n by blast
  have ordered: "well_ordered (nt_pipe (f n))" for n
  proof (induction n)
    case 0
    then show ?case using well_ordered_start [OF assms(2)] by (simp add: assms(1) start_running_def)
  next
    case (Suc n)
    with step [of n] step_pipe step_ordered show ?case by metis
  qed
  have "\<forall>n. (running_left (f (Suc n)), running_left (f n)) \<in> less_than <*lex*> less_than <*lex*> less_than"
    using running_step_left step ordered by blast
  moreover have "wf (less_than <*lex*> less_than <*lex*> less_than)" by (intro wf_lex_prod wf_less_than)
  ultimately show False
    unfolding wf_iff_no_infinite_down_chain not_ex by (elim allE [of _ "\<lambda>n. running_left (f n)"]) simp
qed

section \<open>A sample\<close>

lemma scan_runs_Cons:
  assumes "scan_runs callback env st' st''" and "running_step callback env ev st = Some st'"
  shows "scan_runs callback env st st''"
  using assms by (induction rule: scan_runs.induct) (auto intro: scan_runs.intros)

lemma running_events_runs: "running_events callback env evs st = Some st' \<Longrightarrow> scan_runs callback env st st'"
  by (induction evs arbitrary: st) (auto intro: runs_start scan_runs_Cons split: option.splits)

text \<open>The discovery has loaded half of its last notification when the worker and the collector go on.\<close>

definition sample_running :: "running_event list" where
  "sample_running =
     Communicate DiscAnnounce # replicate 12 (Act GDiscovery) @
     [Communicate DiscSend, Communicate (WorkerTake 0), BeginScan 0, BeginComplete] @ replicate 6 (Act GDiscovery) @
     replicate 14 (Act (GWorker 0)) @ [Communicate (WorkerScan 0), Communicate (WorkerSend 0)] @
     replicate 2 (Act GCollector) @ replicate 6 (Act GDiscovery) @ replicate 12 (Act GCollector) @
     [Communicate DiscEnd, Communicate (WorkerQuit 0), Communicate CloseOutcomes, Communicate CollectEnd] @
     replicate 11 (Act GCollector)"

lemmas running_defs = sample_running_def start_running_def begin_scan_def begin_complete_def archive_code_def
  complete_code_def discovered_code_def collect_code_def notify_code_def scan_returned_def numeral_eq_Suc

lemma sample_running_result:
  "\<exists>st. running_events True sample_pipeline_env sample_running (start_running (sample_options 0) [DJob ''a'']) = Some st \<and>
    \<not> pl_cancelled (nt_pipe st) \<and>
    scan_returned st \<lparr>rp_Certificates = [sample_finding ''a''], rp_PKCS12Encrypted = [], rp_Errors = []\<rparr>"
  by (simp add: running_defs sample_run_defs sample_options_def sortReport_def sort_Slice_def)

lemma final_display_exact_witness:
  "\<exists>st. scan_runs True sample_pipeline_env (start_running (sample_options 0) [DJob ''a'']) st \<and>
    pc_filesScanned (pd_progress (fold Update (nt_calls st) (Start unset_build Inr undefined
      (newProgressDisplay OutputOther \<lparr>wr_written = [], wr_errors = []\<rparr> \<lparr>wr_written = [], wr_errors = []\<rparr> True True)))) = 1"
proof -
  obtain st where st: "running_events True sample_pipeline_env sample_running (start_running (sample_options 0) [DJob ''a'']) = Some st"
    "\<not> pl_cancelled (nt_pipe st)"
    "scan_returned st \<lparr>rp_Certificates = [sample_finding ''a''], rp_PKCS12Encrypted = [], rp_Errors = []\<rparr>"
    using sample_running_result by blast
  note run = running_events_runs [OF st(1)]
  have grow: "scans_grow sample_pipeline_env"
    by (simp add: scans_grow_def sample_pipeline_env_def growing_calls_def)
  note shown = final_display_exact [OF run _ st(2,3) grow, of unset_build Inr undefined OutputOther
      "\<lparr>wr_written = [], wr_errors = []\<rparr>" "\<lparr>wr_written = [], wr_errors = []\<rparr>" True True, unfolded Let_def,
    THEN conjunct2, THEN conjunct2, THEN conjunct1]
  have "pc_filesScanned (pd_progress (fold Update (nt_calls st) (Start unset_build Inr undefined
      (newProgressDisplay OutputOther \<lparr>wr_written = [], wr_errors = []\<rparr> \<lparr>wr_written = [], wr_errors = []\<rparr> True True)))) = 1"
    by (rule shown [THEN trans]) simp_all
  with run show ?thesis by blast
qed

end
