(* ===== verification/Spec2Isabelle.thy ===== *)
theory Spec2Isabelle
  imports JksStore Pkcs12Store ScanFile ZipCount Verify PipelineRuns DiscoveryExact RunDisplay JsonFacts NotifyFacts
begin

text \<open>
  A verification development for certfinder, a command written in Go that finds X.509 certificates in
  the files below a path: in PEM and DER files, Java keystores (JKS, JCEKS), PKCS#12 stores,
  and inside ZIP, TAR and gzip archives.

  \<^bold>\<open>The program.\<close> \<^verbatim>\<open>run\<close> (src/main.go) parses and checks the options, starts the display
  (src/progress.go) and calls \<^verbatim>\<open>scanner.Scan\<close> (src/internal/scanner/scanner.go). The scan walks the
  directory tree in one goroutine, which sends paths to workers over a channel; each worker reads a
  bounded prefix of a file, classifies it, and parses it with jks.go, pkcs12.go or the PEM and DER code of
  scanner.go, or walks it as an archive with archive.go; the collector receives the outcomes, keeps the
  counters and the report, and calls the callbacks of the command. With \<^verbatim>\<open>-verify\<close> the chains of the report
  are verified (verify.go). The command selects certificates by its filters, groups equal ones
  (src/duplicates.go), prints text, JSON or JSON Lines, and ends with an exit status.

  \<^bold>\<open>Conventions.\<close> Definitions keep the names of the source. Structs are records, a value with an error is
  \<open>go_error + 'a\<close>, an error value keeps its format string and arguments unrendered. Go's \<^verbatim>\<open>string\<close> and
  \<^verbatim>\<open>[]byte\<close> are lists of bytes. \<^verbatim>\<open>int\<close> is \<open>int\<close> where no operation of the source can leave the 64-bit
  range, and the theorems about bounds say why; durations and the offsets of the DER reader are
  \<open>64 word\<close>, read signed, where they could. Code of other packages is an argument: \<open>x509_lib\<close> (parsing,
  signatures, hashes, PEM blocks), \<open>archive_lib\<close> (archive/zip, archive/tar, compress/gzip), \<open>fs_lib\<close> (the
  queries of the file system), \<open>verify_lib\<close>, \<open>cli_lib\<close>, \<open>text_lib\<close>; functions of the standard library that
  decide what the program does are translated: encoding/asn1 as pkcs12.go uses it, unicode/utf8,
  path and path/filepath, strings, the readers of io.

  \<^bold>\<open>Theories.\<close>
  \<^item> \<^verbatim>\<open>GoLib\<close>, \<^verbatim>\<open>GoText\<close>, \<^verbatim>\<open>GoIO\<close>, \<^verbatim>\<open>GoPath\<close>, \<^verbatim>\<open>GoFs\<close>: the prelude. Bytes, errors, numerals, UTF-8, readers
    (the locale \<open>io_reader\<close> is the contract of \<^verbatim>\<open>io.Reader\<close>), paths, \<^verbatim>\<open>filepath.WalkDir\<close>; \<^verbatim>\<open>GoPathFacts\<close> has
    the algebra of clean paths.
  \<^item> \<^verbatim>\<open>Types\<close>: the structs of the scanner and the fields of a certificate it reads. \<^verbatim>\<open>Samples\<close>: one instance of the
    parameters for the witnesses.
  \<^item> \<^verbatim>\<open>Mutf8\<close>, \<^verbatim>\<open>Jks\<close>, \<^verbatim>\<open>JksStore\<close>: the modified UTF-8 decoder and the keystore reader and parser of jks.go. The
    locale \<open>cursor\<close> is the contract of a method of \<^verbatim>\<open>javaKeystoreReader\<close>: what it consumes, and that a
    shorter input fails; every method interprets it. The decoder accepts exactly the Java encodings,
    no keystore is a prefix of another, and parsing inverts an encoder of abstract stores.
  \<^item> \<^verbatim>\<open>Asn1\<close>, \<^verbatim>\<open>Pkcs12\<close>, \<^verbatim>\<open>Pkcs12Facts\<close>, \<^verbatim>\<open>Pkcs12Spec\<close>, \<^verbatim>\<open>Pkcs12Detect\<close>, \<^verbatim>\<open>Pkcs12Store\<close>: the DER reader, the detector and
    the parser of pkcs12.go. Offsets stay in range, the limits on bags and contents hold, the certificates and
    their positions and the truststore mark are those of the bags of the file (\<open>file_bags\<close>, without the
    parser's counters), what the parser can open is detected, and parsing inverts an encoder of
    abstract stores.
  \<^item> \<^verbatim>\<open>Content\<close>, \<^verbatim>\<open>ContentFacts\<close>, \<^verbatim>\<open>ScanFile\<close>: the classification of bytes, the PEM loop, the description of a
    certificate, and the scan of a file with its sniff limit: a limit never changes findings, it
    only leaves a file unread and marks it.
  \<^item> \<^verbatim>\<open>Archive\<close>, \<^verbatim>\<open>ArchiveRead\<close>, \<^verbatim>\<open>ArchiveFacts\<close>, \<^verbatim>\<open>ArchiveScan\<close>, \<^verbatim>\<open>ZipCount\<close>: archive.go. The locales
    \<open>archive_invariant\<close> and \<open>archive_outcomes\<close> carry a property through the mutually nested scans; their
    interpretations give the limits on bytes and entries, the places of the findings, and that
    the progress counts only grow.
  \<^item> \<^verbatim>\<open>Filters\<close>, \<^verbatim>\<open>Discovery\<close>, \<^verbatim>\<open>DiscoveryFacts\<close>, \<^verbatim>\<open>ScanSetup\<close>, \<^verbatim>\<open>DiscoveryExact\<close>: the filters, the walks with and without
    symbolic links, the checks of \<^verbatim>\<open>Scan\<close>. Only selected files are queued: entries of directories that the
    relation \<open>dir_at\<close> reaches from the root. The walk ends whatever cycles links form, and the one
    without links finds exactly the files described by the relation \<open>below\<close>; with the pipeline this is
    what a whole scan reports.
  \<^item> \<^verbatim>\<open>Report\<close>, \<^verbatim>\<open>Pipeline\<close>, \<^verbatim>\<open>PipelineFacts\<close>, \<^verbatim>\<open>PipelineRuns\<close>: the sorted report, and the goroutines of a scan as a step
    relation (\<open>pipeline_step\<close>, one communication or local action each, cancellation at any time). An uncancelled
    scan returns every finding once whatever the interleaving; no run deadlocks or goes on forever, also
    without the help of a cancellation; a cancelled one can return a part of the report or panic.
  \<^item> \<^verbatim>\<open>Verify\<close>: verify.go. Verification annotates and keeps certificates, and classifies errors.
  \<^item> \<^verbatim>\<open>Flags\<close>, \<^verbatim>\<open>FlagsFacts\<close>: the option values of main.go, in 64 bits where durations can overflow.
  \<^item> \<^verbatim>\<open>Output\<close>, \<^verbatim>\<open>Json\<close>, \<^verbatim>\<open>JsonFacts\<close>: the printed lines with their write errors, and the JSON values of the output
    structs, which a reader gets back from the documents.
  \<^item> \<^verbatim>\<open>Run\<close>, \<^verbatim>\<open>RunFacts\<close>: \<^verbatim>\<open>run\<close> from the parsed flags to the exit status.
  \<^item> \<^verbatim>\<open>RunDisplay\<close>: what a run starts its display with, and that a text run has printed what it shows or fails.
  \<^item> \<^verbatim>\<open>Progress\<close>, \<^verbatim>\<open>DisplayFacts\<close>: the display. Results are written in full and in order or an error is reported
    (the locale \<open>display_invariant\<close>).
  \<^item> \<^verbatim>\<open>Notify\<close>, \<^verbatim>\<open>ProgressFacts\<close>, \<^verbatim>\<open>NotifyFacts\<close>: the atomic counters and the calls of \<^verbatim>\<open>notifyProgress\<close>. Between the
    communications of the pipeline every goroutine runs straight-line code (\<open>running_step\<close>): one addition to a
    counter, one load of a field or one call of the callback each. The communications are a run of the
    pipeline (\<open>runs_pipe\<close>), the atomic counters and the code still to run balance its counters
    (\<open>accounted\<close>), every run ends, and after a scan the display shows the numbers of the report.

  \<^bold>\<open>Fuel and bounds.\<close> The PEM loop takes more fuel than the input has bytes, and every decoded block
  consumes a byte. \<^verbatim>\<open>io.ReadAll\<close> has fuel beyond the bytes of the reader. The walk with links takes one
  level of fuel for each directory: a directory is entered once, so that much suffices, which is
  proved. The walk without links takes one level more than the tree has nested directories, which is proved
  to suffice; \<open>None\<close> stands for a deeper tree. Everything else is structural or has a termination proof; the nesting of
  archives ends at the depth limit. A run of the pipeline has no fuel: it is a list of events, and their
  number is bounded by a measure.

  \<^bold>\<open>Not modelled.\<close> \<^verbatim>\<open>main\<close> and \<^verbatim>\<open>execute\<close>, which connect \<^verbatim>\<open>run\<close> to the process and its signals; \<^verbatim>\<open>flag.Parse\<close> and the
  usage text; the lines of the log; the text \<^verbatim>\<open>encoding/json\<close> makes of a value; the clock (the times are
  arguments) and the ticker of the refresh loop; the order \<^verbatim>\<open>sort.Slice\<close> gives elements that compare equal;
  the copies the source makes of slices, which have no effect on values. The wrappers
  \<^verbatim>\<open>printJSONAt\<close>, \<^verbatim>\<open>printJSONCertificateGroupsAt\<close>, \<^verbatim>\<open>scanFile\<close> and \<^verbatim>\<open>scanFileContents\<close> and the \<^verbatim>\<open>String\<close> methods of
  the flags only pass arguments on. In \<open>pipeline_step\<close> a communication counts at once what the goroutine then
  adds one by one; \<open>running_step\<close> has the additions and notifications as steps of their own.
\<close>

end
